(* ===== verification/Prelude.thy ===== *)
theory Prelude
  imports Main "HOL-Library.Word" "HOL-Library.List_Lexorder" "HOL-Library.Sublist"
begin

text \<open>
  The shared vocabulary of the development: machine words, C++ failures as values of a sum
  type, and the reading of a byte buffer through an iterator.

  An iterator pair \<open>(begin, end)\<close> of the C++ parsers is a pair of positions in one buffer:
  \<open>begin\<close> is threaded through the parser (the code takes it by reference), \<open>end\<close> is an
  argument (the code takes it by value). Dereferencing or advancing past the end of the
  underlying vector is undefined behaviour in C++; here it is the error value
  \<open>Out_of_bounds\<close>, so that a theorem can say that it does, or does not, happen.
\<close>

unbundle bit_operations_syntax

text \<open>Positions are sums \<open>p + n\<close> throughout, never \<open>Suc (Suc p)\<close>.\<close>

declare add_2_eq_Suc [simp del] add_2_eq_Suc' [simp del]

subsection \<open>Types\<close>

type_synonym byte = "8 word"
type_synonym bytes = "byte list"
type_synonym u16 = "16 word"
type_synonym u32 = "32 word"
type_synonym u64 = "64 word"

datatype cpp_error =
    Runtime_error string
  | Logic_error string
  | Invalid_argument string
  | Decoding_error string
  | Memory_exhaustion
  | Deadlock
  | Out_of_range
  | Out_of_bounds
  | Null_dereference

type_synonym 'a result = "cpp_error + 'a"
type_synonym 'a parser = "bytes \<Rightarrow> nat \<Rightarrow> ('a \<times> nat) result"

named_theorems inr_iff \<open>when a computation returns normally\<close>
named_theorems reads \<open>what a read returns where the buffer holds given bytes\<close>

subsection \<open>Failing computations\<close>

fun ebind :: "'a result \<Rightarrow> ('a \<Rightarrow> 'b result) \<Rightarrow> 'b result" where
  "ebind (Inl err) f = Inl err"
| "ebind (Inr x) f = f x"

lemma ebind_Inr_iff [inr_iff]: "ebind m f = Inr y \<longleftrightarrow> (\<exists>x. m = Inr x \<and> f x = Inr y)"
  by (cases m) auto

lemma ebind_Inl_iff: "ebind m f = Inl err \<longleftrightarrow> m = Inl err \<or> (\<exists>x. m = Inr x \<and> f x = Inl err)"
  by (cases m) auto

lemma ebind_cong [fundef_cong]:
  "m = m' \<Longrightarrow> (\<And>x. m' = Inr x \<Longrightarrow> f x = f' x) \<Longrightarrow> ebind m f = ebind m' f'"
  by (cases m') auto

definition require :: "bool \<Rightarrow> cpp_error \<Rightarrow> unit result" where
  "require b err = (if b then Inr () else Inl err)"

lemma require_simps [simp]:
  "require True err = Inr ()" "require False err = Inl err"
  by (simp_all add: require_def)

lemma require_Inr_iff [inr_iff]: "require b err = Inr u \<longleftrightarrow> b"
  by (simp add: require_def)

lemma require_Inl_iff: "require b err = Inl err' \<longleftrightarrow> \<not> b \<and> err' = err"
  by (auto simp: require_def)

subsection \<open>Reading through an iterator\<close>

definition pbind :: "'a parser \<Rightarrow> ('a \<Rightarrow> 'b parser) \<Rightarrow> 'b parser" where
  "pbind m f buf p = ebind (m buf p) (\<lambda>(x, q). f x buf q)"

definition preturn :: "'a \<Rightarrow> 'a parser" where
  "preturn x buf p = Inr (x, p)"

definition praise :: "cpp_error \<Rightarrow> 'a parser" where
  "praise err buf p = Inl err"

text \<open>\<open>*(begin++)\<close>.\<close>

definition next_byte :: "byte parser" where
  "next_byte buf p = (if p < length buf then Inr (buf ! p, Suc p) else Inl Out_of_bounds)"

text \<open>\<open>std::copy(begin, begin + n, ...); begin += n\<close>.\<close>

definition next_bytes :: "nat \<Rightarrow> bytes parser" where
  "next_bytes n buf p =
     (if p + n \<le> length buf then Inr (take n (drop p buf), p + n) else Inl Out_of_bounds)"

text \<open>\<open>begin += n\<close> without a read.\<close>

definition skip :: "nat \<Rightarrow> unit parser" where
  "skip n buf p = (if p + n \<le> length buf then Inr ((), p + n) else Inl Out_of_bounds)"

text \<open>\<open>if(std::distance(begin, end) < n) throw err\<close>: the distance is signed.\<close>

definition need :: "nat \<Rightarrow> nat \<Rightarrow> cpp_error \<Rightarrow> unit parser" where
  "need e n err buf p = (if int e - int p < int n then Inl err else Inr ((), p))"

lemmas parser_defs = pbind_def preturn_def praise_def next_byte_def next_bytes_def skip_def need_def

lemma pbind_Inr_iff [inr_iff]:
  "pbind m f buf p = Inr (y, q) \<longleftrightarrow> (\<exists>x p'. m buf p = Inr (x, p') \<and> f x buf p' = Inr (y, q))"
  by (auto simp: pbind_def ebind_Inr_iff)

lemma pbind_Inl_iff:
  "pbind m f buf p = Inl err \<longleftrightarrow>
     m buf p = Inl err \<or> (\<exists>x p'. m buf p = Inr (x, p') \<and> f x buf p' = Inl err)"
  by (auto simp: pbind_def ebind_Inl_iff)

lemma preturn_Inr_iff [inr_iff]: "preturn x buf p = Inr (y, q) \<longleftrightarrow> y = x \<and> q = p"
  by (auto simp: preturn_def)

lemma praise_Inr_iff [inr_iff]: "praise err buf p = Inr r \<longleftrightarrow> False"
  by (simp add: praise_def)

lemma next_byte_Inr_iff [inr_iff]:
  "next_byte buf p = Inr (x, q) \<longleftrightarrow> p < length buf \<and> x = buf ! p \<and> q = Suc p"
  by (auto simp: next_byte_def)

lemma next_bytes_Inr_iff [inr_iff]:
  "next_bytes n buf p = Inr (xs, q) \<longleftrightarrow>
     p + n \<le> length buf \<and> xs = take n (drop p buf) \<and> q = p + n"
  by (auto simp: next_bytes_def)

lemma skip_Inr_iff [inr_iff]: "skip n buf p = Inr (u, q) \<longleftrightarrow> p + n \<le> length buf \<and> q = p + n"
  by (auto simp: skip_def)

lemma need_Inr_iff [inr_iff]: "need e n err buf p = Inr (u, q) \<longleftrightarrow> p + n \<le> e \<and> q = p"
  by (auto simp: need_def)

subsection \<open>Buffers that hold given bytes\<close>

definition has_at :: "bytes \<Rightarrow> nat \<Rightarrow> bytes \<Rightarrow> bool" where
  "has_at buf p xs \<longleftrightarrow> p + length xs \<le> length buf \<and> take (length xs) (drop p buf) = xs"

lemma has_at_Nil [simp]: "has_at buf p [] \<longleftrightarrow> p \<le> length buf"
  by (simp add: has_at_def)

lemma has_at_append [simp]:
  "has_at buf p (xs @ ys) \<longleftrightarrow> has_at buf p xs \<and> has_at buf (p + length xs) ys"
  by (auto simp: has_at_def take_add append_eq_append_conv add.commute add.left_commute)

lemma has_at_single: "has_at buf p [x] \<longleftrightarrow> p < length buf \<and> buf ! p = x"
  by (auto simp: has_at_def take_Suc_conv_app_nth hd_drop_conv_nth take_Suc)

lemma has_at_Cons: "has_at buf p (x # xs) \<longleftrightarrow> p < length buf \<and> buf ! p = x \<and> has_at buf (Suc p) xs"
  using has_at_append [of buf p "[x]" xs] by (simp add: has_at_single)

lemma has_at_self [simp]: "has_at xs 0 xs"
  by (simp add: has_at_def)

lemma has_at_middle [simp]: "has_at (pre @ xs @ post) (length pre) xs"
  by (simp add: has_at_def)

lemma has_at_le: "has_at buf p xs \<Longrightarrow> p + length xs \<le> length buf"
  by (simp add: has_at_def)

lemma has_at_eq: "has_at buf p xs \<Longrightarrow> has_at buf p ys \<Longrightarrow> length xs = length ys \<Longrightarrow> xs = ys"
  by (simp add: has_at_def)

lemma has_at_take_drop: "p + n \<le> length buf \<Longrightarrow> has_at buf p (take n (drop p buf))"
  by (simp add: has_at_def)

lemma next_byte_has_at [reads]: "has_at buf p (x # xs) \<Longrightarrow> next_byte buf p = Inr (x, Suc p)"
  by (simp add: next_byte_def has_at_Cons)

lemma next_bytes_has_at [reads]:
  "has_at buf p xs \<Longrightarrow> length xs = n \<Longrightarrow> next_bytes n buf p = Inr (xs, p + n)"
  by (auto simp: next_bytes_def has_at_def)

lemma skip_has_at: "has_at buf p xs \<Longrightarrow> length xs = n \<Longrightarrow> skip n buf p = Inr ((), p + n)"
  by (auto simp: skip_def has_at_def)

lemma need_ok: "p + n \<le> e \<Longrightarrow> need e n err buf p = Inr ((), p)"
  by (simp add: need_def)

lemma pbind_ok: "m buf p = Inr (x, q) \<Longrightarrow> pbind m f buf p = f x buf q"
  by (simp add: pbind_def)

subsection \<open>Big-endian words\<close>

text \<open>\<open>b.insert(b.end(), x >> 8); b.insert(b.end(), x)\<close> and its wider relatives: each
  inserted value is truncated to \<open>unsigned char\<close>.\<close>

definition be16 :: "u16 \<Rightarrow> bytes" where
  "be16 x = [ucast (drop_bit 8 x), ucast x]"

definition be32 :: "u32 \<Rightarrow> bytes" where
  "be32 x = [ucast (drop_bit 24 x), ucast (drop_bit 16 x), ucast (drop_bit 8 x), ucast x]"

definition join16 :: "byte \<Rightarrow> byte \<Rightarrow> u16" where
  "join16 a b = push_bit 8 (ucast a) OR ucast b"

definition join32 :: "byte \<Rightarrow> byte \<Rightarrow> byte \<Rightarrow> byte \<Rightarrow> u32" where
  "join32 a b c d =
     push_bit 24 (ucast a) OR push_bit 16 (ucast b) OR push_bit 8 (ucast c) OR ucast d"

lemma length_be [simp]: "length (be16 x) = 2" "length (be32 y) = 4"
  by (simp_all add: be16_def be32_def)

lemma byte_bit_ge [simp]: "8 \<le> n \<Longrightarrow> bit (b :: byte) n \<longleftrightarrow> False"
  using bit_imp_le_length [of b n] by auto

lemma join16_be16: "join16 (ucast (drop_bit 8 x)) (ucast x) = x"
  by (rule bit_word_eqI) (auto simp: join16_def bit_simps)

lemma join32_be32:
  "join32 (ucast (drop_bit 24 x)) (ucast (drop_bit 16 x)) (ucast (drop_bit 8 x)) (ucast x) = x"
proof (rule bit_word_eqI)
  fix n :: nat
  consider "n < 8" | "8 \<le> n" "n < 16" | "16 \<le> n" "n < 24" | "24 \<le> n" by linarith
  then show "bit (join32 (ucast (drop_bit 24 x)) (ucast (drop_bit 16 x)) (ucast (drop_bit 8 x)) (ucast x)) n = bit x n"
    by cases (auto simp: join32_def bit_simps dest: bit_imp_le_length)
qed

lemma be16_join16: "be16 (join16 a b) = [a, b]"
  unfolding be16_def join16_def by (auto intro!: bit_word_eqI simp: bit_simps dest: bit_imp_le_length)

lemma be32_join32: "be32 (join32 a b c d) = [a, b, c, d]"
  unfolding be32_def join32_def by (auto intro!: bit_word_eqI simp: bit_simps dest: bit_imp_le_length)

lemma unat_byte_less [simp]: "unat (x :: byte) < 256"
  using unsigned_less [of x, where ?'a = nat] by simp

lemma unat_u16_less [simp]: "unat (x :: u16) < 65536"
  using unsigned_less [of x, where ?'a = nat] by simp

lemma unat_u32_less [simp]: "unat (x :: u32) < 4294967296"
  using unsigned_less [of x, where ?'a = nat] by simp

lemma unat_of_nat_byte: "unat (of_nat n :: byte) = n mod 256"
  by (simp add: unat_of_nat)

lemma unat_of_nat_u16: "unat (of_nat n :: u16) = n mod 65536"
  by (simp add: unat_of_nat)

lemma unat_of_nat_u32: "unat (of_nat n :: u32) = n mod 4294967296"
  by (simp add: unat_of_nat)

lemmas unat_of_nats = unat_of_nat_byte unat_of_nat_u16 unat_of_nat_u32

end
