(* ===== verification/Codec.thy ===== *)
theory Codec
  imports Prelude
begin

text \<open>
  The contract of the data types' \<open>serialize\<close> members and parsing constructors, stated once
  as locales: a \<open>codec\<close> reads back what it wrote and leaves the iterator just behind it, an
  \<open>exact_codec\<close> also writes back what it read, and a \<open>bounded_parser\<close> never touches memory
  outside \<open>[begin, end)\<close>. The data types interpret them; what follows from the laws alone
  (injectivity, unique decoding, sequences of values) is proved here.
\<close>

text \<open>\<open>for(int i = 0; i < n; i++) xs.push_back(T(begin, end));\<close>\<close>

fun preplicate :: "nat \<Rightarrow> 'a parser \<Rightarrow> 'a list parser" where
  "preplicate 0 m = preturn []"
| "preplicate (Suc n) m = pbind m (\<lambda>x. pbind (preplicate n m) (\<lambda>xs. preturn (x # xs)))"

lemma preplicate_length: "preplicate n m buf p = Inr (xs, q) \<Longrightarrow> length xs = n"
  by (induction n arbitrary: p q xs) (auto simp: inr_iff)

locale codec =
  fixes ser :: "'a \<Rightarrow> bytes"
    and par :: "nat \<Rightarrow> 'a parser"
    and wf :: "'a \<Rightarrow> bool"
  assumes par_ser:
    "wf x \<Longrightarrow> has_at buf p (ser x) \<Longrightarrow> p + length (ser x) \<le> e \<Longrightarrow>
       par e buf p = Inr (x, p + length (ser x))"
begin

lemma roundtrip: "wf x \<Longrightarrow> par (length (ser x)) (ser x) 0 = Inr (x, length (ser x))"
  using par_ser [of x "ser x" 0 "length (ser x)"] by simp

lemma unique_decoding:
  assumes "wf x" and "wf y" and eq: "ser x @ u = ser y @ v"
  shows "x = y \<and> u = v"
proof -
  let ?buf = "ser x @ u"
  have hx: "has_at ?buf 0 (ser x)" by (simp add: has_at_def)
  have hy: "has_at ?buf 0 (ser y)" unfolding eq by (simp add: has_at_def)
  let ?e = "length (ser x) + length (ser y)"
  have "par ?e ?buf 0 = Inr (x, length (ser x))"
    using par_ser [OF assms(1) hx, of ?e] by simp
  moreover have "par ?e ?buf 0 = Inr (y, length (ser y))"
    using par_ser [OF assms(2) hy, of ?e] by simp
  ultimately have "x = y" by simp
  with eq show ?thesis by simp
qed

lemma ser_inj: "wf x \<Longrightarrow> wf y \<Longrightarrow> ser x = ser y \<Longrightarrow> x = y"
  using unique_decoding [of x y "[]" "[]"] by simp

lemma many_ser:
  "(\<And>x. x \<in> set xs \<Longrightarrow> wf x) \<Longrightarrow> has_at buf p (concat (map ser xs)) \<Longrightarrow>
   p + length (concat (map ser xs)) \<le> e \<Longrightarrow>
   preplicate (length xs) (par e) buf p = Inr (xs, p + length (concat (map ser xs)))"
proof (induction xs arbitrary: p)
  case Nil
  then show ?case by (simp add: preturn_def)
next
  case (Cons x xs)
  then have "par e buf p = Inr (x, p + length (ser x))"
    by (intro par_ser) auto
  moreover have "preplicate (length xs) (par e) buf (p + length (ser x)) =
      Inr (xs, p + length (ser x) + length (concat (map ser xs)))"
    using Cons.prems by (intro Cons.IH) auto
  ultimately show ?case
    by (simp add: pbind_def preturn_def)
qed

end

locale exact_codec = codec +
  assumes ser_par:
    "par e buf p = Inr (x, q) \<Longrightarrow> has_at buf p (ser x) \<and> q = p + length (ser x) \<and> wf x"
begin

lemma reserialize: "par (length buf) buf 0 = Inr (x, length buf) \<Longrightarrow> ser x = buf"
  using ser_par [of "length buf" buf 0 x "length buf"] by (fastforce simp: has_at_def)

end

locale bounded_parser =
  fixes par :: "nat \<Rightarrow> 'a parser"
  assumes in_bounds: "e \<le> length buf \<Longrightarrow> par e buf p \<noteq> Inl Out_of_bounds"
    and advances: "par e buf p = Inr (x, q) \<Longrightarrow> p \<le> q \<and> q \<le> e"
begin

lemma many_in_bounds:
  "e \<le> length buf \<Longrightarrow> preplicate n (par e) buf p \<noteq> Inl Out_of_bounds"
  by (induction n arbitrary: p) (auto simp: pbind_Inl_iff preturn_def in_bounds)

lemma many_advances:
  "preplicate n (par e) buf p = Inr (xs, q) \<Longrightarrow> p \<le> e \<Longrightarrow> p \<le> q \<and> q \<le> e"
proof (induction n arbitrary: p xs q)
  case 0
  then show ?case by (simp add: preturn_def)
next
  case (Suc n)
  then obtain x p' ys where "par e buf p = Inr (x, p')"
    and rest: "preplicate n (par e) buf p' = Inr (ys, q)"
    by (auto simp: inr_iff)
  then have "p \<le> p'" and "p' \<le> e" using advances by auto
  with Suc.IH [OF rest] show ?case by auto
qed

end

end
