(* ===== verification/Byte_Array.thy ===== *)
theory Byte_Array
  imports Codec
begin

text \<open>
  \<open>ByteArray.h\<close> and \<open>StaticByteArray.h\<close>: the integer readers every parser uses, and the
  conversion to a fixed-size array. A \<open>StaticByteArray<L>\<close> is a byte list of length \<open>L\<close>;
  a freshly declared one has indeterminate contents, which are an argument \<open>junk\<close>.
\<close>

text \<open>\<open>begin\<close> is read at four (two) positions, then advanced.\<close>

definition parseUint32 :: "u32 parser" where
  "parseUint32 =
     pbind (next_bytes 4) (\<lambda>b. preturn (join32 (b ! 0) (b ! 1) (b ! 2) (b ! 3)))"

definition parseUint16 :: "u16 parser" where
  "parseUint16 = pbind (next_bytes 2) (\<lambda>b. preturn (join16 (b ! 0) (b ! 1)))"

definition toStaticByteArray :: "nat \<Rightarrow> bytes \<Rightarrow> bytes \<Rightarrow> bytes" where
  "toStaticByteArray L junk t =
     (if length t < L then t @ drop (length t) junk else take L t)"

lemma parseUint32_has_at [reads]: "has_at buf p (be32 x) \<Longrightarrow> parseUint32 buf p = Inr (x, p + 4)"
  by (simp add: parseUint32_def pbind_ok [OF next_bytes_has_at] preturn_def)
    (simp add: be32_def join32_be32)

lemma parseUint16_has_at [reads]: "has_at buf p (be16 x) \<Longrightarrow> parseUint16 buf p = Inr (x, p + 2)"
  by (simp add: parseUint16_def pbind_ok [OF next_bytes_has_at] preturn_def)
    (simp add: be16_def join16_be16)

lemma take_drop_4: "p + 4 \<le> length buf \<Longrightarrow> \<exists>a b c d. take 4 (drop p buf) = [a, b, c, d]"
  by (intro exI [of _ "buf ! p"] exI [of _ "buf ! (p + 1)"] exI [of _ "buf ! (p + 2)"]
      exI [of _ "buf ! (p + 3)"] nth_equalityI)
    (auto simp: less_Suc_eq numeral_eq_Suc)

lemma take_drop_2: "p + 2 \<le> length buf \<Longrightarrow> \<exists>a b. take 2 (drop p buf) = [a, b]"
  by (intro exI [of _ "buf ! p"] exI [of _ "buf ! (p + 1)"] nth_equalityI)
    (auto simp: less_Suc_eq numeral_eq_Suc)

lemma parseUint32_Inr_iff [inr_iff]:
  "parseUint32 buf p = Inr (x, q) \<longleftrightarrow> has_at buf p (be32 x) \<and> q = p + 4"
proof
  assume "parseUint32 buf p = Inr (x, q)"
  then have len: "p + 4 \<le> length buf" and q: "q = p + 4"
    and x: "x = (let b = take 4 (drop p buf) in join32 (b ! 0) (b ! 1) (b ! 2) (b ! 3))"
    by (auto simp: parseUint32_def inr_iff Let_def)
  obtain a b c d where "take 4 (drop p buf) = [a, b, c, d]" using take_drop_4 [OF len] by blast
  with x len q show "has_at buf p (be32 x) \<and> q = p + 4"
    using has_at_take_drop [OF len] by (simp add: be32_join32)
qed (simp add: parseUint32_has_at)

lemma parseUint16_Inr_iff [inr_iff]:
  "parseUint16 buf p = Inr (x, q) \<longleftrightarrow> has_at buf p (be16 x) \<and> q = p + 2"
proof
  assume "parseUint16 buf p = Inr (x, q)"
  then have len: "p + 2 \<le> length buf" and q: "q = p + 2"
    and x: "x = (let b = take 2 (drop p buf) in join16 (b ! 0) (b ! 1))"
    by (auto simp: parseUint16_def inr_iff Let_def)
  obtain a b where "take 2 (drop p buf) = [a, b]" using take_drop_2 [OF len] by blast
  with x len q show "has_at buf p (be16 x) \<and> q = p + 2"
    using has_at_take_drop [OF len] by (simp add: be16_join16)
qed (simp add: parseUint16_has_at)

lemma parseUint32_Inl_iff: "parseUint32 buf p = Inl err \<longleftrightarrow> length buf < p + 4 \<and> err = Out_of_bounds"
  by (auto simp: parseUint32_def parser_defs)

lemma parseUint16_Inl_iff: "parseUint16 buf p = Inl err \<longleftrightarrow> length buf < p + 2 \<and> err = Out_of_bounds"
  by (auto simp: parseUint16_def parser_defs)

lemma next_byte_Inl_iff: "next_byte buf p = Inl err \<longleftrightarrow> length buf \<le> p \<and> err = Out_of_bounds"
  by (auto simp: next_byte_def)

lemma next_bytes_Inl_iff: "next_bytes n buf p = Inl err \<longleftrightarrow> length buf < p + n \<and> err = Out_of_bounds"
  by (auto simp: next_bytes_def)

lemma skip_Inl_iff: "skip n buf p = Inl err \<longleftrightarrow> length buf < p + n \<and> err = Out_of_bounds"
  by (auto simp: skip_def)

lemma need_Inl_iff: "need e n err' buf p = Inl err \<longleftrightarrow> e < p + n \<and> err = err'"
  by (auto simp: need_def)

lemmas parser_Inl_iff = pbind_Inl_iff parseUint32_Inl_iff parseUint16_Inl_iff next_byte_Inl_iff
  next_bytes_Inl_iff skip_Inl_iff need_Inl_iff

lemma length_toStaticByteArray: "length junk = L \<Longrightarrow> length (toStaticByteArray L junk t) = L"
  by (auto simp: toStaticByteArray_def)

subsection \<open>Printing and reading in hexadecimal\<close>

text \<open>The stream operators of \<open>ByteArray\<close>: two lower-case digits per byte; \<open>boost::algorithm::unhex\<close> accepts
  both cases and throws on other characters and on half a byte.\<close>

definition hex_digit :: "byte \<Rightarrow> byte" where
  "hex_digit x = (if x < 10 then 48 + x else 87 + x)"

definition unhex_digit :: "byte \<Rightarrow> byte result" where
  "unhex_digit c =
     (if 48 \<le> c \<and> c \<le> 57 then Inr (c - 48) else if 65 \<le> c \<and> c \<le> 70 then Inr (c - 55)
      else if 97 \<le> c \<and> c \<le> 102 then Inr (c - 87) else Inl (Runtime_error ''non_hex_input''))"

definition ByteArray_print :: "bytes \<Rightarrow> bytes" where
  "ByteArray_print data = concat (map (\<lambda>c. [hex_digit (drop_bit 4 c), hex_digit (c AND 0xF)]) data)"

fun ByteArray_read :: "bytes \<Rightarrow> bytes result" where
  "ByteArray_read [] = Inr []"
| "ByteArray_read [c] = Inl (Runtime_error ''not_enough_input'')"
| "ByteArray_read (c # d # s) =
     ebind (unhex_digit c) (\<lambda>h. ebind (unhex_digit d) (\<lambda>l. ebind (ByteArray_read s) (\<lambda>r. Inr ((push_bit 4 h OR l) # r))))"

lemma unhex_hex:
  assumes "x < 16"
  shows "unhex_digit (hex_digit x) = Inr x"
proof -
  have "\<forall>n < 16. unhex_digit (hex_digit (word_of_nat n)) = Inr (word_of_nat n)" by code_simp
  moreover have "unat x < 16" using assms by (simp add: word_less_nat_alt)
  ultimately have "unhex_digit (hex_digit (word_of_nat (unat x))) = Inr (word_of_nat (unat x))" by blast
  then show ?thesis by simp
qed

lemma nibbles: "drop_bit 4 c < (16 :: byte)" "c AND 0xF < (16 :: byte)" "push_bit 4 (drop_bit 4 c) OR (c AND 0xF) = (c :: byte)"
proof -
  show "drop_bit 4 c < (16 :: byte)"
    using unsigned_less [of c, where ?'a = nat] by (simp add: word_less_nat_alt drop_bit_eq_div unat_div_distrib less_mult_imp_div_less)
  have m: "(0xF :: byte) = mask 4" by (simp add: mask_eq_exp_minus_1)
  show "c AND 0xF < (16 :: byte)"
    using word_and_le1 [of c "0xF"] by (simp add: word_less_nat_alt word_le_nat_alt)
  show "push_bit 4 (drop_bit 4 c) OR (c AND 0xF) = (c :: byte)"
    unfolding m by (rule bit_word_eqI) (auto simp: bit_simps)
qed

lemma ByteArray_read_print: "ByteArray_read (ByteArray_print data) = Inr data"
  by (induction data) (simp_all add: ByteArray_print_def unhex_hex nibbles)

end
