(* ===== verification/Std_Map.thy ===== *)
theory Std_Map
  imports Prelude
begin

text \<open>
  \<open>std::map\<close> (and \<open>std::unordered_map\<close>, whose iteration order the program never observes) as
  an association list in increasing key order, with the three operations the program uses:
  \<open>m[k] = v\<close>, \<open>m.erase(k)\<close> and \<open>m.find(k)\<close>. The locale \<open>key_store\<close> is what the clients rely on;
  the interpretation shows that the association list provides it.
\<close>

type_synonym ('k, 'v) smap = "('k \<times> 'v) list"

fun smap_put :: "'k::linorder \<Rightarrow> 'v \<Rightarrow> ('k, 'v) smap \<Rightarrow> ('k, 'v) smap" where
  "smap_put k v [] = [(k, v)]"
| "smap_put k v (kv # m) =
     (if k < fst kv then (k, v) # kv # m
      else if fst kv < k then kv # smap_put k v m
      else (k, v) # m)"

definition smap_erase :: "'k::linorder \<Rightarrow> ('k, 'v) smap \<Rightarrow> ('k, 'v) smap" where
  "smap_erase k m = filter (\<lambda>kv. fst kv \<noteq> k) m"

definition smap_find :: "('k, 'v) smap \<Rightarrow> 'k \<Rightarrow> 'v option" where
  "smap_find m k = map_of m k"

definition smap_ok :: "('k::linorder, 'v) smap \<Rightarrow> bool" where
  "smap_ok m \<longleftrightarrow> sorted_wrt (<) (map fst m)"

locale key_store =
  fixes empty :: 'm
    and put :: "'k \<Rightarrow> 'v \<Rightarrow> 'm \<Rightarrow> 'm"
    and erase :: "'k \<Rightarrow> 'm \<Rightarrow> 'm"
    and find :: "'m \<Rightarrow> 'k \<Rightarrow> 'v option"
    and ok :: "'m \<Rightarrow> bool"
  assumes find_empty: "find empty k = None"
    and find_put: "find (put k v m) k' = (if k' = k then Some v else find m k')"
    and find_erase: "find (erase k m) k' = (if k' = k then None else find m k')"
    and ok_empty: "ok empty"
    and ok_put: "ok m \<Longrightarrow> ok (put k v m)"
    and ok_erase: "ok m \<Longrightarrow> ok (erase k m)"
    and ext: "ok m \<Longrightarrow> ok m' \<Longrightarrow> (\<And>k. find m k = find m' k) \<Longrightarrow> m = m'"
begin

lemma put_overwrites: "ok m \<Longrightarrow> put k v (put k w m) = put k v m"
  by (rule ext) (auto simp: find_put ok_put)

lemma put_commutes: "ok m \<Longrightarrow> k \<noteq> l \<Longrightarrow> put k v (put l w m) = put l w (put k v m)"
  by (rule ext) (auto simp: find_put ok_put)

lemma erase_put: "ok m \<Longrightarrow> find m k = None \<Longrightarrow> erase k (put k v m) = m"
  by (rule ext) (auto simp: find_put find_erase ok_put ok_erase)

lemma erase_absent: "ok m \<Longrightarrow> find m k = None \<Longrightarrow> erase k m = m"
  by (rule ext) (auto simp: find_erase ok_erase)

lemma erase_erase: "ok m \<Longrightarrow> erase k (erase k m) = erase k m"
  by (rule ext) (auto simp: find_erase ok_erase)

lemma fold_put_find:
  "find (fold (\<lambda>(k, v). put k v) kvs m) k =
     (case map_of (rev kvs) k of None \<Rightarrow> find m k | Some v \<Rightarrow> Some v)"
  by (induction kvs arbitrary: m) (auto simp: find_put map_add_def split: option.splits)

lemma fold_put_ok: "ok m \<Longrightarrow> ok (fold (\<lambda>(k, v). put k v) kvs m)"
  by (induction kvs arbitrary: m) (auto simp: ok_put)

end

lemma keys_smap_put: "set (map fst (smap_put k v m)) = insert k (set (map fst m))"
  by (induction m) auto

lemma set_smap_put: "set (smap_put k v m) \<subseteq> insert (k, v) (set m)"
  by (induction m) auto

lemma length_smap_put: "length (smap_put k v m) \<le> Suc (length m)"
  by (induction m) auto

lemma smap_ok_Cons: "smap_ok (kv # m) \<longleftrightarrow> (\<forall>k \<in> set (map fst m). fst kv < k) \<and> smap_ok m"
  by (simp add: smap_ok_def)

lemma smap_ok_put: "smap_ok m \<Longrightarrow> smap_ok (smap_put k v m)"
proof (induction m)
  case Nil
  then show ?case by (simp add: smap_ok_def)
next
  case (Cons kv m)
  then show ?case
    using keys_smap_put [of k v m] by (force simp: smap_ok_Cons)
qed

lemma smap_find_put: "smap_find (smap_put k v m) k' = (if k' = k then Some v else smap_find m k')"
  by (induction m) (auto simp: smap_find_def)

lemma smap_find_erase: "smap_find (smap_erase k m) k' = (if k' = k then None else smap_find m k')"
  by (induction m) (auto simp: smap_find_def smap_erase_def)

lemma smap_ok_erase: "smap_ok m \<Longrightarrow> smap_ok (smap_erase k m)"
  by (auto simp: smap_ok_def smap_erase_def sorted_wrt_map intro: sorted_wrt_filter)

lemma smap_ok_distinct: "smap_ok m \<Longrightarrow> distinct (map fst m)"
  by (simp add: smap_ok_def strict_sorted_iff)

lemma smap_ext: 
  assumes "smap_ok m" and "smap_ok m'" and "\<And>k. smap_find m k = smap_find m' k"
  shows "m = m'"
proof -
  have srt: "sorted (map fst m)" "sorted (map fst m')" "distinct (map fst m)" "distinct (map fst m')"
    using assms(1,2) by (auto simp: smap_ok_def strict_sorted_iff)
  have "map_of m = map_of m'" using assms(3) by (auto simp: smap_find_def)
  then have eq: "set m = set m'" using srt by (simp add: map_of_inject_set)
  have "inj_on fst (set m \<union> set m')" using srt eq by (simp add: distinct_map)
  from map_sorted_distinct_set_unique [OF this srt(1,3,2,4) eq] show ?thesis .
qed

interpretation sm: key_store "[]" smap_put smap_erase smap_find smap_ok
  by unfold_locales
    (auto simp: smap_find_put smap_find_erase smap_ok_put smap_ok_erase smap_ext,
     auto simp: smap_find_def smap_ok_def)

lemma smap_fold_snoc:
  "smap_ok (m @ [(k, v)]) \<Longrightarrow> smap_put k v m = m @ [(k, v)]"
  by (induction m) (auto simp: smap_ok_def sorted_wrt_append)

lemma smap_rebuild: "smap_ok m \<Longrightarrow> fold (\<lambda>(k, v). smap_put k v) m [] = m"
proof (induction m rule: rev_induct)
  case Nil
  then show ?case by simp
next
  case (snoc kv m)
  then have "smap_ok m" by (simp add: smap_ok_def sorted_wrt_append)
  with snoc show ?case by (cases kv) (simp add: smap_fold_snoc)
qed

end
