(* ===== verification/Basic_Types.thy ===== *)
theory Basic_Types
  imports Byte_Array Std_Map
begin

text \<open>
  The leaf data types: \<open>Date\<close>, \<open>Certificate\<close> and \<open>Mapping\<close>, each with its constructor from
  an iterator pair (\<open>X_parse\<close>) and its \<open>serialize\<close> member, and their codec laws.
\<close>

subsection \<open>Date\<close>

record Date =
  dt_value :: u64

definition Date_of :: "u64 \<Rightarrow> Date" where
  "Date_of v = \<lparr>dt_value = v\<rparr>"

text \<open>The loop \<open>for(int i = 8; i > 0; i--) m_value = (m_value << 8) + *(begin++)\<close>.\<close>

fun Date_read :: "nat \<Rightarrow> u64 \<Rightarrow> u64 parser" where
  "Date_read 0 v = preturn v"
| "Date_read (Suc i) v = pbind next_byte (\<lambda>b. Date_read i (push_bit 8 v + ucast b))"

definition Date_parse :: "nat \<Rightarrow> Date parser" where
  "Date_parse e =
     pbind (need e 8 (Runtime_error ''malformed date'')) (\<lambda>_.
     pbind (Date_read 8 0) (\<lambda>v. preturn \<lparr>dt_value = v\<rparr>))"

definition Date_serialize :: "Date \<Rightarrow> bytes" where
  "Date_serialize d = map (\<lambda>i. ucast (drop_bit ((i - 1) * 8) (dt_value d))) (rev [1..<9])"

lemma length_Date_serialize [simp]: "length (Date_serialize d) = 8"
  by (simp add: Date_serialize_def)

lemma bit_shift_in:
  "bit (push_bit 8 v + ucast (b :: byte) :: u64) n \<longleftrightarrow>
     (if n < 8 then bit b n else n < 64 \<and> bit v (n - 8))"
proof -
  have "push_bit 8 v + ucast b = push_bit 8 v OR (ucast b :: u64)"
    by (rule disjunctive_add_eq_or) (rule bit_word_eqI, auto simp: bit_simps)
  then show ?thesis by (auto simp: bit_simps)
qed

fun date_fold :: "u64 \<Rightarrow> bytes \<Rightarrow> u64" where
  "date_fold v [] = v"
| "date_fold v (b # bs) = date_fold (push_bit 8 v + ucast b) bs"

lemma Date_read_has_at:
  "has_at buf p bs \<Longrightarrow> Date_read (length bs) v buf p = Inr (date_fold v bs, p + length bs)"
  by (induction bs arbitrary: p v)
    (auto simp: preturn_def has_at_Cons pbind_def next_byte_def)

lemma Date_read_Inr_iff [inr_iff]:
  "p \<le> length buf \<Longrightarrow> Date_read n v buf p = Inr (x, q) \<longleftrightarrow>
     p + n \<le> length buf \<and> q = p + n \<and> x = date_fold v (take n (drop p buf))"
  by (induction n arbitrary: p v)
    (auto simp: inr_iff Cons_nth_drop_Suc [symmetric] Suc_le_eq)

lemma rev_upt_9: "rev [1..<9] = [8, 7, 6, 5, 4, 3, 2, 1 :: nat]"
  by (simp add: upt_rec)

lemma date_fold_serialize: "date_fold 0 (Date_serialize d) = dt_value d"
  unfolding Date_serialize_def rev_upt_9
  by (rule bit_word_eqI) (auto simp: bit_shift_in bit_simps simp del: push_bit_numeral)

lemma length_8_conv: "length bs = 8 \<Longrightarrow> \<exists>a b c d e f g h. bs = [a, b, c, d, e, f, g, h]"
  by (auto simp: length_Suc_conv numeral_eq_Suc)

lemma serialize_date_fold: "length bs = 8 \<Longrightarrow> Date_serialize \<lparr>dt_value = date_fold 0 bs\<rparr> = bs"
proof -
  assume "length bs = 8"
  then obtain a b c d e f g h where bs: "bs = [a, b, c, d, e, f, g, h]"
    using length_8_conv by blast
  show ?thesis
    unfolding bs Date_serialize_def rev_upt_9
    by (auto intro!: bit_word_eqI simp: bit_shift_in bit_simps simp del: push_bit_numeral)
qed

lemma Date_par_ser:
  "has_at buf p (Date_serialize d) \<Longrightarrow> p + 8 \<le> e \<Longrightarrow> Date_parse e buf p = Inr (d, p + 8)"
  using Date_read_has_at [of buf p "Date_serialize d" 0] date_fold_serialize [of d]
  by (simp add: Date_parse_def pbind_def need_ok preturn_def)

lemma Date_parse_Inr_iff [inr_iff]:
  "Date_parse e buf p = Inr (d, q) \<longleftrightarrow> p + 8 \<le> e \<and> has_at buf p (Date_serialize d) \<and> q = p + 8"
proof
  assume "Date_parse e buf p = Inr (d, q)"
  then obtain v where e: "p + 8 \<le> e" and rd: "Date_read 8 0 buf p = Inr (v, q)"
    and d: "d = \<lparr>dt_value = v\<rparr>"
    by (auto simp: Date_parse_def inr_iff simp del: Date_read.simps)
  have le: "p \<le> length buf"
    using rd by (auto simp: pbind_def next_byte_def numeral_eq_Suc split: if_splits)
  from rd have len: "p + 8 \<le> length buf" and q: "q = p + 8"
    and v: "v = date_fold 0 (take 8 (drop p buf))"
    by (simp_all add: Date_read_Inr_iff [OF le])
  have "Date_serialize d = take 8 (drop p buf)"
    unfolding d v using len by (intro serialize_date_fold) simp
  with e q len show "p + 8 \<le> e \<and> has_at buf p (Date_serialize d) \<and> q = p + 8"
    by (simp add: has_at_take_drop)
qed (simp add: Date_par_ser)

lemma Date_read_Inl: "Date_read n v buf p = Inl err \<Longrightarrow> length buf < p + n"
  by (induction n arbitrary: p v) (force simp: preturn_def parser_Inl_iff inr_iff)+

lemma Date_parse_Inl_iff:
  "e \<le> length buf \<Longrightarrow> Date_parse e buf p = Inl err \<longleftrightarrow> e < p + 8 \<and> err = Runtime_error ''malformed date''"
  by (auto simp: Date_parse_def parser_Inl_iff inr_iff preturn_def simp del: Date_read.simps
      dest!: Date_read_Inl)

interpretation date: exact_codec Date_serialize Date_parse "\<lambda>_. True"
  by unfold_locales (auto simp: Date_par_ser inr_iff)

interpretation date: bounded_parser Date_parse
  by unfold_locales (auto simp: Date_parse_Inl_iff inr_iff)

subsection \<open>Certificate\<close>

datatype cert_type = NIL | HASHCASH | HIDDEN | SIGNED | MULTIPLE

record Certificate =
  cert_type :: cert_type
  cert_payload :: bytes

definition Certificate_default :: Certificate where
  "Certificate_default = \<lparr>cert_type = NIL, cert_payload = []\<rparr>"

fun cert_type_code :: "cert_type \<Rightarrow> byte" where
  "cert_type_code NIL = 0"
| "cert_type_code HASHCASH = 1"
| "cert_type_code HIDDEN = 2"
| "cert_type_code SIGNED = 3"
| "cert_type_code MULTIPLE = 4"

text \<open>The cast \<open>(Type)*(begin++)\<close> with the range check that follows it.\<close>

definition cert_type_of :: "byte \<Rightarrow> cert_type result" where
  "cert_type_of b =
     (if b = 0 then Inr NIL else if b = 1 then Inr HASHCASH else if b = 2 then Inr HIDDEN
      else if b = 3 then Inr SIGNED else if b = 4 then Inr MULTIPLE
      else Inl (Runtime_error ''malformed certificate type''))"

definition Certificate_parse :: "nat \<Rightarrow> Certificate parser" where
  "Certificate_parse e buf p =
     (if e = p then Inl (Runtime_error ''malformed certificate'')
      else pbind next_byte (\<lambda>t buf p.
        ebind (cert_type_of t) (\<lambda>ty.
          pbind parseUint16 (\<lambda>size.
          pbind (need e (unat size) (Runtime_error ''malformed certificate size'')) (\<lambda>_.
          pbind (next_bytes (unat size)) (\<lambda>payload.
          preturn \<lparr>cert_type = ty, cert_payload = payload\<rparr>))) buf p)) buf p)"

definition Certificate_getLength :: "Certificate \<Rightarrow> u16" where
  "Certificate_getLength c = of_nat (length (cert_payload c))"

definition Certificate_serialize :: "Certificate \<Rightarrow> bytes" where
  "Certificate_serialize c =
     cert_type_code (cert_type c) # be16 (of_nat (length (cert_payload c))) @ cert_payload c"

definition Certificate_wf :: "Certificate \<Rightarrow> bool" where
  "Certificate_wf c \<longleftrightarrow> length (cert_payload c) < 2 ^ 16"

lemma cert_type_of_code [simp]: "cert_type_of (cert_type_code t) = Inr t"
  by (cases t) (simp_all add: cert_type_of_def)

lemma cert_type_of_Inr_iff [inr_iff]: "cert_type_of b = Inr t \<longleftrightarrow> b = cert_type_code t"
  by (cases t) (auto simp: cert_type_of_def split: if_splits)

lemma Certificate_par_ser:
  assumes wf: "Certificate_wf c" and at: "has_at buf p (Certificate_serialize c)"
    and e: "p + length (Certificate_serialize c) \<le> e"
  shows "Certificate_parse e buf p = Inr (c, p + length (Certificate_serialize c))"
proof -
  let ?n = "length (cert_payload c)"
  have n: "unat (of_nat ?n :: u16) = ?n"
    using wf by (simp add: Certificate_wf_def unat_of_nats)
  show ?thesis
    using at e by (auto simp: Certificate_parse_def Certificate_serialize_def has_at_Cons
        pbind_def next_byte_def reads need_ok preturn_def n)
qed

lemma Certificate_parse_Inr_iff [inr_iff]:
  "Certificate_parse e buf p = Inr (c, q) \<longleftrightarrow>
     e \<noteq> p \<and> q \<le> e \<and> has_at buf p (Certificate_serialize c) \<and>
     q = p + length (Certificate_serialize c) \<and> Certificate_wf c"
proof
  assume "Certificate_parse e buf p = Inr (c, q)"
  then obtain size where "p < length buf" "buf ! p = cert_type_code (cert_type c)" "e \<noteq> p"
    and sz: "has_at buf (Suc p) (be16 size)" and e: "Suc p + 2 + unat size \<le> e"
    and len: "Suc p + 2 + unat size \<le> length buf"
    and pl: "cert_payload c = take (unat size) (drop (Suc p + 2) buf)" and q: "q = Suc p + 2 + unat size"
    by (auto simp: Certificate_parse_def inr_iff split: if_splits)
  have n: "length (cert_payload c) = unat size" using pl len by simp
  have "has_at buf (Suc p + 2) (cert_payload c)"
    using len unfolding pl by (intro has_at_take_drop) simp
  then show "e \<noteq> p \<and> q \<le> e \<and> has_at buf p (Certificate_serialize c) \<and>
     q = p + length (Certificate_serialize c) \<and> Certificate_wf c"
    using \<open>p < length buf\<close> \<open>buf ! p = _\<close> \<open>e \<noteq> p\<close> sz e q
    by (simp add: Certificate_serialize_def Certificate_wf_def has_at_Cons n add.assoc)
qed (auto simp: Certificate_par_ser)

interpretation cert: exact_codec Certificate_serialize Certificate_parse Certificate_wf
  by unfold_locales (auto simp: Certificate_par_ser inr_iff)

subsection \<open>Mapping\<close>

text \<open>
  The class keeps one \<open>std::map<std::string, std::string>\<close>; its keys are iterated in
  lexicographic byte order.
\<close>

type_synonym Mapping = "(bytes, bytes) smap"

text \<open>One round of the constructor's loop. Neither the separators nor the single-byte reads
  are checked against \<open>end\<close>.\<close>

definition Mapping_entry :: "nat \<Rightarrow> (bytes \<times> bytes) parser" where
  "Mapping_entry e =
     pbind next_byte (\<lambda>keySize.
     pbind (need e (unat keySize) (Runtime_error ''malformed mapping keySize'')) (\<lambda>_.
     pbind (next_bytes (unat keySize)) (\<lambda>key.
     pbind (skip 1) (\<lambda>_.
     pbind next_byte (\<lambda>valueSize.
     pbind (need e (unat valueSize) (Runtime_error ''malformed mapping valueSize'')) (\<lambda>_.
     pbind (next_bytes (unat valueSize)) (\<lambda>value.
     pbind (skip 1) (\<lambda>_.
     preturn (key, value)))))))))"

lemma Mapping_entry_progress:
  "Mapping_entry e buf p = Inr (kv, q) \<Longrightarrow> p + 4 \<le> q \<and> q \<le> length buf"
  by (auto simp: Mapping_entry_def inr_iff)

function Mapping_loop :: "nat \<Rightarrow> bytes \<Rightarrow> nat \<Rightarrow> Mapping \<Rightarrow> (Mapping \<times> nat) result" where
  "Mapping_loop e buf p m =
     (if p = e then Inr (m, p)
      else case Mapping_entry e buf p of
             Inl err \<Rightarrow> Inl err
           | Inr (kv, q) \<Rightarrow> Mapping_loop e buf q (smap_put (fst kv) (snd kv) m))"
  by pat_completeness auto
termination
  by (relation "measure (\<lambda>(e, buf, p, m). length buf - p)")
    (auto dest!: sym [of "Inr _"] Mapping_entry_progress)

declare Mapping_loop.simps [simp del]

definition Mapping_parse :: "nat \<Rightarrow> Mapping parser" where
  "Mapping_parse e =
     pbind (need e 2 (Runtime_error ''malformed mapping: too small'')) (\<lambda>_.
     pbind parseUint16 (\<lambda>size.
     pbind (need e (unat size) (Runtime_error ''malformed mapping size'')) (\<lambda>_ buf p.
     Mapping_loop (p + unat size) buf p [])))"

definition Mapping_setValue :: "bytes \<Rightarrow> bytes \<Rightarrow> Mapping \<Rightarrow> Mapping" where
  "Mapping_setValue name value m = smap_put name value m"

definition Mapping_deleteValue :: "bytes \<Rightarrow> Mapping \<Rightarrow> Mapping" where
  "Mapping_deleteValue name m = smap_erase name m"

definition Mapping_getValue :: "Mapping \<Rightarrow> bytes \<Rightarrow> bytes" where
  "Mapping_getValue m name = (case smap_find m name of None \<Rightarrow> [] | Some v \<Rightarrow> v)"

definition Mapping_entry_bytes :: "bytes \<times> bytes \<Rightarrow> bytes" where
  "Mapping_entry_bytes kv =
     [of_nat (length (fst kv))] @ fst kv @ [0x3D] @ [of_nat (length (snd kv))] @ snd kv @ [0x3B]"

definition Mapping_serialize :: "Mapping \<Rightarrow> bytes" where
  "Mapping_serialize m =
     (let ret = concat (map Mapping_entry_bytes m) in be16 (of_nat (length ret)) @ ret)"

definition Mapping_wf :: "Mapping \<Rightarrow> bool" where
  "Mapping_wf m \<longleftrightarrow> smap_ok m \<and> (\<forall>(k, v) \<in> set m. length k < 256 \<and> length v < 256) \<and>
     length (concat (map Mapping_entry_bytes m)) < 65536"

lemma Mapping_entry_has_at:
  assumes "has_at buf p (Mapping_entry_bytes kv)" and "p + length (Mapping_entry_bytes kv) \<le> e"
    and "length (fst kv) < 256" and "length (snd kv) < 256"
  shows "Mapping_entry e buf p = Inr (kv, p + length (Mapping_entry_bytes kv))"
  using assms unfolding Mapping_entry_def Mapping_entry_bytes_def
  by (auto simp: has_at_Cons pbind_def next_byte_def skip_def need_ok reads preturn_def
      unat_of_nats add.assoc)

lemma Mapping_loop_has_at:
  "has_at buf p (concat (map Mapping_entry_bytes kvs)) \<Longrightarrow>
   e = p + length (concat (map Mapping_entry_bytes kvs)) \<Longrightarrow>
   (\<And>k v. (k, v) \<in> set kvs \<Longrightarrow> length k < 256 \<and> length v < 256) \<Longrightarrow>
   Mapping_loop e buf p m = Inr (fold (\<lambda>(k, v). smap_put k v) kvs m, e)"
proof (induction kvs arbitrary: p m)
  case Nil
  then show ?case by (subst Mapping_loop.simps) simp
next
  case (Cons kv kvs)
  obtain k v where kv: "kv = (k, v)" by (cases kv)
  let ?q = "p + length (Mapping_entry_bytes kv)"
  have "Mapping_entry e buf p = Inr (kv, ?q)"
    using Cons.prems kv by (intro Mapping_entry_has_at) auto
  moreover have "p \<noteq> e" using Cons.prems(2) by (simp add: Mapping_entry_bytes_def)
  moreover have "Mapping_loop e buf ?q (smap_put k v m) =
      Inr (fold (\<lambda>(k, v). smap_put k v) kvs (smap_put k v m), e)"
    using Cons.prems by (intro Cons.IH) auto
  ultimately show ?case by (simp add: Mapping_loop.simps [of e buf p m] kv)
qed

lemma entries_put:
  "length (concat (map Mapping_entry_bytes (smap_put k v m))) \<le> length (concat (map Mapping_entry_bytes m)) + length (Mapping_entry_bytes (k, v))"
  by (induction m) auto

lemma Mapping_entry_size:
  "Mapping_entry e buf p = Inr (kv, q) \<Longrightarrow>
     q = p + length (Mapping_entry_bytes kv) \<and> length (fst kv) < 256 \<and> length (snd kv) < 256"
  by (auto simp: Mapping_entry_def Mapping_entry_bytes_def inr_iff intro: unat_byte_less)

lemma Mapping_loop_wf:
  "Mapping_loop e buf p m = Inr (m', q) \<Longrightarrow> smap_ok m \<Longrightarrow> \<forall>(k, v) \<in> set m. length k < 256 \<and> length v < 256 \<Longrightarrow>
   p \<le> e \<and> q = e \<and> smap_ok m' \<and> (\<forall>(k, v) \<in> set m'. length k < 256 \<and> length v < 256) \<and>
   length (concat (map Mapping_entry_bytes m')) + p \<le> length (concat (map Mapping_entry_bytes m)) + e"
proof (induction e buf p m rule: Mapping_loop.induct)
  case (1 e buf p m)
  show ?case
  proof (cases "p = e")
    case True
    with 1(2-4) show ?thesis by (simp add: Mapping_loop.simps [of e buf e m])
  next
    case False
    with 1(2) obtain k v p' where en: "Mapping_entry e buf p = Inr ((k, v), p')"
      and rest: "Mapping_loop e buf p' (smap_put k v m) = Inr (m', q)"
      by (auto simp: Mapping_loop.simps [of e buf p m] split: sum.splits)
    have sz: "p' = p + length (Mapping_entry_bytes (k, v))" "length k < 256" "length v < 256"
      using Mapping_entry_size [OF en] by auto
    have "\<forall>(k, v) \<in> set (smap_put k v m). length k < 256 \<and> length v < 256"
      using 1(4) sz set_smap_put [of k v m] by auto
    from 1(1) [OF False en refl] rest this 1(3) show ?thesis
      using entries_put [of k v m] sz(1) by (auto simp: smap_ok_put)
  qed
qed

lemma Mapping_parse_wf:
  assumes "Mapping_parse e buf p = Inr (m, q)"
  shows "Mapping_wf m"
proof -
  obtain size :: u16 and p' where "Mapping_loop (p' + unat size) buf p' [] = Inr (m, q)"
    using assms by (auto simp: Mapping_parse_def inr_iff)
  moreover have "n < 65536" if "n \<le> unat size" for n using that by (rule le_less_trans) simp
  ultimately show ?thesis by (auto simp: Mapping_wf_def smap_ok_def dest!: Mapping_loop_wf)
qed

lemma Mapping_par_ser:
  assumes wf: "Mapping_wf m" and at: "has_at buf p (Mapping_serialize m)"
    and e: "p + length (Mapping_serialize m) \<le> e"
  shows "Mapping_parse e buf p = Inr (m, p + length (Mapping_serialize m))"
proof -
  let ?ret = "concat (map Mapping_entry_bytes m)"
  have n: "unat (of_nat (length ?ret) :: u16) = length ?ret"
    using wf by (simp add: Mapping_wf_def unat_of_nats)
  have "has_at buf p (be16 (of_nat (length ?ret)))" and ret: "has_at buf (p + 2) ?ret"
    using at by (simp_all add: Mapping_serialize_def Let_def)
  then have "parseUint16 buf p = Inr (of_nat (length ?ret), p + 2)" by (simp add: reads)
  moreover have "Mapping_loop (p + 2 + length ?ret) buf (p + 2) [] = Inr (m, p + 2 + length ?ret)"
    using Mapping_loop_has_at [OF ret refl, of "[]"] wf
    by (fastforce simp: Mapping_wf_def smap_rebuild)
  ultimately show ?thesis
    using e by (simp add: Mapping_parse_def pbind_def need_ok n Mapping_serialize_def Let_def)
qed

lemma Mapping_loop_advances: "Mapping_loop e buf p m = Inr (m', q) \<Longrightarrow> p \<le> q \<and> q = e"
proof (induction e buf p m rule: Mapping_loop.induct)
  case (1 e buf p m)
  from "1.prems" show ?case
    by (subst (asm) Mapping_loop.simps)
      (fastforce split: if_splits sum.splits dest: "1.IH" Mapping_entry_progress)
qed

lemma Mapping_loop_ok: "Mapping_loop e buf p m = Inr (m', q) \<Longrightarrow> smap_ok m \<Longrightarrow> smap_ok m'"
proof (induction e buf p m rule: Mapping_loop.induct)
  case (1 e buf p m)
  from "1.prems" show ?case
    by (subst (asm) Mapping_loop.simps)
      (auto split: if_splits sum.splits dest: "1.IH" intro: smap_ok_put)
qed

interpretation mapping: codec Mapping_serialize Mapping_parse Mapping_wf
  by unfold_locales (rule Mapping_par_ser)

end
