(* ===== verification/Kademlia.thy ===== *)
theory Kademlia
  imports Basic_Types
begin

text \<open>
  The local part of the DHT: \<open>Kademlia\<close>, a multimap from bucket numbers to router hashes, and
  \<open>NegativeLookupCache\<close>, the keys whose lookup failed. SHA-256, the date string and the clock are
  arguments.
\<close>

subsection \<open>The bucket of a key\<close>

definition MultiplyDeBruijnBitPosition :: "nat list" where
  "MultiplyDeBruijnBitPosition =
     [0, 9, 1, 10, 13, 21, 2, 29, 11, 14, 16, 18, 22, 25, 3, 30,
      8, 12, 20, 28, 15, 17, 24, 7, 19, 27, 23, 6, 26, 5, 4, 31]"

text \<open>\<open>v |= v >> 1; \<dots> v |= v >> 16;\<close> on a \<open>uint8_t\<close>, then the product modulo \<open>2 ^ 32\<close>.\<close>

definition smear :: "byte \<Rightarrow> byte" where
  "smear v =
     (let v = v OR drop_bit 1 v; v = v OR drop_bit 2 v; v = v OR drop_bit 4 v;
          v = v OR drop_bit 8 v in v OR drop_bit 16 v)"

definition byte_log2 :: "byte \<Rightarrow> nat" where
  "byte_log2 v =
     MultiplyDeBruijnBitPosition ! unat (drop_bit 27 ((ucast (smear v) :: u32) * 0x07C4ACDD))"

fun bucket_loop :: "u64 \<Rightarrow> bytes \<Rightarrow> u64" where
  "bucket_loop bucket [] = bucket"
| "bucket_loop bucket (v # vs) =
     (if v = 0 then bucket_loop (bucket - 8) vs else bucket - (8 - of_nat (byte_log2 v)))"

subsection \<open>The table\<close>

text \<open>\<open>std::multimap<size_t, value_type>\<close>: sorted by bucket, equal buckets in insertion order.\<close>

record Kademlia =
  kad_ref :: bytes
  kad_table :: "(u64 \<times> bytes) list"

definition Kademlia_make :: "bytes \<Rightarrow> Kademlia" where
  "Kademlia_make reference = \<lparr>kad_ref = reference, kad_table = []\<rparr>"

definition Kademlia_getBucket :: "bytes \<Rightarrow> Kademlia \<Rightarrow> u64" where
  "Kademlia_getBucket k d = bucket_loop (32 * 8 - 1) (map2 (XOR) k (kad_ref d))"

fun multimap_insert :: "'k::linorder \<times> 'v \<Rightarrow> ('k \<times> 'v) list \<Rightarrow> ('k \<times> 'v) list" where
  "multimap_insert e [] = [e]"
| "multimap_insert e (x # xs) = (if fst e < fst x then e # x # xs else x # multimap_insert e xs)"

definition Kademlia_insert :: "bytes \<Rightarrow> bytes \<Rightarrow> Kademlia \<Rightarrow> Kademlia" where
  "Kademlia_insert k v d = d\<lparr>kad_table := multimap_insert (Kademlia_getBucket k d, v) (kad_table d)\<rparr>"

text \<open>An iterator is a position in the table.\<close>

definition Kademlia_erase :: "nat \<Rightarrow> Kademlia \<Rightarrow> Kademlia result" where
  "Kademlia_erase i d =
     (if i < length (kad_table d)
      then Inr (d\<lparr>kad_table := take i (kad_table d) @ drop (Suc i) (kad_table d)\<rparr>) else Inl Out_of_bounds)"

text \<open>A range is the list of the entries in it.\<close>

definition Kademlia_find :: "bytes \<Rightarrow> Kademlia \<Rightarrow> (u64 \<times> bytes) list" where
  "Kademlia_find k d = filter (\<lambda>e. fst e = Kademlia_getBucket k d) (kad_table d)"

definition Kademlia_find_count :: "bytes \<Rightarrow> nat \<Rightarrow> Kademlia \<Rightarrow> (u64 \<times> bytes) list" where
  "Kademlia_find_count k c d =
     (let iters = filter (\<lambda>e. fst e = Kademlia_getBucket k d) (kad_table d) in
      if length iters < c then iters else take c iters)"

definition Kademlia_setReference :: "bytes \<Rightarrow> Kademlia \<Rightarrow> Kademlia" where
  "Kademlia_setReference reference d = d\<lparr>kad_ref := reference\<rparr>"

definition Kademlia_makeKey :: "(bytes \<Rightarrow> bytes) \<Rightarrow> bytes \<Rightarrow> bytes \<Rightarrow> bytes" where
  "Kademlia_makeKey sha256 date rh = take 32 (sha256 (rh @ take 8 date))"

subsection \<open>NegativeLookupCache\<close>

text \<open>\<open>std::set<Entry>\<close> ordered and compared by key alone; times in seconds.\<close>

record NegativeLookupCache =
  nlc_cache :: "(bytes, int) smap"
  nlc_lifetime :: int

definition NegativeLookupCache_make :: "int \<Rightarrow> NegativeLookupCache" where
  "NegativeLookupCache_make lifetime = \<lparr>nlc_cache = [], nlc_lifetime = lifetime\<rparr>"

definition NegativeLookupCache_contains :: "bytes \<Rightarrow> NegativeLookupCache \<Rightarrow> bool" where
  "NegativeLookupCache_contains key c = (smap_find (nlc_cache c) key \<noteq> None)"

definition NegativeLookupCache_insert :: "int \<Rightarrow> bytes \<Rightarrow> NegativeLookupCache \<Rightarrow> NegativeLookupCache" where
  "NegativeLookupCache_insert now key c =
     (if smap_find (nlc_cache c) key = None then c\<lparr>nlc_cache := smap_put key now (nlc_cache c)\<rparr> else c)"

text \<open>\<open>it = m_cache.erase(it)\<close> already advances; the loop's \<open>++it\<close> then skips the next entry, or
  passes the end.\<close>

fun cleanup_loop :: "int \<Rightarrow> int \<Rightarrow> (bytes, int) smap \<Rightarrow> (bytes, int) smap result" where
  "cleanup_loop now lifetime [] = Inr []"
| "cleanup_loop now lifetime [e] =
     (if snd e - now \<ge> lifetime then Inl Out_of_bounds else Inr [e])"
| "cleanup_loop now lifetime (e # f # es) =
     (if snd e - now \<ge> lifetime
      then ebind (cleanup_loop now lifetime es) (\<lambda>es'. Inr (f # es'))
      else ebind (cleanup_loop now lifetime (f # es)) (\<lambda>es'. Inr (e # es')))"

definition NegativeLookupCache_cleanup :: "int \<Rightarrow> NegativeLookupCache \<Rightarrow> NegativeLookupCache result" where
  "NegativeLookupCache_cleanup now c =
     ebind (cleanup_loop now (nlc_lifetime c) (nlc_cache c)) (\<lambda>m. Inr (c\<lparr>nlc_cache := m\<rparr>))"

subsection \<open>Lemmas\<close>

lemma top_bit: "(v :: byte) \<noteq> 0 \<Longrightarrow> \<exists>l < 8. bit v l \<and> (\<forall>n > l. \<not> bit v n)"
proof -
  assume "v \<noteq> 0"
  then obtain n where n: "bit v n" using bit_eq_iff [of v 0] by auto
  have fin: "{n. bit v n} \<subseteq> {..<8}" using byte_bit_ge [of _ v] by (auto simp: not_le [symmetric])
  then have "finite {n. bit v n}" by (rule finite_subset) simp
  with n fin Max_in [of "{n. bit v n}"] Max_ge [of "{n. bit v n}"] show ?thesis
    by (intro exI [of _ "Max {n. bit v n}"]) (fastforce simp: not_le [symmetric])
qed

lemma bit_or_shift: "bit (v OR drop_bit k v) n \<longleftrightarrow> bit (v :: byte) n \<or> bit v (k + n)"
  by (simp add: bit_or_iff bit_drop_bit_eq)

lemma drop_bit_byte: "8 \<le> k \<Longrightarrow> drop_bit k (v :: byte) = 0"
  by (rule bit_word_eqI) (simp add: bit_drop_bit_eq)

lemma bit_shifts: 
  "(bit v n \<or> bit v (1 + n)) \<or> (bit v (2 + n) \<or> bit v (1 + (2 + n))) \<Longrightarrow> \<exists>j < 4. bit (v :: byte) (n + j)"
  "j < 4 \<Longrightarrow> bit v (n + j) \<Longrightarrow> (bit v n \<or> bit v (1 + n)) \<or> (bit v (2 + n) \<or> bit (v :: byte) (1 + (2 + n)))"
proof -
  assume "(bit v n \<or> bit v (1 + n)) \<or> (bit v (2 + n) \<or> bit v (1 + (2 + n)))"
  then show "\<exists>j < 4. bit v (n + j)"
    by (elim disjE) (rule exI [of _ 0] exI [of _ 1] exI [of _ 2] exI [of _ 3]; simp add: add.commute)+
next
  assume "j < 4" and b: "bit v (n + j)"
  then consider "j = 0" | "j = 1" | "j = 2" | "j = 3" by linarith
  then show "(bit v n \<or> bit v (1 + n)) \<or> (bit v (2 + n) \<or> bit v (1 + (2 + n)))"
    using b by cases (simp_all add: add.commute)
qed

lemma bit_smear: "bit (smear v) n \<longleftrightarrow> (\<exists>j < 8. bit v (n + j))"
proof -
  define w where "w = (v OR drop_bit 1 v) OR drop_bit 2 (v OR drop_bit 1 v)"
  have w: "bit w m \<longleftrightarrow> (\<exists>j < 4. bit v (m + j))" for m
    unfolding w_def bit_or_shift using bit_shifts(1) [of v m] bit_shifts(2) [of _ v m] by blast
  have "smear v = w OR drop_bit 4 w"
    by (simp add: smear_def Let_def drop_bit_byte w_def)
  then have "bit (smear v) n \<longleftrightarrow> (\<exists>j < 4. bit v (n + j)) \<or> (\<exists>j < 4. bit v (4 + n + j))"
    by (simp only: bit_or_shift w)
  also have "\<dots> \<longleftrightarrow> (\<exists>j < 8. bit v (n + j))"
  proof
    assume "(\<exists>j < 4. bit v (n + j)) \<or> (\<exists>j < 4. bit v (4 + n + j))"
    then show "\<exists>j < 8. bit v (n + j)"
    proof (elim disjE exE conjE)
      show "\<exists>j < 8. bit v (n + j)" if "j < 4" "bit v (n + j)" for j
        using that by (intro exI [of _ j]) simp
      show "\<exists>j < 8. bit v (n + j)" if "j < 4" "bit v (4 + n + j)" for j
        using that by (intro exI [of _ "4 + j"]) (simp add: add.commute add.left_commute)
    qed
  next
    assume "\<exists>j < 8. bit v (n + j)"
    then obtain j where j: "j < 8" "bit v (n + j)" by blast
    show "(\<exists>j < 4. bit v (n + j)) \<or> (\<exists>j < 4. bit v (4 + n + j))"
    proof (cases "j < 4")
      case False
      with j have "j - 4 < 4" "4 + n + (j - 4) = n + j" by auto
      with j(2) show ?thesis by metis
    qed (use j in auto)
  qed
  finally show ?thesis .
qed

lemma smear_mask:
  assumes "l < 8" and "bit v l" and "\<And>n. l < n \<Longrightarrow> \<not> bit v n"
  shows "smear v = mask (Suc l)"
proof (rule bit_word_eqI)
  fix n
  show "bit (smear v) n \<longleftrightarrow> bit (mask (Suc l) :: byte) n"
  proof (cases "n \<le> l")
    case True
    then have "l = n + (l - n)" "l - n < 8" using assms(1) by auto
    with True assms(1,2) show ?thesis unfolding bit_smear by (auto simp: bit_simps intro!: exI [of _ "l - n"])
  next
    case False
    with assms show ?thesis unfolding bit_smear by (auto simp: bit_simps)
  qed
qed

lemma byte_log2_mask:
  assumes "l < 8" and "smear v = mask (Suc l)"
  shows "byte_log2 v = l"
proof -
  from assms(1) consider "l = 0" | "l = 1" | "l = 2" | "l = 3" | "l = 4" | "l = 5" | "l = 6" | "l = 7"
    by linarith
  then show ?thesis
    by cases (simp_all add: byte_log2_def assms(2) mask_eq_exp_minus_1 MultiplyDeBruijnBitPosition_def)
qed

lemma bit_nat_bounds:
  assumes "bit (n :: nat) l" and "\<And>k. l < k \<Longrightarrow> \<not> bit n k"
  shows "2 ^ l \<le> n \<and> n < 2 ^ Suc l"
proof
  show "2 ^ l \<le> n"
  proof (rule ccontr)
    assume "\<not> 2 ^ l \<le> n"
    then have "take_bit l n = n" by (simp add: take_bit_nat_eq_self_iff)
    with assms(1) show False by (metis bit_take_bit_iff less_irrefl)
  qed
  have "take_bit (Suc l) n = n"
    using assms(2) by (auto simp: bit_eq_iff bit_take_bit_iff) (meson less_Suc_eq_le not_le)
  then show "n < 2 ^ Suc l" by (simp add: take_bit_nat_eq_self_iff)
qed

lemma byte_log2: "v \<noteq> 0 \<Longrightarrow> byte_log2 v < 8 \<and> 2 ^ byte_log2 v \<le> unat v \<and> unat v < 2 ^ Suc (byte_log2 v)"
proof -
  assume "v \<noteq> 0"
  then obtain l where l: "l < 8" "bit v l" "\<And>n. l < n \<Longrightarrow> \<not> bit v n" using top_bit by blast
  then have "byte_log2 v = l" by (intro byte_log2_mask smear_mask) auto
  moreover have "2 ^ l \<le> unat v \<and> unat v < 2 ^ Suc l"
    using l by (intro bit_nat_bounds) (auto simp: bit_unsigned_iff)
  ultimately show ?thesis using l(1) by simp
qed

text \<open>A key read as a big-endian number; its bucket is its binary logarithm less one.\<close>

definition be_nat :: "bytes \<Rightarrow> nat" where
  "be_nat bs = foldl (\<lambda>n b. 256 * n + unat b) 0 bs"

lemma foldl_be_nat: "foldl (\<lambda>n b. 256 * n + unat b) a bs = a * 256 ^ length bs + be_nat bs"
proof (induction bs arbitrary: a)
  case Nil
  show ?case by (simp add: be_nat_def)
next
  case (Cons b bs)
  have "be_nat (b # bs) = unat b * 256 ^ length bs + be_nat bs"
    using Cons [of "unat b"] by (simp add: be_nat_def)
  with Cons [of "256 * a + unat b"] show ?case by (simp add: algebra_simps)
qed

lemma be_nat_Cons: "be_nat (b # bs) = unat b * 256 ^ length bs + be_nat bs"
  using foldl_be_nat [of "unat b" bs] by (simp add: be_nat_def)

lemma be_nat_less: "be_nat bs < 256 ^ length bs"
proof (induction bs)
  case Nil
  show ?case by (simp add: be_nat_def)
next
  case (Cons b bs)
  have "unat b + 1 \<le> 256" using unat_byte_less [of b] by linarith
  then have "(unat b + 1) * 256 ^ length bs \<le> 256 * 256 ^ length bs" by (rule mult_le_mono1)
  with Cons show ?case
    unfolding be_nat_Cons length_Cons power_Suc add_mult_distrib mult_1 by linarith
qed

lemma bucket_loop_zero: "be_nat vs = 0 \<Longrightarrow> bucket_loop b vs = b - of_nat (8 * length vs)"
proof (induction vs arbitrary: b)
  case (Cons v vs)
  then have "v = 0" "be_nat vs = 0" by (auto simp: be_nat_Cons unat_eq_zero)
  with Cons.IH [of "b - 8"] show ?case by (simp add: diff_diff_eq)
qed simp

lemma bucket_loop_one: "be_nat vs = 1 \<Longrightarrow> bucket_loop b vs = b - of_nat (8 * length vs)"
proof (induction vs arbitrary: b)
  case Nil
  then show ?case by (simp add: be_nat_def)
next
  case (Cons v vs)
  show ?case
  proof (cases "v = 0")
    case True
    with Cons.prems have "be_nat vs = 1" by (simp add: be_nat_Cons)
    with Cons.IH [of "b - 8"] True show ?thesis by (simp add: diff_diff_eq)
  next
    case False
    then have "1 \<le> unat v" using unat_eq_zero [of v] by linarith
    then have "256 ^ length vs \<le> unat v * 256 ^ length vs" by simp
    with Cons.prems have "(256 :: nat) ^ length vs \<le> 1" unfolding be_nat_Cons by linarith
    moreover have "(1 :: nat) \<le> 256 ^ length vs" by simp
    ultimately have "(256 :: nat) ^ length vs = 1" by (rule antisym)
    then have "vs = []" by simp
    with Cons.prems have "unat v = 1" by (simp add: be_nat_Cons be_nat_def)
    then have "2 ^ byte_log2 v \<le> (1 :: nat)" using byte_log2 [OF False] by simp
    moreover have "(1 :: nat) \<le> 2 ^ byte_log2 v" by simp
    ultimately have "2 ^ byte_log2 v = (1 :: nat)" by (rule antisym)
    then have "byte_log2 v = 0" by simp
    with False \<open>vs = []\<close> show ?thesis by simp
  qed
qed

lemma bucket_loop_bits:
  "2 \<le> be_nat vs \<Longrightarrow>
   \<exists>r. bucket_loop (of_nat (8 * length vs) - 1) vs = of_nat r \<and> r + 1 < 8 * length vs \<and>
     2 ^ (r + 1) \<le> be_nat vs \<and> be_nat vs < 2 ^ (r + 2)"
proof (induction vs)
  case Nil
  then show ?case by (simp add: be_nat_def)
next
  case (Cons v vs)
  let ?n = "length vs"
  show ?case
  proof (cases "v = 0")
    case True
    with Cons.prems have "2 \<le> be_nat vs" by (simp add: be_nat_Cons)
    from Cons.IH [OF this] True show ?thesis
      by (auto simp: be_nat_Cons algebra_simps)
  next
    case False
    define l where "l = byte_log2 v"
    have l: "l < 8" "2 ^ l \<le> unat v" "unat v + 1 \<le> 2 ^ Suc l"
      using byte_log2 [OF False] by (auto simp: l_def)
    have p: "(256 :: nat) ^ ?n = 2 ^ (8 * ?n)" by (simp add: power_mult)
    have "2 ^ l * 2 ^ (8 * ?n) \<le> unat v * 2 ^ (8 * ?n)" by (rule mult_le_mono1 [OF l(2)])
    then have lo: "2 ^ (8 * ?n + l) \<le> be_nat (v # vs)"
      unfolding be_nat_Cons p power_add mult.commute [of "2 ^ (8 * ?n)" "2 ^ l"] by linarith
    have "be_nat (v # vs) < (unat v + 1) * 2 ^ (8 * ?n)"
      using be_nat_less [of vs] by (simp add: be_nat_Cons p)
    also have "\<dots> \<le> 2 ^ Suc l * 2 ^ (8 * ?n)" using l(3) by (rule mult_right_mono) simp
    also have "\<dots> = 2 ^ (8 * ?n + l + 1)" by (simp add: power_add)
    finally have hi: "be_nat (v # vs) < 2 ^ (8 * ?n + l + 1)" .
    have pos: "1 \<le> 8 * ?n + l"
    proof (rule ccontr)
      assume "\<not> 1 \<le> 8 * ?n + l"
      then have z: "8 * ?n + l = 0" by linarith
      from hi Cons.prems show False unfolding z by simp
    qed
    then obtain r where r: "8 * ?n + l = r + 1" by (metis le_Suc_ex add.commute)
    have "of_nat (8 * ?n) + of_nat l = (of_nat (8 * ?n + l) :: u64)" by simp
    also have "\<dots> = of_nat r + 1" unfolding r by simp
    finally have "bucket_loop (of_nat (8 * length (v # vs)) - 1) (v # vs) = of_nat r"
      using False by (simp add: l_def [symmetric] algebra_simps)
    moreover have "r + 1 < 8 * length (v # vs)" using r l(1) by simp
    moreover have "2 ^ (r + 1) \<le> be_nat (v # vs)" "be_nat (v # vs) < 2 ^ (r + 2)"
      using lo hi unfolding r by (simp_all add: power_add)
    ultimately show ?thesis by blast
  qed
qed

lemma filter_multimap_insert:
  "sorted (map fst m) \<Longrightarrow>
   filter (\<lambda>e. fst e = b) (multimap_insert (k, v) m) =
     filter (\<lambda>e. fst e = b) m @ (if k = b then [(k, v)] else [])"
proof (induction m)
  case (Cons x m)
  show ?case
  proof (cases "k < fst x")
    case True
    then have "filter (\<lambda>e. fst e = k) (x # m) = []"
      using Cons.prems by (auto simp: filter_empty_conv)
    with True show ?thesis by auto
  qed (use Cons in auto)
qed auto

lemma sorted_multimap_insert: "sorted (map fst m) \<Longrightarrow> sorted (map fst (multimap_insert e m))"
proof (induction m)
  case (Cons x m)
  have "set (multimap_insert e m) = insert e (set m)" for m by (induction m) auto
  with Cons show ?case by auto
qed simp

lemma Kademlia_insert_simps [simp]:
  "kad_ref (Kademlia_insert k v d) = kad_ref d"
  "Kademlia_getBucket k' (Kademlia_insert k v d) = Kademlia_getBucket k' d"
  by (simp_all add: Kademlia_insert_def Kademlia_getBucket_def)

lemma Kademlia_find_inserts:
  "sorted (map fst (kad_table d)) \<Longrightarrow>
   sorted (map fst (kad_table (fold (\<lambda>(k, v). Kademlia_insert k v) kvs d))) \<and>
   Kademlia_find q (fold (\<lambda>(k, v). Kademlia_insert k v) kvs d) =
     Kademlia_find q d @ map (\<lambda>(k, v). (Kademlia_getBucket k d, v))
       (filter (\<lambda>(k, v). Kademlia_getBucket k d = Kademlia_getBucket q d) kvs)"
proof (induction kvs arbitrary: d)
  case (Cons kv kvs)
  obtain k v where kv: "kv = (k, v)" by (cases kv)
  have "sorted (map fst (kad_table (Kademlia_insert k v d)))"
    using Cons.prems by (simp add: Kademlia_insert_def sorted_multimap_insert)
  moreover have "Kademlia_find q (Kademlia_insert k v d) =
      Kademlia_find q d @ (if Kademlia_getBucket k d = Kademlia_getBucket q d then [(Kademlia_getBucket k d, v)] else [])"
    using filter_multimap_insert [OF Cons.prems, of "Kademlia_getBucket q d" "Kademlia_getBucket k d" v]
    by (auto simp: Kademlia_find_def) (simp_all add: Kademlia_insert_def)
  ultimately show ?case using Cons.IH [of "Kademlia_insert k v d"] by (auto simp: kv)
qed simp

lemma cleanup_loop_noop:
  "\<forall>e \<in> set m. snd e - now < lifetime \<Longrightarrow> cleanup_loop now lifetime m = Inr m"
  by (induction now lifetime m rule: cleanup_loop.induct) simp_all

subsection \<open>Properties\<close>

text \<open>C29. The bucket \<open>getBucket\<close> computes with its multiplication table is one less than the binary
  logarithm of the XOR distance, read as a 256-bit number, from the reference key; it lies in
  \<open>0..254\<close>. For the two smallest distances, 0 and 1, the subtraction wraps and the bucket is
  \<open>SIZE_MAX\<close>.\<close>

theorem bucket_is_log:
  assumes "length k = 32" and "length (kad_ref d) = 32"
    and D: "D = be_nat (map2 (XOR) k (kad_ref d))"
  shows "if 2 \<le> D
    then unat (Kademlia_getBucket k d) < 255 \<and> 2 ^ (unat (Kademlia_getBucket k d) + 1) \<le> D \<and>
      D < 2 ^ (unat (Kademlia_getBucket k d) + 2)
    else Kademlia_getBucket k d = 2 ^ 64 - 1"
proof (cases "2 \<le> D")
  case True
  let ?vs = "map2 (XOR) k (kad_ref d)"
  have "length ?vs = 32" using assms by simp
  with bucket_loop_bits [of ?vs] True obtain r
    where "bucket_loop 255 ?vs = of_nat r" "r + 1 < 256" "2 ^ (r + 1) \<le> D" "D < 2 ^ (r + 2)"
    by (auto simp: D)
  moreover from this have "unat (of_nat r :: u64) = r" by (simp add: unat_of_nat)
  ultimately show ?thesis using True by (simp add: Kademlia_getBucket_def)
next
  case False
  let ?vs = "map2 (XOR) k (kad_ref d)"
  have len: "length ?vs = 32" using assms by simp
  have "bucket_loop 255 ?vs = 255 - 256"
  proof (cases "D = 0")
    case True
    with bucket_loop_zero [of ?vs 255] len show ?thesis by (simp add: D)
  next
    case False
    with \<open>\<not> 2 \<le> D\<close> have "be_nat ?vs = 1" by (simp add: D)
    with bucket_loop_one [of ?vs 255] len show ?thesis by simp
  qed
  with False show ?thesis by (simp add: Kademlia_getBucket_def)
qed

theorem bucket_is_log_witness:
  "Kademlia_getBucket (replicate 31 0 @ [1]) (Kademlia_make (replicate 32 0)) = 2 ^ 64 - 1"
  using bucket_is_log [of "replicate 31 0 @ [1]" "Kademlia_make (replicate 32 0)", OF _ _ refl]
  by (simp add: Kademlia_make_def be_nat_def numeral_eq_Suc)

text \<open>After any sequence of insertions into an empty table, a lookup returns exactly the values whose
  keys share the bucket of the queried key, in the order they were inserted, and the bounded lookup
  returns the first \<open>count\<close> of them, or all when there are fewer.\<close>

theorem kademlia_find_spec:
  fixes kvs reference q c
  defines "d \<equiv> fold (\<lambda>(k, v). Kademlia_insert k v) kvs (Kademlia_make reference)"
  shows "map snd (Kademlia_find q d) =
      map snd (filter (\<lambda>(k, v). Kademlia_getBucket k d = Kademlia_getBucket q d) kvs) \<and>
    Kademlia_find_count q c d = take c (Kademlia_find q d)"
proof -
  have bucket: "Kademlia_getBucket k d = Kademlia_getBucket k (Kademlia_make reference)" for k
    unfolding d_def by (induction kvs rule: rev_induct) (auto simp: Kademlia_getBucket_def)
  have "Kademlia_find q d = map (\<lambda>(k, v). (Kademlia_getBucket k (Kademlia_make reference), v))
      (filter (\<lambda>(k, v). Kademlia_getBucket k (Kademlia_make reference) =
        Kademlia_getBucket q (Kademlia_make reference)) kvs)"
    using Kademlia_find_inserts [of "Kademlia_make reference" kvs q]
    by (simp add: d_def Kademlia_make_def Kademlia_find_def)
  then have "map snd (Kademlia_find q d) =
      map snd (filter (\<lambda>(k, v). Kademlia_getBucket k d = Kademlia_getBucket q d) kvs)"
    by (simp add: bucket case_prod_beta)
  then show ?thesis by (simp add: Kademlia_find_count_def Kademlia_find_def Let_def)
qed

text \<open>C30. A key inserted into the negative lookup cache is contained in it, and insertion forgets no
  other key. Entries whose time is not in the future are never removed: \<open>cleanup\<close> compares the age with
  the wrong sign, so with a positive lifetime it leaves such a cache exactly as it is.\<close>

theorem nlc_remembers:
  "NegativeLookupCache_contains k (NegativeLookupCache_insert now k c) \<and>
   (NegativeLookupCache_contains k' c \<longrightarrow> NegativeLookupCache_contains k' (NegativeLookupCache_insert now k c)) \<and>
   (0 < nlc_lifetime c \<and> list_all (\<lambda>e. snd e \<le> later) (nlc_cache c) \<longrightarrow>
      NegativeLookupCache_cleanup later c = Inr c)"
proof (intro conjI impI)
  assume "0 < nlc_lifetime c \<and> list_all (\<lambda>e. snd e \<le> later) (nlc_cache c)"
  then have "cleanup_loop later (nlc_lifetime c) (nlc_cache c) = Inr (nlc_cache c)"
    by (intro cleanup_loop_noop) (force simp: list_all_iff)
  then show "NegativeLookupCache_cleanup later c = Inr c" by (simp add: NegativeLookupCache_cleanup_def)
qed (auto simp: NegativeLookupCache_contains_def NegativeLookupCache_insert_def sm.find_put)

theorem nlc_remembers_witness:
  "NegativeLookupCache_cleanup 1000000 (NegativeLookupCache_insert 0 [1] (NegativeLookupCache_make 18000)) =
     Inr (NegativeLookupCache_insert 0 [1] (NegativeLookupCache_make 18000))"
  using nlc_remembers [of "[1]" 0 "NegativeLookupCache_insert 0 [1] (NegativeLookupCache_make 18000)" "[1]" 1000000]
  by (simp add: NegativeLookupCache_insert_def NegativeLookupCache_make_def smap_find_def)

end
