(* ===== verification/Router_Types.thy ===== *)
theory Router_Types
  imports Basic_Types
begin

text \<open>
  The composite data types \<open>RouterIdentity\<close>, \<open>RouterAddress\<close>, \<open>RouterInfo\<close> and \<open>Lease\<close>.
  Botan's SHA-256, SHA-1 and DSA are arguments of the members that call them.
\<close>

subsection \<open>RouterIdentity\<close>

text \<open>The members \<open>m_hashed\<close> and \<open>m_hash\<close> are one optional value: \<open>m_hash\<close> is only read
  once \<open>m_hashed\<close> is set.\<close>

record RouterIdentity =
  rid_encryptionKey :: bytes
  rid_signingKey :: bytes
  rid_certificate :: Certificate
  rid_hash :: "bytes option"

definition RouterIdentity_parse :: "nat \<Rightarrow> RouterIdentity parser" where
  "RouterIdentity_parse e =
     pbind (need e (256 + 128) (Runtime_error ''malformed router identity'')) (\<lambda>_.
     pbind (next_bytes 256) (\<lambda>ek.
     pbind (next_bytes 128) (\<lambda>sk.
     pbind (Certificate_parse e) (\<lambda>c.
     preturn \<lparr>rid_encryptionKey = ek, rid_signingKey = sk, rid_certificate = c, rid_hash = None\<rparr>))))"

text \<open>\<open>std::copy\<close> into a fixed-size array whose previous contents are \<open>junk\<close>.\<close>

definition copy_into :: "bytes \<Rightarrow> bytes \<Rightarrow> bytes result" where
  "copy_into junk src =
     (if length src \<le> length junk then Inr (src @ drop (length src) junk) else Inl Out_of_bounds)"

definition RouterIdentity_make ::
  "bytes \<Rightarrow> bytes \<Rightarrow> bytes \<Rightarrow> bytes \<Rightarrow> Certificate \<Rightarrow> RouterIdentity result" where
  "RouterIdentity_make junkE junkS encryptionKey signingKey certificate =
     ebind (copy_into junkE encryptionKey) (\<lambda>ek.
     ebind (copy_into junkS signingKey) (\<lambda>sk.
     Inr \<lparr>rid_encryptionKey = ek, rid_signingKey = sk, rid_certificate = certificate, rid_hash = None\<rparr>))"

definition RouterIdentity_serialize :: "RouterIdentity \<Rightarrow> bytes" where
  "RouterIdentity_serialize i =
     rid_encryptionKey i @ rid_signingKey i @ Certificate_serialize (rid_certificate i)"

definition RouterIdentity_getHash ::
  "(bytes \<Rightarrow> bytes) \<Rightarrow> RouterIdentity \<Rightarrow> bytes \<times> RouterIdentity" where
  "RouterIdentity_getHash sha256 i =
     (case rid_hash i of
        Some h \<Rightarrow> (h, i)
      | None \<Rightarrow> (let h = sha256 (RouterIdentity_serialize i) in (h, i\<lparr>rid_hash := Some h\<rparr>)))"

definition RouterIdentity_wf :: "RouterIdentity \<Rightarrow> bool" where
  "RouterIdentity_wf i \<longleftrightarrow> length (rid_encryptionKey i) = 256 \<and> length (rid_signingKey i) = 128 \<and>
     Certificate_wf (rid_certificate i) \<and> rid_hash i = None"

text \<open>The cached hash, when there is one, is the hash of the identity.\<close>

definition RouterIdentity_cache_ok :: "(bytes \<Rightarrow> bytes) \<Rightarrow> RouterIdentity \<Rightarrow> bool" where
  "RouterIdentity_cache_ok sha256 i \<longleftrightarrow>
     (case rid_hash i of None \<Rightarrow> True | Some h \<Rightarrow> h = sha256 (RouterIdentity_serialize i))"

lemma RouterIdentity_par_ser:
  assumes "RouterIdentity_wf i" and "has_at buf p (RouterIdentity_serialize i)"
    and "p + length (RouterIdentity_serialize i) \<le> e"
  shows "RouterIdentity_parse e buf p = Inr (i, p + length (RouterIdentity_serialize i))"
  using assms
  by (auto simp: RouterIdentity_parse_def RouterIdentity_serialize_def RouterIdentity_wf_def
      pbind_def need_ok reads cert.par_ser preturn_def add.assoc)

lemma RouterIdentity_parse_Inr_iff [inr_iff]:
  "RouterIdentity_parse e buf p = Inr (i, q) \<longleftrightarrow>
     p + 384 < q \<and> q \<le> e \<and> has_at buf p (RouterIdentity_serialize i) \<and>
     q = p + length (RouterIdentity_serialize i) \<and> RouterIdentity_wf i"
proof
  assume "RouterIdentity_parse e buf p = Inr (i, q)"
  then show "p + 384 < q \<and> q \<le> e \<and> has_at buf p (RouterIdentity_serialize i) \<and>
     q = p + length (RouterIdentity_serialize i) \<and> RouterIdentity_wf i"
    by (auto simp: RouterIdentity_parse_def RouterIdentity_serialize_def RouterIdentity_wf_def inr_iff
        has_at_take_drop add.assoc Certificate_serialize_def)
qed (simp add: RouterIdentity_par_ser)

interpretation rident: exact_codec RouterIdentity_serialize RouterIdentity_parse RouterIdentity_wf
  by unfold_locales (auto simp: RouterIdentity_par_ser inr_iff)

lemma RouterIdentity_serialize_cache [simp]:
  "RouterIdentity_serialize (i\<lparr>rid_hash := c\<rparr>) = RouterIdentity_serialize i"
  by (simp add: RouterIdentity_serialize_def)

subsection \<open>RouterAddress\<close>

record RouterAddress =
  ra_cost :: byte
  ra_expiration :: Date
  ra_transport :: bytes
  ra_options :: Mapping

definition RouterAddress_make :: "int \<Rightarrow> Date \<Rightarrow> bytes \<Rightarrow> Mapping \<Rightarrow> RouterAddress" where
  "RouterAddress_make cost expiration transport options =
     \<lparr>ra_cost = of_int cost, ra_expiration = expiration, ra_transport = transport, ra_options = options\<rparr>"

definition RouterAddress_parse :: "nat \<Rightarrow> RouterAddress parser" where
  "RouterAddress_parse e =
     pbind next_byte (\<lambda>cost.
     pbind (Date_parse e) (\<lambda>expiration.
     pbind next_byte (\<lambda>size.
     pbind (need e (unat size) (Runtime_error ''malformed router address'')) (\<lambda>_.
     pbind (next_bytes (unat size)) (\<lambda>transport.
     pbind (Mapping_parse e) (\<lambda>options.
     preturn \<lparr>ra_cost = cost, ra_expiration = expiration, ra_transport = transport,
              ra_options = options\<rparr>))))))"

definition RouterAddress_serialize :: "RouterAddress \<Rightarrow> bytes" where
  "RouterAddress_serialize a =
     [ra_cost a] @ Date_serialize (ra_expiration a) @ [of_nat (length (ra_transport a))] @
     ra_transport a @ Mapping_serialize (ra_options a)"

definition RouterAddress_wf :: "RouterAddress \<Rightarrow> bool" where
  "RouterAddress_wf a \<longleftrightarrow> length (ra_transport a) < 256 \<and> Mapping_wf (ra_options a)"

lemma RouterAddress_par_ser:
  assumes "RouterAddress_wf a" and "has_at buf p (RouterAddress_serialize a)"
    and "p + length (RouterAddress_serialize a) \<le> e"
  shows "RouterAddress_parse e buf p = Inr (a, p + length (RouterAddress_serialize a))"
  using assms
  by (auto simp: RouterAddress_parse_def RouterAddress_serialize_def RouterAddress_wf_def
      pbind_def next_byte_def need_ok reads Date_par_ser Mapping_par_ser preturn_def has_at_Cons
      unat_of_nats add.assoc)

interpretation raddr: codec RouterAddress_serialize RouterAddress_parse RouterAddress_wf
  by unfold_locales (rule RouterAddress_par_ser)

subsection \<open>RouterInfo\<close>

record RouterInfo =
  ri_identity :: RouterIdentity
  ri_published :: Date
  ri_addresses :: "RouterAddress list"
  ri_options :: Mapping
  ri_signature :: bytes

definition RouterInfo_make :: "RouterIdentity \<Rightarrow> Date \<Rightarrow> Mapping \<Rightarrow> bytes \<Rightarrow> RouterInfo" where
  "RouterInfo_make identity published options signature =
     \<lparr>ri_identity = identity, ri_published = published, ri_addresses = [], ri_options = options,
      ri_signature = signature\<rparr>"

text \<open>\<open>copy(end - 40, end, m_signature.begin())\<close>: the last 40 bytes before \<open>end\<close>, wherever
  \<open>begin\<close> stands.\<close>

definition last_40 :: "nat \<Rightarrow> bytes parser" where
  "last_40 e buf p =
     (if e \<le> length buf then Inr (take 40 (drop (e - 40) buf), p) else Inl Out_of_bounds)"

definition RouterInfo_parse :: "nat \<Rightarrow> RouterInfo parser" where
  "RouterInfo_parse e =
     pbind (RouterIdentity_parse e) (\<lambda>identity.
     pbind (Date_parse e) (\<lambda>published.
     pbind next_byte (\<lambda>size.
     pbind (preplicate (unat size) (RouterAddress_parse e)) (\<lambda>addresses.
     pbind (skip 1) (\<lambda>_.
     pbind (Mapping_parse e) (\<lambda>options.
     pbind (need e 40 (Runtime_error ''malfirmed router info signature'')) (\<lambda>_.
     pbind (last_40 e) (\<lambda>signature.
     preturn \<lparr>ri_identity = identity, ri_published = published, ri_addresses = addresses,
              ri_options = options, ri_signature = signature\<rparr>))))))))"

definition RouterInfo_getSignedBytes :: "RouterInfo \<Rightarrow> bytes" where
  "RouterInfo_getSignedBytes r =
     RouterIdentity_serialize (ri_identity r) @ Date_serialize (ri_published r) @
     [of_nat (length (ri_addresses r))] @ concat (map RouterAddress_serialize (ri_addresses r)) @
     [0] @ Mapping_serialize (ri_options r)"

definition RouterInfo_serialize :: "RouterInfo \<Rightarrow> bytes" where
  "RouterInfo_serialize r = RouterInfo_getSignedBytes r @ ri_signature r"

definition RouterInfo_addAddress :: "RouterAddress \<Rightarrow> RouterInfo \<Rightarrow> RouterInfo" where
  "RouterInfo_addAddress a r = r\<lparr>ri_addresses := ri_addresses r @ [a]\<rparr>"

definition RouterInfo_verifySignature ::
  "(bytes \<Rightarrow> bytes) \<Rightarrow> (bytes \<Rightarrow> bytes \<Rightarrow> bytes \<Rightarrow> bool) \<Rightarrow> RouterInfo \<Rightarrow> bool" where
  "RouterInfo_verifySignature sha1 dsa_verify r =
     dsa_verify (rid_signingKey (ri_identity r)) (take 20 (sha1 (RouterInfo_getSignedBytes r)))
       (ri_signature r)"

definition RouterInfo_sign ::
  "(bytes \<Rightarrow> bytes) \<Rightarrow> ('key \<Rightarrow> bytes \<Rightarrow> bytes) \<Rightarrow> 'key \<Rightarrow> RouterInfo \<Rightarrow> RouterInfo" where
  "RouterInfo_sign sha1 dsa_sign key r =
     r\<lparr>ri_signature := dsa_sign key (take 20 (sha1 (RouterInfo_getSignedBytes r)))\<rparr>"

definition RouterInfo_getAddress :: "nat \<Rightarrow> RouterInfo \<Rightarrow> RouterAddress result" where
  "RouterInfo_getAddress index r =
     (if index < length (ri_addresses r) then Inr (ri_addresses r ! index) else Inl Out_of_bounds)"

definition RouterInfo_wf :: "RouterInfo \<Rightarrow> bool" where
  "RouterInfo_wf r \<longleftrightarrow> RouterIdentity_wf (ri_identity r) \<and> length (ri_addresses r) < 256 \<and>
     list_all RouterAddress_wf (ri_addresses r) \<and> Mapping_wf (ri_options r) \<and>
     length (ri_signature r) = 40"

lemma last_40_has_at:
  "has_at buf p xs \<Longrightarrow> length xs = 40 \<Longrightarrow> e = p + 40 \<Longrightarrow> last_40 e buf p = Inr (xs, p)"
  by (auto simp: last_40_def has_at_def)

lemma addresses_par_ser:
  "list_all RouterAddress_wf as \<Longrightarrow> has_at buf p (concat (map RouterAddress_serialize as)) \<Longrightarrow>
   p + length (concat (map RouterAddress_serialize as)) \<le> e \<Longrightarrow>
   preplicate (length as) (RouterAddress_parse e) buf p =
     Inr (as, p + length (concat (map RouterAddress_serialize as)))"
  by (rule raddr.many_ser) (auto simp: list_all_iff)

lemma RouterInfo_par_ser:
  assumes wf: "RouterInfo_wf r" and at: "has_at buf p (RouterInfo_serialize r)"
    and e: "e = p + length (RouterInfo_serialize r)"
  shows "RouterInfo_parse e buf p = Inr (r, p + length (RouterInfo_getSignedBytes r))"
proof -
  have n: "unat (of_nat (length (ri_addresses r)) :: byte) = length (ri_addresses r)"
    using wf by (simp add: RouterInfo_wf_def unat_of_nats)
  show ?thesis
    using wf at e
    unfolding RouterInfo_parse_def RouterInfo_serialize_def RouterInfo_getSignedBytes_def
      RouterInfo_wf_def
    by (auto simp: pbind_def next_byte_def skip_def need_ok reads RouterIdentity_par_ser Date_par_ser
        addresses_par_ser Mapping_par_ser last_40_has_at preturn_def has_at_Cons n add.assoc)
qed

lemma RouterInfo_getSignedBytes_sign [simp]:
  "RouterInfo_getSignedBytes (r\<lparr>ri_signature := s\<rparr>) = RouterInfo_getSignedBytes r"
  by (simp add: RouterInfo_getSignedBytes_def)

text \<open>Whatever the parser accepts is within the limits of the format.\<close>

lemma preplicate_all: "preplicate n m buf p = Inr (xs, q) \<Longrightarrow> (\<And>p x q. m buf p = Inr (x, q) \<Longrightarrow> P x) \<Longrightarrow> list_all P xs"
  by (induction n arbitrary: p xs) (auto simp: inr_iff preturn_def)

lemma RouterAddress_parse_wf: "RouterAddress_parse e buf p = Inr (a, q) \<Longrightarrow> RouterAddress_wf a"
  by (auto simp: RouterAddress_parse_def RouterAddress_wf_def inr_iff intro: Mapping_parse_wf)

lemma RouterInfo_parse_wf:
  assumes "RouterInfo_parse e buf p = Inr (r, q)"
  shows "RouterInfo_wf r"
proof -
  have addresses: "list_all RouterAddress_wf as \<and> length as < 256"
    if "preplicate (unat (n :: byte)) (RouterAddress_parse e) buf p = Inr (as, q)" for n as p q
    using preplicate_all [OF that, of RouterAddress_wf] preplicate_length [OF that] by (auto dest: RouterAddress_parse_wf)
  from assms show ?thesis
    by (auto simp: RouterInfo_parse_def RouterInfo_wf_def last_40_def inr_iff split: if_splits
        dest!: addresses intro: Mapping_parse_wf)
qed

subsection \<open>Lease\<close>

record Lease =
  ls_gw :: bytes
  ls_tid :: u32
  ls_end :: Date

definition Lease_parse :: "nat \<Rightarrow> Lease parser" where
  "Lease_parse e buf p =
     (if int e - int p \<noteq> 44 then Inl (Runtime_error ''malformed lease'')
      else pbind (next_bytes 32) (\<lambda>gw.
           pbind parseUint32 (\<lambda>tid.
           pbind (Date_parse e) (\<lambda>d.
           preturn \<lparr>ls_gw = gw, ls_tid = tid, ls_end = d\<rparr>))) buf p)"

definition Lease_make :: "bytes \<Rightarrow> u32 \<Rightarrow> Date \<Rightarrow> Lease" where
  "Lease_make gw tid d = \<lparr>ls_gw = gw, ls_tid = tid, ls_end = d\<rparr>"

text \<open>\<open>Lease::serialize\<close> is a stub in the source: it returns an empty array.\<close>

definition Lease_serialize :: "Lease \<Rightarrow> bytes" where
  "Lease_serialize l = []"

interpretation lease: bounded_parser Lease_parse
  by unfold_locales
    (auto simp: Lease_parse_def parser_Inl_iff inr_iff preturn_def Date_parse_Inl_iff split: if_splits)

subsection \<open>Properties\<close>

text \<open>C22. A router info within the format's limits (256- and 128-byte keys, at most 255 addresses,
  strings of at most 255 bytes, option blocks below 64 KiB, a 40-byte signature) is read back unchanged by
  the constructor of \<open>RouterInfo\<close> from what \<open>RouterInfo::serialize\<close> wrote.\<close>

theorem RouterInfo_roundtrip:
  assumes "RouterInfo_wf r"
  shows "RouterInfo_parse (length (RouterInfo_serialize r)) (RouterInfo_serialize r) 0 =
    Inr (r, length (RouterInfo_getSignedBytes r))"
  using RouterInfo_par_ser [OF assms, of "RouterInfo_serialize r" 0] by simp

definition sample_info :: RouterInfo where
  "sample_info = RouterInfo_addAddress
     (RouterAddress_make 7 (Date_of 0x0102030405060708) [0x53, 0x53, 0x55]
        (Mapping_setValue [0x70] [0x38, 0x30] (Mapping_setValue [0x68] [0x31] [])))
     (RouterInfo_make
        \<lparr>rid_encryptionKey = replicate 256 7, rid_signingKey = replicate 128 9,
         rid_certificate = Certificate_default, rid_hash = None\<rparr>
        (Date_of 5) (Mapping_setValue [0x61] [0x62] []) (replicate 40 1))"

lemma sample_info_wf: "RouterInfo_wf sample_info"
  by (simp add: sample_info_def RouterInfo_wf_def RouterInfo_addAddress_def RouterAddress_make_def
      RouterInfo_make_def RouterIdentity_wf_def Certificate_wf_def Certificate_default_def
      RouterAddress_wf_def Mapping_wf_def Mapping_setValue_def smap_ok_def Mapping_entry_bytes_def)

theorem RouterInfo_roundtrip_witness:
  "RouterInfo_wf sample_info \<and>
   RouterInfo_parse (length (RouterInfo_serialize sample_info)) (RouterInfo_serialize sample_info) 0 =
     Inr (sample_info, length (RouterInfo_getSignedBytes sample_info))"
  using sample_info_wf RouterInfo_roundtrip [OF sample_info_wf] by blast

text \<open>A router info signed with \<open>RouterInfo::sign\<close> passes \<open>RouterInfo::verifySignature\<close>,
  and still does after it was serialized and parsed, when the DSA signature scheme accepts its own
  40-byte signatures under the identity's signing key.\<close>

theorem RouterInfo_sign_verify:
  assumes accepts: "\<And>h. dsa_verify (rid_signingKey (ri_identity r)) h (dsa_sign key h)"
    and size: "\<And>h. length (dsa_sign key h) = 40"
    and wf: "RouterInfo_wf r"
    and s_def: "s = RouterInfo_sign sha1 dsa_sign key r"
  shows "RouterInfo_verifySignature sha1 dsa_verify s \<and>
    (\<exists>s' q. RouterInfo_parse (length (RouterInfo_serialize s)) (RouterInfo_serialize s) 0 = Inr (s', q) \<and>
      RouterInfo_verifySignature sha1 dsa_verify s')"
proof -
  have "RouterInfo_wf s"
    using wf size by (simp add: s_def RouterInfo_sign_def RouterInfo_wf_def)
  moreover have "RouterInfo_verifySignature sha1 dsa_verify s"
    using accepts by (simp add: s_def RouterInfo_sign_def RouterInfo_verifySignature_def)
  ultimately show ?thesis
    using RouterInfo_par_ser [of s "RouterInfo_serialize s" 0] by simp
qed

theorem RouterInfo_sign_verify_witness:
  "RouterInfo_verifySignature (\<lambda>x. x) (\<lambda>pk h sig. sig = take 40 (h @ replicate 40 0))
     (RouterInfo_sign (\<lambda>x. x) (\<lambda>sk h. take 40 (h @ replicate 40 0)) () sample_info)"
  using RouterInfo_sign_verify [of "\<lambda>pk h sig. sig = take 40 (h @ replicate 40 0)" sample_info
      "\<lambda>sk h. take 40 (h @ replicate 40 0)" "()" _ "\<lambda>x. x", OF _ _ sample_info_wf refl]
  by simp

text \<open>The hash of an identity parsed from a buffer is the SHA-256 of exactly the bytes
  the parser consumed, asking for it again gives the same value, and the parser stays inside
  \<open>[begin, end)\<close>.\<close>

theorem RouterIdentity_hash_of_wire:
  assumes "RouterIdentity_parse e buf p = Inr (i, q)"
  shows "p < q \<and> q \<le> e \<and>
    fst (RouterIdentity_getHash sha256 i) = sha256 (take (q - p) (drop p buf)) \<and>
    RouterIdentity_getHash sha256 (snd (RouterIdentity_getHash sha256 i)) = RouterIdentity_getHash sha256 i"
  using assms
  by (auto simp: inr_iff RouterIdentity_wf_def RouterIdentity_getHash_def Let_def has_at_def)

theorem RouterIdentity_hash_of_wire_witness:
  "let i = ri_identity sample_info; b = RouterIdentity_serialize i in
     RouterIdentity_parse (length b) b 0 = Inr (i, length b) \<and>
     fst (RouterIdentity_getHash rev i) = rev b"
proof -
  let ?i = "ri_identity sample_info"
  let ?b = "RouterIdentity_serialize ?i"
  have "RouterIdentity_wf ?i" using sample_info_wf by (simp add: RouterInfo_wf_def)
  then have par: "RouterIdentity_parse (length ?b) ?b 0 = Inr (?i, length ?b)"
    by (rule rident.roundtrip)
  with RouterIdentity_hash_of_wire [OF par, of rev] show ?thesis by (simp add: Let_def)
qed

text \<open>\<open>RouterIdentity::getHash\<close> caches: whatever the cache holds, when it was filled by
  the class itself the returned hash is that of the identity, and the cache stays right.\<close>

theorem RouterIdentity_cache_sound:
  assumes "RouterIdentity_cache_ok sha256 i"
  shows "fst (RouterIdentity_getHash sha256 i) = sha256 (RouterIdentity_serialize i) \<and>
    RouterIdentity_cache_ok sha256 (snd (RouterIdentity_getHash sha256 i))"
  using assms
  by (auto simp: RouterIdentity_cache_ok_def RouterIdentity_getHash_def Let_def split: option.splits)

theorem RouterIdentity_cache_sound_witness:
  "fst (RouterIdentity_getHash rev (ri_identity sample_info)) =
     rev (RouterIdentity_serialize (ri_identity sample_info))"
  using RouterIdentity_cache_sound [of rev "ri_identity sample_info"] sample_info_wf
  by (simp add: RouterInfo_wf_def RouterIdentity_wf_def RouterIdentity_cache_ok_def)

end
