(* ===== verification/Build_Records.thy ===== *)
theory Build_Records
  imports Router_Types
begin

text \<open>
  The tunnel build records: \<open>BuildRecord\<close> and the two classes that derive from it,
  \<open>BuildRequestRecord\<close> and \<open>BuildResponseRecord\<close>, as extensible records. Botan's SHA-256, AES
  and ElGamal are function arguments; what a random generator wrote is an argument as well.
\<close>

subsection \<open>BuildRecord\<close>

record BuildRecord =
  br_header :: bytes
  br_data :: bytes

definition BuildRecord_wf :: "'a BuildRecord_scheme \<Rightarrow> bool" where
  "BuildRecord_wf r \<longleftrightarrow> length (br_header r) = 16 \<and> length (br_data r) = 512"

definition BuildRecord_parse :: "nat \<Rightarrow> BuildRecord parser" where
  "BuildRecord_parse e =
     pbind (need e 528 (Runtime_error ''malformed BuildRecord'')) (\<lambda>_.
     pbind (next_bytes 16) (\<lambda>h.
     pbind (next_bytes 512) (\<lambda>d.
     preturn \<lparr>br_header = h, br_data = d\<rparr>)))"

definition BuildRecord_serialize :: "'a BuildRecord_scheme \<Rightarrow> bytes" where
  "BuildRecord_serialize r = br_header r @ br_data r"

text \<open>ElGamal: a non-zero byte, the SHA-256 of the first 222 bytes, and those bytes. The result
  is laid into a fresh 512-byte array.\<close>

definition BuildRecord_encrypt_elg ::
  "(bytes \<Rightarrow> bytes) \<Rightarrow> (bytes \<Rightarrow> bytes \<Rightarrow> bytes) \<Rightarrow> bytes \<Rightarrow> bytes \<Rightarrow> 'a BuildRecord_scheme \<Rightarrow>
   'a BuildRecord_scheme" where
  "BuildRecord_encrypt_elg sha256 elg_encrypt junk encryptionKey r =
     (let d = take 222 (br_data r);
          toEncrypt = [0xFF] @ take 32 (sha256 d) @ d
      in r\<lparr>br_data := toStaticByteArray 512 junk (elg_encrypt encryptionKey toEncrypt)\<rparr>)"

text \<open>Only the first 222 bytes of \<open>m_data\<close> are replaced; they stay replaced when the hash does
  not match and the exception leaves the member. A plaintext shorter than 255 bytes is read past
  its end.\<close>

definition BuildRecord_decrypt_elg ::
  "(bytes \<Rightarrow> bytes) \<Rightarrow> ('key \<Rightarrow> bytes \<Rightarrow> bytes) \<Rightarrow> 'key \<Rightarrow> 'a BuildRecord_scheme \<Rightarrow>
   'a BuildRecord_scheme result" where
  "BuildRecord_decrypt_elg sha256 elg_decrypt key r =
     (let decrypted = elg_decrypt key (br_data r) in
      ebind (require (255 \<le> length decrypted) Out_of_bounds) (\<lambda>_.
      let givenHash = take 32 (drop 1 decrypted);
          d = take 222 (drop 33 decrypted);
          r' = r\<lparr>br_data := d @ drop 222 (br_data r)\<rparr>;
          calcHash = take 32 (sha256 d)
      in ebind (require (calcHash = givenHash) (Runtime_error ''hash mismatch in BuildRecord'')) (\<lambda>_.
         Inr r')))"

definition BuildRecord_aes ::
  "(bytes \<Rightarrow> bytes \<Rightarrow> bytes \<Rightarrow> bytes) \<Rightarrow> string \<Rightarrow> bytes \<Rightarrow> bytes \<Rightarrow> 'a BuildRecord_scheme \<Rightarrow>
   'a BuildRecord_scheme result" where
  "BuildRecord_aes cipher msg iv key r =
     (let out = cipher key iv (br_header r @ br_data r) in
      ebind (require (length out = 16 + 512) (Runtime_error msg)) (\<lambda>_.
      Inr (r\<lparr>br_header := take 16 out, br_data := take 512 (drop 16 out)\<rparr>)))"

definition BuildRecord_encrypt_aes ::
  "(bytes \<Rightarrow> bytes \<Rightarrow> bytes \<Rightarrow> bytes) \<Rightarrow> bytes \<Rightarrow> bytes \<Rightarrow> 'a BuildRecord_scheme \<Rightarrow>
   'a BuildRecord_scheme result" where
  "BuildRecord_encrypt_aes aes_encrypt = BuildRecord_aes aes_encrypt ''error AES encrypting BuildRecord''"

definition BuildRecord_decrypt_aes ::
  "(bytes \<Rightarrow> bytes \<Rightarrow> bytes \<Rightarrow> bytes) \<Rightarrow> bytes \<Rightarrow> bytes \<Rightarrow> 'a BuildRecord_scheme \<Rightarrow>
   'a BuildRecord_scheme result" where
  "BuildRecord_decrypt_aes aes_decrypt = BuildRecord_aes aes_decrypt ''error AES decrypting BuildRecord''"

definition BuildRecord_setHeader :: "bytes \<Rightarrow> 'a BuildRecord_scheme \<Rightarrow> 'a BuildRecord_scheme" where
  "BuildRecord_setHeader header r = r\<lparr>br_header := header\<rparr>"

lemma BuildRecord_par_ser:
  assumes "BuildRecord_wf r" and "has_at buf p (BuildRecord_serialize r)"
    and "p + length (BuildRecord_serialize r) \<le> e"
  shows "BuildRecord_parse e buf p = Inr (r :: BuildRecord, p + length (BuildRecord_serialize r))"
  using assms
  by (auto simp: BuildRecord_parse_def BuildRecord_serialize_def BuildRecord_wf_def pbind_def
      need_ok reads preturn_def)

lemma BuildRecord_parse_Inr_iff [inr_iff]:
  "BuildRecord_parse e buf p = Inr (r, q) \<longleftrightarrow>
     q \<le> e \<and> has_at buf p (BuildRecord_serialize r) \<and> q = p + 528 \<and> BuildRecord_wf r"
proof
  assume "BuildRecord_parse e buf p = Inr (r, q)"
  then show "q \<le> e \<and> has_at buf p (BuildRecord_serialize r) \<and> q = p + 528 \<and> BuildRecord_wf r"
    by (auto simp: BuildRecord_parse_def BuildRecord_serialize_def BuildRecord_wf_def inr_iff
        has_at_take_drop)
next
  assume *: "q \<le> e \<and> has_at buf p (BuildRecord_serialize r) \<and> q = p + 528 \<and> BuildRecord_wf r"
  then have "length (BuildRecord_serialize r) = 528"
    by (simp add: BuildRecord_serialize_def BuildRecord_wf_def)
  with * BuildRecord_par_ser [of r buf p e] show "BuildRecord_parse e buf p = Inr (r, q)" by simp
qed

lemma length_BuildRecord_serialize: "BuildRecord_wf r \<Longrightarrow> length (BuildRecord_serialize r) = 528"
  by (simp add: BuildRecord_serialize_def BuildRecord_wf_def)

lemma BuildRecord_parse_Inl_iff:
  "e \<le> length buf \<Longrightarrow> BuildRecord_parse e buf p = Inl err \<longleftrightarrow>
     e < p + 528 \<and> err = Runtime_error ''malformed BuildRecord''"
  by (auto simp: BuildRecord_parse_def parser_Inl_iff inr_iff preturn_def)

interpretation brec: exact_codec BuildRecord_serialize BuildRecord_parse BuildRecord_wf
  by unfold_locales (auto simp: BuildRecord_par_ser inr_iff length_BuildRecord_serialize)

interpretation brec: bounded_parser BuildRecord_parse
  by unfold_locales (auto simp: BuildRecord_parse_Inl_iff inr_iff)

subsection \<open>BuildRequestRecord\<close>

datatype request_type = PARTICIPANT | GATEWAY | ENDPOINT

record BuildRequestRecord = BuildRecord +
  brq_tunnelId :: u32
  brq_nextTunnelId :: u32
  brq_localHash :: bytes
  brq_nextHash :: bytes
  brq_tunnelLayerKey :: bytes
  brq_tunnelIVKey :: bytes
  brq_replyKey :: bytes
  brq_replyIV :: bytes
  brq_flags :: byte
  brq_requestTime :: u32
  brq_nextMsgId :: u32
  brq_encryptionKey :: bytes

text \<open>What \<open>randomize\<close> draws, in the order of its calls.\<close>

record request_random =
  rr_tunnelId :: u32
  rr_tunnelLayerKey :: bytes
  rr_tunnelIVKey :: bytes
  rr_replyKey :: bytes
  rr_replyIV :: bytes
  rr_nextMsgId :: u32

definition BuildRequestRecord_randomize ::
  "request_random \<Rightarrow> BuildRequestRecord \<Rightarrow> BuildRequestRecord" where
  "BuildRequestRecord_randomize rnd r =
     r\<lparr>brq_tunnelId := rr_tunnelId rnd, brq_tunnelLayerKey := rr_tunnelLayerKey rnd,
       brq_tunnelIVKey := rr_tunnelIVKey rnd, brq_replyKey := rr_replyKey rnd,
       brq_replyIV := rr_replyIV rnd, brq_nextMsgId := rr_nextMsgId rnd\<rparr>"

text \<open>From a received record: every member but the bytes and the (zero) flags is indeterminate.\<close>

definition BuildRequestRecord_of :: "BuildRequestRecord \<Rightarrow> 'a BuildRecord_scheme \<Rightarrow> BuildRequestRecord" where
  "BuildRequestRecord_of junk r = junk\<lparr>br_header := br_header r, br_data := br_data r, brq_flags := 0\<rparr>"

text \<open>For a hop: its identity, the next hop, the next tunnel id, and the time in hours. The
  three-argument constructor; the two-argument one draws \<open>nextTunnelId\<close> at random first.\<close>

definition BuildRequestRecord_make ::
  "(bytes \<Rightarrow> bytes) \<Rightarrow> BuildRequestRecord \<Rightarrow> request_random \<Rightarrow> u32 \<Rightarrow> RouterIdentity \<Rightarrow> bytes \<Rightarrow> u32 \<Rightarrow>
   BuildRequestRecord" where
  "BuildRequestRecord_make sha256 junk rnd hours local nextHash nextTunnelId =
     BuildRequestRecord_randomize rnd
       (junk\<lparr>brq_localHash := fst (RouterIdentity_getHash sha256 local), brq_nextHash := nextHash,
             brq_nextTunnelId := nextTunnelId, brq_encryptionKey := rid_encryptionKey local,
             brq_flags := 0, brq_requestTime := hours\<rparr>)"

definition BuildRequestRecord_make_random ::
  "(bytes \<Rightarrow> bytes) \<Rightarrow> BuildRequestRecord \<Rightarrow> u32 \<Rightarrow> request_random \<Rightarrow> u32 \<Rightarrow> RouterIdentity \<Rightarrow> bytes \<Rightarrow>
   BuildRequestRecord" where
  "BuildRequestRecord_make_random sha256 junk rndNext rnd hours local nextHash =
     BuildRequestRecord_make sha256 junk rnd hours local nextHash rndNext"

definition BuildRequestRecord_read :: "BuildRequestRecord \<Rightarrow> BuildRequestRecord parser" where
  "BuildRequestRecord_read r =
     pbind parseUint32 (\<lambda>tunnelId.
     pbind (next_bytes 32) (\<lambda>localHash.
     pbind parseUint32 (\<lambda>nextTunnelId.
     pbind (next_bytes 32) (\<lambda>nextHash.
     pbind (next_bytes 32) (\<lambda>layerKey.
     pbind (next_bytes 32) (\<lambda>ivKey.
     pbind (next_bytes 32) (\<lambda>replyKey.
     pbind (next_bytes 16) (\<lambda>replyIV.
     pbind next_byte (\<lambda>flags.
     pbind parseUint32 (\<lambda>requestTime.
     pbind parseUint32 (\<lambda>nextMsgId.
     preturn (r\<lparr>brq_tunnelId := tunnelId, brq_localHash := localHash,
                brq_nextTunnelId := nextTunnelId, brq_nextHash := nextHash,
                brq_tunnelLayerKey := layerKey, brq_tunnelIVKey := ivKey, brq_replyKey := replyKey,
                brq_replyIV := replyIV, brq_flags := flags, brq_requestTime := requestTime,
                brq_nextMsgId := nextMsgId\<rparr>))))))))))))"

definition BuildRequestRecord_parse :: "BuildRequestRecord \<Rightarrow> BuildRequestRecord result" where
  "BuildRequestRecord_parse r =
     ebind (BuildRequestRecord_read r (br_data r) 0) (\<lambda>(r', _). Inr r')"

definition BuildRequestRecord_bytes :: "BuildRequestRecord \<Rightarrow> bytes" where
  "BuildRequestRecord_bytes r =
     be32 (brq_tunnelId r) @ brq_localHash r @ be32 (brq_nextTunnelId r) @ brq_nextHash r @
     brq_tunnelLayerKey r @ brq_tunnelIVKey r @ brq_replyKey r @ brq_replyIV r @ [brq_flags r] @
     be32 (brq_requestTime r) @ be32 (brq_nextMsgId r)"

definition BuildRequestRecord_compile :: "BuildRequestRecord \<Rightarrow> BuildRequestRecord" where
  "BuildRequestRecord_compile r =
     (let b = BuildRequestRecord_bytes r in r\<lparr>br_data := b @ replicate (512 - length b) 0\<rparr>)"

definition BuildRequestRecord_setTunnelId :: "u32 \<Rightarrow> BuildRequestRecord \<Rightarrow> BuildRequestRecord" where
  "BuildRequestRecord_setTunnelId x r = r\<lparr>brq_tunnelId := x\<rparr>"

definition BuildRequestRecord_setNextTunnelId :: "u32 \<Rightarrow> BuildRequestRecord \<Rightarrow> BuildRequestRecord" where
  "BuildRequestRecord_setNextTunnelId x r = r\<lparr>brq_nextTunnelId := x\<rparr>"

definition BuildRequestRecord_setLocalHash :: "bytes \<Rightarrow> BuildRequestRecord \<Rightarrow> BuildRequestRecord" where
  "BuildRequestRecord_setLocalHash x r = r\<lparr>brq_localHash := x\<rparr>"

definition BuildRequestRecord_setNextHash :: "bytes \<Rightarrow> BuildRequestRecord \<Rightarrow> BuildRequestRecord" where
  "BuildRequestRecord_setNextHash x r = r\<lparr>brq_nextHash := x\<rparr>"

definition BuildRequestRecord_setTunnelLayerKey :: "bytes \<Rightarrow> BuildRequestRecord \<Rightarrow> BuildRequestRecord" where
  "BuildRequestRecord_setTunnelLayerKey x r = r\<lparr>brq_tunnelLayerKey := x\<rparr>"

definition BuildRequestRecord_setTunnelIVKey :: "bytes \<Rightarrow> BuildRequestRecord \<Rightarrow> BuildRequestRecord" where
  "BuildRequestRecord_setTunnelIVKey x r = r\<lparr>brq_tunnelIVKey := x\<rparr>"

definition BuildRequestRecord_setReplyKey :: "bytes \<Rightarrow> BuildRequestRecord \<Rightarrow> BuildRequestRecord" where
  "BuildRequestRecord_setReplyKey x r = r\<lparr>brq_replyKey := x\<rparr>"

definition BuildRequestRecord_setReplyIV :: "bytes \<Rightarrow> BuildRequestRecord \<Rightarrow> BuildRequestRecord" where
  "BuildRequestRecord_setReplyIV x r = r\<lparr>brq_replyIV := x\<rparr>"

fun BuildRequestRecord_setType :: "request_type \<Rightarrow> BuildRequestRecord \<Rightarrow> BuildRequestRecord" where
  "BuildRequestRecord_setType GATEWAY r = r\<lparr>brq_flags := set_bit 7 (brq_flags r)\<rparr>"
| "BuildRequestRecord_setType ENDPOINT r = r\<lparr>brq_flags := set_bit 6 (brq_flags r)\<rparr>"
| "BuildRequestRecord_setType PARTICIPANT r = r\<lparr>brq_flags := 0\<rparr>"

definition BuildRequestRecord_setRequestTime :: "u32 \<Rightarrow> BuildRequestRecord \<Rightarrow> BuildRequestRecord" where
  "BuildRequestRecord_setRequestTime x r = r\<lparr>brq_requestTime := x\<rparr>"

definition BuildRequestRecord_setNextMsgId :: "u32 \<Rightarrow> BuildRequestRecord \<Rightarrow> BuildRequestRecord" where
  "BuildRequestRecord_setNextMsgId x r = r\<lparr>brq_nextMsgId := x\<rparr>"

definition BuildRequestRecord_getType :: "BuildRequestRecord \<Rightarrow> request_type" where
  "BuildRequestRecord_getType r =
     (if bit (brq_flags r) 7 then GATEWAY else if bit (brq_flags r) 6 then ENDPOINT else PARTICIPANT)"

definition BuildRequestRecord_wf :: "BuildRequestRecord \<Rightarrow> bool" where
  "BuildRequestRecord_wf r \<longleftrightarrow>
     length (brq_localHash r) = 32 \<and> length (brq_nextHash r) = 32 \<and>
     length (brq_tunnelLayerKey r) = 32 \<and> length (brq_tunnelIVKey r) = 32 \<and>
     length (brq_replyKey r) = 32 \<and> length (brq_replyIV r) = 16"

text \<open>The fields that travel in the 512 bytes.\<close>

definition same_request :: "BuildRequestRecord \<Rightarrow> BuildRequestRecord \<Rightarrow> bool" where
  "same_request r s \<longleftrightarrow>
     brq_tunnelId r = brq_tunnelId s \<and> brq_nextTunnelId r = brq_nextTunnelId s \<and>
     brq_localHash r = brq_localHash s \<and> brq_nextHash r = brq_nextHash s \<and>
     brq_tunnelLayerKey r = brq_tunnelLayerKey s \<and> brq_tunnelIVKey r = brq_tunnelIVKey s \<and>
     brq_replyKey r = brq_replyKey s \<and> brq_replyIV r = brq_replyIV s \<and> brq_flags r = brq_flags s \<and>
     brq_requestTime r = brq_requestTime s \<and> brq_nextMsgId r = brq_nextMsgId s"

lemma length_request_bytes: "BuildRequestRecord_wf r \<Longrightarrow> length (BuildRequestRecord_bytes r) = 193"
  by (simp add: BuildRequestRecord_wf_def BuildRequestRecord_bytes_def)

lemma BuildRequestRecord_read_bytes:
  assumes "BuildRequestRecord_wf r" and "has_at buf p (BuildRequestRecord_bytes r)"
  shows "\<exists>s. BuildRequestRecord_read j buf p = Inr (s, p + 193) \<and> same_request s r"
  using assms
  by (auto simp: BuildRequestRecord_read_def BuildRequestRecord_bytes_def BuildRequestRecord_wf_def
      pbind_def next_byte_def reads preturn_def has_at_Cons same_request_def add.assoc)

lemma BuildRequestRecord_parse_prefix:
  assumes "BuildRequestRecord_wf r" and "br_data j = BuildRequestRecord_bytes r @ rest"
  shows "\<exists>s. BuildRequestRecord_parse j = Inr s \<and> same_request s r"
proof -
  have "has_at (br_data j) 0 (BuildRequestRecord_bytes r)"
    using assms(2) by (simp add: has_at_def)
  from BuildRequestRecord_read_bytes [OF assms(1) this, of j] show ?thesis
    by (auto simp: BuildRequestRecord_parse_def)
qed

subsection \<open>BuildResponseRecord\<close>

text \<open>The reply codes. A parsed reply is whatever byte was received, cast to the enumeration.\<close>

datatype Reply = REPLY_SUCCESS | PROBABALISTIC_REJECT | TRANSIENT_OVERLOAD | BANDWIDTH | CRITICAL

fun Reply_code :: "Reply \<Rightarrow> byte" where
  "Reply_code REPLY_SUCCESS = 0"
| "Reply_code PROBABALISTIC_REJECT = 10"
| "Reply_code TRANSIENT_OVERLOAD = 20"
| "Reply_code BANDWIDTH = 30"
| "Reply_code CRITICAL = 50"

record BuildResponseRecord = BuildRecord +
  brs_reply :: byte

definition BuildResponseRecord_of :: "byte \<Rightarrow> 'a BuildRecord_scheme \<Rightarrow> BuildResponseRecord" where
  "BuildResponseRecord_of junk r = \<lparr>br_header = br_header r, br_data = br_data r, brs_reply = junk\<rparr>"

definition BuildResponseRecord_make :: "bytes \<Rightarrow> bytes \<Rightarrow> Reply \<Rightarrow> BuildResponseRecord" where
  "BuildResponseRecord_make junkH junkD r =
     \<lparr>br_header = junkH, br_data = junkD, brs_reply = Reply_code r\<rparr>"

definition BuildResponseRecord_parse ::
  "(bytes \<Rightarrow> bytes) \<Rightarrow> BuildResponseRecord \<Rightarrow> BuildResponseRecord result" where
  "BuildResponseRecord_parse sha256 r =
     (let calcHash = take 32 (sha256 (take 496 (drop 16 (br_data r))));
          givenHash = br_header r @ take 16 (br_data r)
      in ebind (require (givenHash = calcHash)
           (Runtime_error ''hash verification failed in BuildResponseRecord'')) (\<lambda>_.
         Inr (r\<lparr>brs_reply := br_data r ! 511\<rparr>)))"

definition BuildResponseRecord_compile ::
  "(bytes \<Rightarrow> bytes) \<Rightarrow> bytes \<Rightarrow> BuildResponseRecord \<Rightarrow> BuildResponseRecord" where
  "BuildResponseRecord_compile sha256 padding r =
     (let body = padding @ [brs_reply r];
          hash = sha256 body
      in r\<lparr>br_header := take 16 hash, br_data := take 16 (drop 16 hash) @ body\<rparr>)"

lemma BuildRecord_aes_inverse:
  assumes "BuildRecord_wf r" and "\<And>x. length x = 528 \<Longrightarrow> length (enc key iv x) = 528"
    and "\<And>x. length x = 528 \<Longrightarrow> dec key iv (enc key iv x) = x"
  shows "ebind (BuildRecord_aes enc m iv key r) (BuildRecord_aes dec m' iv key) = Inr r"
proof -
  let ?out = "enc key iv (br_header r @ br_data r)"
  have len: "length ?out = 528" using assms by (simp add: BuildRecord_wf_def)
  have "take 512 (drop 16 ?out) = drop 16 ?out" by (rule take_all) (simp add: len)
  then have "take 16 ?out @ take 512 (drop 16 ?out) = ?out"
    by (simp only: append_take_drop_id)
  with assms len show ?thesis
    by (simp add: BuildRecord_aes_def Let_def BuildRecord_wf_def)
qed

lemma BuildResponseRecord_parse_compile:
  assumes "\<And>x. length (sha256 x) = 32" and "length padding = 495"
  shows "BuildResponseRecord_parse sha256 (BuildResponseRecord_compile sha256 padding r) =
    Inr (BuildResponseRecord_compile sha256 padding r)"
  using assms
  by (simp add: BuildResponseRecord_parse_def BuildResponseRecord_compile_def Let_def nth_append
      take_add [of 16 16, simplified, symmetric])

lemma elg_roundtrip:
  assumes sha: "\<And>x. length (sha256 x) = 32"
    and size: "\<And>x. length x = 255 \<Longrightarrow> length (elg_encrypt pk x) = 512"
    and inv: "\<And>x. length x = 255 \<Longrightarrow> hd x \<noteq> 0 \<Longrightarrow> elg_decrypt sk (elg_encrypt pk x) = x"
    and "222 \<le> length (br_data r)"
    and "br_data s = br_data (BuildRecord_encrypt_elg sha256 elg_encrypt junk pk r)"
  shows "\<exists>rest. BuildRecord_decrypt_elg sha256 elg_decrypt sk s =
    Inr (s\<lparr>br_data := take 222 (br_data r) @ rest\<rparr>)"
  using assms
  by (auto simp: BuildRecord_decrypt_elg_def BuildRecord_encrypt_elg_def Let_def
      toStaticByteArray_def)

subsection \<open>Properties\<close>

text \<open>C12. A build request compiled for a hop, encrypted to the hop's ElGamal key and serialized
  is parsed, decrypted and read by that hop with every field as the creator set it, wherever in the
  message the record stands. ElGamal is assumed to give 512 bytes for a 255-byte block and to
  decrypt its own ciphertexts of blocks that start with a non-zero byte.\<close>

theorem build_request_end_to_end:
  assumes sha: "\<And>x. length (sha256 x) = 32"
    and size: "\<And>x. length x = 255 \<Longrightarrow> length (elg_encrypt pk x) = 512"
    and inv: "\<And>x. length x = 255 \<Longrightarrow> hd x \<noteq> 0 \<Longrightarrow> elg_decrypt sk (elg_encrypt pk x) = x"
    and wf: "BuildRequestRecord_wf r" and header: "length (br_header r) = 16"
    and wire: "wire = BuildRecord_serialize
      (BuildRecord_encrypt_elg sha256 elg_encrypt junk pk (BuildRequestRecord_compile r))"
  shows "\<exists>b d s. BuildRecord_parse (length pre + 528) (pre @ wire @ post) (length pre) = Inr (b, length pre + 528) \<and>
    BuildRecord_decrypt_elg sha256 elg_decrypt sk (BuildRequestRecord_of junkr b) = Inr d \<and>
    BuildRequestRecord_parse d = Inr s \<and> same_request s r"
proof -
  let ?c = "BuildRequestRecord_compile r"
  let ?e = "BuildRecord_encrypt_elg sha256 elg_encrypt junk pk ?c"
  let ?b = "\<lparr>br_header = br_header ?e, br_data = br_data ?e\<rparr>"
  have data: "br_data ?c = BuildRequestRecord_bytes r @ replicate 319 0"
    by (simp add: BuildRequestRecord_compile_def Let_def length_request_bytes [OF wf])
  have "length (br_data ?e) = 512" "length (br_header ?e) = 16"
    using sha size header length_request_bytes [OF wf]
    by (simp_all add: BuildRecord_encrypt_elg_def Let_def data toStaticByteArray_def)
      (simp add: BuildRequestRecord_compile_def Let_def)
  then have "BuildRecord_wf ?b" by (simp add: BuildRecord_wf_def)
  moreover have w: "wire = BuildRecord_serialize ?b" by (simp add: wire BuildRecord_serialize_def)
  ultimately have par: "BuildRecord_parse (length pre + 528) (pre @ wire @ post) (length pre) =
      Inr (?b, length pre + 528)"
    using BuildRecord_par_ser [of ?b "pre @ wire @ post" "length pre"] length_BuildRecord_serialize [of ?b]
    by simp
  let ?s = "BuildRequestRecord_of junkr ?b"
  obtain rest where "BuildRecord_decrypt_elg sha256 elg_decrypt sk ?s =
      Inr (?s\<lparr>br_data := take 222 (br_data ?c) @ rest\<rparr>)"
    using elg_roundtrip [of sha256 elg_encrypt pk elg_decrypt sk ?c ?s junk, OF sha size inv]
      length_request_bytes [OF wf]
    by (auto simp: data BuildRequestRecord_of_def)
  moreover have "take 222 (br_data ?c) @ rest = BuildRequestRecord_bytes r @ replicate 29 0 @ rest"
    by (simp add: data length_request_bytes [OF wf] take_replicate)
  then have "\<exists>s. BuildRequestRecord_parse (?s\<lparr>br_data := take 222 (br_data ?c) @ rest\<rparr>) = Inr s \<and>
      same_request s r"
    by (intro BuildRequestRecord_parse_prefix [OF wf]) simp
  ultimately show ?thesis using par by blast
qed

text \<open>A concrete function of the right output size, for the witnesses.\<close>

definition toy_hash :: "bytes \<Rightarrow> bytes" where
  "toy_hash x = take 32 (x @ replicate 32 0)"

lemma length_toy_hash: "length (toy_hash x) = 32"
  by (simp add: toy_hash_def)

definition sample_request :: BuildRequestRecord where
  "sample_request = \<lparr>br_header = replicate 16 1, br_data = replicate 512 0, brq_tunnelId = 7,
     brq_nextTunnelId = 8, brq_localHash = replicate 32 2, brq_nextHash = replicate 32 3,
     brq_tunnelLayerKey = replicate 32 4, brq_tunnelIVKey = replicate 32 5, brq_replyKey = replicate 32 6,
     brq_replyIV = replicate 16 7, brq_flags = 64, brq_requestTime = 99, brq_nextMsgId = 1234,
     brq_encryptionKey = replicate 256 9\<rparr>"

lemma sample_request_wf: "BuildRequestRecord_wf sample_request" "length (br_header sample_request) = 16"
  by (simp_all add: sample_request_def BuildRequestRecord_wf_def)

theorem build_request_end_to_end_witness:
  "\<exists>wire b d s. BuildRecord_parse 528 wire 0 = Inr (b, 528) \<and>
    BuildRecord_decrypt_elg toy_hash (\<lambda>k x. take 255 x) () (BuildRequestRecord_of sample_request b) = Inr d \<and>
    BuildRequestRecord_parse d = Inr s \<and> same_request s sample_request"
  using build_request_end_to_end [of toy_hash "\<lambda>k x. x @ replicate 257 0" "[]"
      "\<lambda>k x. take 255 x" "()" sample_request _ "[]" "[]" "[]" sample_request,
      OF length_toy_hash _ _ sample_request_wf refl]
  by auto

text \<open>A hop's response, encrypted under a layer of AES and decrypted again by the creator,
  parses to the reply the hop put in; parsing never accepts a record whose first 32 bytes are not
  the SHA-256 of the rest.\<close>

theorem build_response_roundtrip:
  assumes sha: "\<And>x. length (sha256 x) = 32" and pad: "length padding = 495"
    and size: "\<And>x. length x = 528 \<Longrightarrow> length (aes_encrypt key iv x) = 528"
    and inv: "\<And>x. length x = 528 \<Longrightarrow> aes_decrypt key iv (aes_encrypt key iv x) = x"
    and c: "c = BuildResponseRecord_compile sha256 padding (BuildResponseRecord_make jh jd rep)"
  shows "ebind (ebind (BuildRecord_encrypt_aes aes_encrypt iv key c) (BuildRecord_decrypt_aes aes_decrypt iv key))
      (BuildResponseRecord_parse sha256) = Inr c \<and> brs_reply c = Reply_code rep \<and>
    (\<forall>r s. BuildResponseRecord_parse sha256 r = Inr s \<longrightarrow>
       br_header r @ take 16 (br_data r) = sha256 (take 496 (drop 16 (br_data r))))"
proof (intro conjI allI impI)
  have "BuildRecord_wf c"
    using sha pad by (simp add: c BuildRecord_wf_def BuildResponseRecord_compile_def Let_def)
  then show "ebind (ebind (BuildRecord_encrypt_aes aes_encrypt iv key c) (BuildRecord_decrypt_aes aes_decrypt iv key))
      (BuildResponseRecord_parse sha256) = Inr c"
    using BuildRecord_aes_inverse [of c aes_encrypt key iv aes_decrypt] size inv
      BuildResponseRecord_parse_compile [OF sha pad]
    by (simp add: BuildRecord_encrypt_aes_def BuildRecord_decrypt_aes_def c)
  show "brs_reply c = Reply_code rep"
    by (simp add: c BuildResponseRecord_compile_def BuildResponseRecord_make_def Let_def)
  fix r s
  assume "BuildResponseRecord_parse sha256 r = Inr s"
  then show "br_header r @ take 16 (br_data r) = sha256 (take 496 (drop 16 (br_data r)))"
    using sha by (auto simp: BuildResponseRecord_parse_def Let_def inr_iff)
qed

theorem build_response_roundtrip_witness:
  "let c = BuildResponseRecord_compile toy_hash (replicate 495 3) (BuildResponseRecord_make [] [] BANDWIDTH) in
   ebind (ebind (BuildRecord_encrypt_aes (\<lambda>k iv x. rev x) [] [] c) (BuildRecord_decrypt_aes (\<lambda>k iv x. rev x) [] []))
      (BuildResponseRecord_parse toy_hash) = Inr c \<and> brs_reply c = 30"
  using build_response_roundtrip [of toy_hash "replicate 495 3"
      "\<lambda>k iv x. rev x" "[]" "[]" "\<lambda>k iv x. rev x" _ "[]" "[]" BANDWIDTH, OF length_toy_hash _ _ _ refl]
  by (simp add: Let_def)

text \<open>The hop type that \<open>setType\<close> wrote is what \<open>getType\<close> answers on a fresh record; on any record
  \<open>PARTICIPANT\<close> clears the flags, and a gateway stays one when \<open>ENDPOINT\<close> is set afterwards.\<close>

theorem request_type_flags:
  "(brq_flags r = 0 \<longrightarrow> BuildRequestRecord_getType (BuildRequestRecord_setType t r) = t) \<and>
   BuildRequestRecord_getType (BuildRequestRecord_setType PARTICIPANT r) = PARTICIPANT \<and>
   BuildRequestRecord_getType (BuildRequestRecord_setType ENDPOINT (BuildRequestRecord_setType GATEWAY r)) = GATEWAY"
  by (cases t) (simp_all add: BuildRequestRecord_getType_def bit_simps)

theorem request_type_flags_witness:
  "BuildRequestRecord_getType (BuildRequestRecord_setType ENDPOINT (sample_request\<lparr>brq_flags := 0\<rparr>)) = ENDPOINT"
  using request_type_flags [of "sample_request\<lparr>brq_flags := 0\<rparr>" ENDPOINT] by simp

end
