(* ===== verification/I2NP.thy ===== *)
theory I2NP
  imports Build_Records
begin

text \<open>
  The I2NP messages (\<open>lib/i2p/i2np\<close>): one record per message class, the \<open>compile\<close> and \<open>parse\<close>
  members, and \<open>Message::toBytes\<close> and \<open>Message::fromBytes\<close> with both headers. A shared pointer to
  a message is an option (\<open>None\<close> the null pointer); members a class leaves uninitialised come
  from a record of junk values.
\<close>

subsection \<open>Message types\<close>

datatype i2np_type =
    DB_STORE | DB_LOOKUP | DB_SEARCH_REPLY | DELIVERY_STATUS | GARLIC | TUNNEL_DATA | TUNNEL_GATEWAY
  | DATA | TUNNEL_BUILD | TUNNEL_BUILD_REPLY | VARIABLE_TUNNEL_BUILD | VARIABLE_TUNNEL_BUILD_REPLY

fun i2np_type_code :: "i2np_type \<Rightarrow> byte" where
  "i2np_type_code DB_STORE = 1"
| "i2np_type_code DB_LOOKUP = 2"
| "i2np_type_code DB_SEARCH_REPLY = 3"
| "i2np_type_code DELIVERY_STATUS = 10"
| "i2np_type_code GARLIC = 11"
| "i2np_type_code TUNNEL_DATA = 18"
| "i2np_type_code TUNNEL_GATEWAY = 19"
| "i2np_type_code DATA = 20"
| "i2np_type_code TUNNEL_BUILD = 21"
| "i2np_type_code TUNNEL_BUILD_REPLY = 22"
| "i2np_type_code VARIABLE_TUNNEL_BUILD = 23"
| "i2np_type_code VARIABLE_TUNNEL_BUILD_REPLY = 24"

subsection \<open>The message classes\<close>

text \<open>\<open>m_type\<close> is the received byte cast to \<open>DataType\<close> (0 is \<open>ROUTER_INFO\<close>, 1 is \<open>LEASE_SET\<close>).\<close>

record DatabaseStore =
  dbs_key :: bytes
  dbs_type :: byte
  dbs_replyToken :: u32
  dbs_replyTunnelId :: u32
  dbs_replyGateway :: bytes
  dbs_data :: bytes

abbreviation (input) ROUTER_INFO :: byte where "ROUTER_INFO \<equiv> 0"
abbreviation (input) LEASE_SET :: byte where "LEASE_SET \<equiv> 1"

definition DatabaseStore_make :: "DatabaseStore \<Rightarrow> bytes \<Rightarrow> byte \<Rightarrow> u32 \<Rightarrow> bytes \<Rightarrow> DatabaseStore" where
  "DatabaseStore_make junk key type replyToken data =
     junk\<lparr>dbs_key := key, dbs_type := type, dbs_replyToken := replyToken, dbs_data := data\<rparr>"

definition DatabaseStore_compile :: "DatabaseStore \<Rightarrow> bytes" where
  "DatabaseStore_compile d =
     dbs_key d @ [dbs_type d] @ be32 (dbs_replyToken d) @
     (if dbs_type d = ROUTER_INFO then be16 (of_nat (length (dbs_data d))) else []) @ dbs_data d"

definition DatabaseStore_parse :: "DatabaseStore \<Rightarrow> nat \<Rightarrow> DatabaseStore parser" where
  "DatabaseStore_parse junk e =
     pbind (next_bytes 32) (\<lambda>key.
     pbind next_byte (\<lambda>type.
     pbind parseUint32 (\<lambda>replyToken.
     pbind (if replyToken \<noteq> 0
            then pbind parseUint32 (\<lambda>tid. pbind (next_bytes 32) (\<lambda>gw. preturn (tid, gw)))
            else preturn (dbs_replyTunnelId junk, dbs_replyGateway junk)) (\<lambda>(tid, gw).
     pbind parseUint16 (\<lambda>size buf p.
     ebind (next_bytes (unat size) buf p) (\<lambda>(data, _).
     Inr (\<lparr>dbs_key = key, dbs_type = type, dbs_replyToken = replyToken, dbs_replyTunnelId = tid,
           dbs_replyGateway = gw, dbs_data = data\<rparr>, p)))))))"

record DatabaseLookup =
  dbl_key :: bytes
  dbl_from :: bytes
  dbl_sendReplyTo :: u32
  dbl_excludedPeers :: "bytes list"

definition DatabaseLookup_make :: "bytes \<Rightarrow> bytes \<Rightarrow> u32 \<Rightarrow> bytes list \<Rightarrow> DatabaseLookup" where
  "DatabaseLookup_make key from sendReplyTo excludedPeers =
     \<lparr>dbl_key = key, dbl_from = from, dbl_sendReplyTo = sendReplyTo, dbl_excludedPeers = excludedPeers\<rparr>"

definition DatabaseLookup_compile :: "DatabaseLookup \<Rightarrow> bytes" where
  "DatabaseLookup_compile d =
     dbl_key d @ dbl_from d @
     (if dbl_sendReplyTo d \<noteq> 0 then [0x01] @ be32 (dbl_sendReplyTo d) else [0x00]) @
     be16 (of_nat (length (dbl_excludedPeers d))) @ concat (dbl_excludedPeers d)"

text \<open>The parser is a stub: it returns a default-constructed message.\<close>

definition DatabaseLookup_parse :: "DatabaseLookup \<Rightarrow> nat \<Rightarrow> DatabaseLookup parser" where
  "DatabaseLookup_parse junk e = preturn (junk\<lparr>dbl_excludedPeers := []\<rparr>)"

record DatabaseSearchReply =
  dsr_key :: bytes
  dsr_hashes :: "bytes list"
  dsr_from :: bytes

definition DatabaseSearchReply_compile :: "DatabaseSearchReply \<Rightarrow> bytes" where
  "DatabaseSearchReply_compile d = []"

definition DatabaseSearchReply_parse :: "nat \<Rightarrow> DatabaseSearchReply parser" where
  "DatabaseSearchReply_parse e =
     pbind (next_bytes 32) (\<lambda>key.
     pbind next_byte (\<lambda>size.
     pbind (preplicate (unat size) (next_bytes 32)) (\<lambda>hashes.
     pbind (next_bytes 32) (\<lambda>from.
     preturn \<lparr>dsr_key = key, dsr_hashes = hashes, dsr_from = from\<rparr>))))"

text \<open>The class declares a member \<open>m_msgId\<close> of its own beside the inherited one.\<close>

record DeliveryStatus =
  dst_msgId :: u32
  dst_timestamp :: Date

definition DeliveryStatus_make :: "u32 \<Rightarrow> Date \<Rightarrow> DeliveryStatus" where
  "DeliveryStatus_make msgId timestamp = \<lparr>dst_msgId = msgId, dst_timestamp = timestamp\<rparr>"

definition DeliveryStatus_compile :: "DeliveryStatus \<Rightarrow> bytes" where
  "DeliveryStatus_compile d = be32 (dst_msgId d) @ Date_serialize (dst_timestamp d)"

definition DeliveryStatus_parse :: "nat \<Rightarrow> DeliveryStatus parser" where
  "DeliveryStatus_parse e =
     pbind parseUint32 (\<lambda>msgId.
     pbind (Date_parse e) (\<lambda>timestamp.
     preturn \<lparr>dst_msgId = msgId, dst_timestamp = timestamp\<rparr>))"

record TunnelData =
  td_tunnelId :: u32
  td_data :: bytes

definition TunnelData_make :: "u32 \<Rightarrow> bytes \<Rightarrow> TunnelData" where
  "TunnelData_make tunnelId data = \<lparr>td_tunnelId = tunnelId, td_data = data\<rparr>"

definition TunnelData_compile :: "TunnelData \<Rightarrow> bytes" where
  "TunnelData_compile d = be32 (td_tunnelId d) @ td_data d"

definition TunnelData_parse :: "nat \<Rightarrow> TunnelData parser" where
  "TunnelData_parse e =
     pbind (need e (4 + 1024) (Runtime_error ''invalid tunnel data message'')) (\<lambda>_.
     pbind parseUint32 (\<lambda>tunnelId buf p.
     ebind (next_bytes 1024 buf p) (\<lambda>(data, _).
     Inr (\<lparr>td_tunnelId = tunnelId, td_data = data\<rparr>, p))))"

record TunnelGateway =
  tg_tunnelId :: u32
  tg_data :: bytes

definition TunnelGateway_make :: "u32 \<Rightarrow> bytes \<Rightarrow> TunnelGateway" where
  "TunnelGateway_make tunnelId data = \<lparr>tg_tunnelId = tunnelId, tg_data = data\<rparr>"

definition TunnelGateway_compile :: "TunnelGateway \<Rightarrow> bytes" where
  "TunnelGateway_compile d =
     be32 (tg_tunnelId d) @ be16 (of_nat (length (tg_data d))) @ tg_data d"

definition TunnelGateway_parse :: "nat \<Rightarrow> TunnelGateway parser" where
  "TunnelGateway_parse e =
     pbind parseUint32 (\<lambda>tunnelId.
     pbind parseUint16 (\<lambda>size.
     pbind (need e (unat size) (Runtime_error ''invalid tunnel gateway message'')) (\<lambda>_ buf p.
     ebind (next_bytes (unat size) buf p) (\<lambda>(data, _).
     Inr (\<lparr>tg_tunnelId = tunnelId, tg_data = data\<rparr>, p)))))"

text \<open>Both build messages carry a list of records behind a one-byte count.\<close>

type_synonym BuildRecords = "BuildRecord list"

definition VariableTunnelBuild_compile :: "BuildRecords \<Rightarrow> bytes" where
  "VariableTunnelBuild_compile rs = [of_nat (length rs)] @ concat (map BuildRecord_serialize rs)"

definition VariableTunnelBuild_parse :: "nat \<Rightarrow> BuildRecords parser" where
  "VariableTunnelBuild_parse e =
     pbind next_byte (\<lambda>size. preplicate (unat size) (BuildRecord_parse e))"

definition VariableTunnelBuildReply_compile :: "BuildRecords \<Rightarrow> bytes" where
  "VariableTunnelBuildReply_compile rs = [of_nat (length rs)] @ concat (map BuildRecord_serialize rs)"

definition VariableTunnelBuildReply_parse :: "nat \<Rightarrow> BuildRecords parser" where
  "VariableTunnelBuildReply_parse e =
     pbind next_byte (\<lambda>size. preplicate (unat size) (BuildRecord_parse e))"

definition Garlic_compile :: "bytes" where
  "Garlic_compile = []"

definition Garlic_parse :: "nat \<Rightarrow> unit parser" where
  "Garlic_parse e = preturn ()"

subsection \<open>Message\<close>

datatype msg_body =
    DatabaseStore_body DatabaseStore
  | DatabaseLookup_body DatabaseLookup
  | DatabaseSearchReply_body DatabaseSearchReply
  | DeliveryStatus_body DeliveryStatus
  | VariableTunnelBuild_body BuildRecords
  | VariableTunnelBuildReply_body BuildRecords
  | TunnelData_body TunnelData
  | TunnelGateway_body TunnelGateway
  | Garlic_body

record Message =
  msg_id :: u32
  msg_expiration :: u32
  msg_longExpiration :: Date
  msg_body :: msg_body

record Message_junk =
  mj_store :: DatabaseStore
  mj_lookup :: DatabaseLookup
  mj_expiration :: u32

fun Message_compile :: "msg_body \<Rightarrow> bytes" where
  "Message_compile (DatabaseStore_body d) = DatabaseStore_compile d"
| "Message_compile (DatabaseLookup_body d) = DatabaseLookup_compile d"
| "Message_compile (DatabaseSearchReply_body d) = DatabaseSearchReply_compile d"
| "Message_compile (DeliveryStatus_body d) = DeliveryStatus_compile d"
| "Message_compile (VariableTunnelBuild_body rs) = VariableTunnelBuild_compile rs"
| "Message_compile (VariableTunnelBuildReply_body rs) = VariableTunnelBuildReply_compile rs"
| "Message_compile (TunnelData_body d) = TunnelData_compile d"
| "Message_compile (TunnelGateway_body d) = TunnelGateway_compile d"
| "Message_compile Garlic_body = Garlic_compile"

fun Message_getType :: "msg_body \<Rightarrow> i2np_type" where
  "Message_getType (DatabaseStore_body d) = DB_STORE"
| "Message_getType (DatabaseLookup_body d) = DB_LOOKUP"
| "Message_getType (DatabaseSearchReply_body d) = DB_SEARCH_REPLY"
| "Message_getType (DeliveryStatus_body d) = DELIVERY_STATUS"
| "Message_getType (VariableTunnelBuild_body rs) = VARIABLE_TUNNEL_BUILD"
| "Message_getType (VariableTunnelBuildReply_body rs) = VARIABLE_TUNNEL_BUILD_REPLY"
| "Message_getType (TunnelData_body d) = TUNNEL_DATA"
| "Message_getType (TunnelGateway_body d) = TUNNEL_GATEWAY"
| "Message_getType Garlic_body = GARLIC"

fun Message_getTypeString :: "msg_body \<Rightarrow> string" where
  "Message_getTypeString (DatabaseLookup_body d) = ''DBL''"
| "Message_getTypeString (DeliveryStatus_body d) = ''DS''"
| "Message_getTypeString (DatabaseStore_body d) = ''DBS''"
| "Message_getTypeString (DatabaseSearchReply_body d) = ''DBSR''"
| "Message_getTypeString (VariableTunnelBuild_body rs) = ''VTB''"
| "Message_getTypeString (VariableTunnelBuildReply_body rs) = ''VTBR''"
| "Message_getTypeString (TunnelData_body d) = ''TD''"
| "Message_getTypeString (TunnelGateway_body d) = ''TG''"
| "Message_getTypeString Garlic_body = ''G''"

text \<open>\<open>now\<close> is the clock in milliseconds, \<open>secs\<close> the same clock in seconds (as \<open>uint32_t\<close>).\<close>

definition Message_toBytes ::
  "(bytes \<Rightarrow> bytes) \<Rightarrow> u64 \<Rightarrow> u32 \<Rightarrow> bool \<Rightarrow> Message \<Rightarrow> bytes" where
  "Message_toBytes sha256 now secs standardHeader m =
     (let b = Message_compile (msg_body m) in
      [i2np_type_code (Message_getType (msg_body m))] @
      (if standardHeader
       then be32 (msg_id m) @ Date_serialize (Date_of now) @ be16 (of_nat (length b)) @
            [hd (sha256 b)] @ b
       else be32 (secs + 60) @ b))"

definition Message_body_parse :: "Message_junk \<Rightarrow> nat \<Rightarrow> byte \<Rightarrow> msg_body option parser" where
  "Message_body_parse junk e mtype =
     (if mtype = 10 then pbind (DeliveryStatus_parse e) (\<lambda>d. preturn (Some (DeliveryStatus_body d)))
      else if mtype = 2 then
        pbind (DatabaseLookup_parse (mj_lookup junk) e) (\<lambda>d. preturn (Some (DatabaseLookup_body d)))
      else if mtype = 1 then
        pbind (DatabaseStore_parse (mj_store junk) e) (\<lambda>d. preturn (Some (DatabaseStore_body d)))
      else if mtype = 3 then
        pbind (DatabaseSearchReply_parse e) (\<lambda>d. preturn (Some (DatabaseSearchReply_body d)))
      else if mtype = 23 then
        pbind (VariableTunnelBuild_parse e) (\<lambda>d. preturn (Some (VariableTunnelBuild_body d)))
      else if mtype = 24 then
        pbind (VariableTunnelBuildReply_parse e) (\<lambda>d. preturn (Some (VariableTunnelBuildReply_body d)))
      else if mtype = 18 then pbind (TunnelData_parse e) (\<lambda>d. preturn (Some (TunnelData_body d)))
      else if mtype = 19 then pbind (TunnelGateway_parse e) (\<lambda>d. preturn (Some (TunnelGateway_body d)))
      else if mtype = 11 then pbind (Garlic_parse e) (\<lambda>d. preturn (Some Garlic_body))
      else preturn None)"

text \<open>The header: message id, short expiration and long expiration.\<close>

definition Message_header_parse ::
  "Message_junk \<Rightarrow> u64 \<Rightarrow> u32 \<Rightarrow> nat \<Rightarrow> bool \<Rightarrow> (u32 \<times> u32 \<times> Date) parser" where
  "Message_header_parse junk now msgId e standardHeader =
     (if standardHeader
      then pbind parseUint32 (\<lambda>msgId'.
           pbind (Date_parse e) (\<lambda>longExpiration.
           pbind parseUint16 (\<lambda>size.
           pbind next_byte (\<lambda>checksum buf p.
           if int e - int p \<noteq> int (unat size) then Inl (Runtime_error ''error parsing I2NP message'')
           else Inr ((msgId', mj_expiration junk, longExpiration), p)))))
      else pbind parseUint32 (\<lambda>expiration. preturn (msgId, expiration, Date_of now)))"

definition Message_fromBytes ::
  "Message_junk \<Rightarrow> u64 \<Rightarrow> u32 \<Rightarrow> bytes \<Rightarrow> bool \<Rightarrow> Message option result" where
  "Message_fromBytes junk now msgId data standardHeader =
     ebind (pbind next_byte (\<lambda>mtype.
            pbind (Message_header_parse junk now msgId (length data) standardHeader) (\<lambda>h.
            pbind (Message_body_parse junk (length data) mtype) (\<lambda>b.
            preturn (map_option (\<lambda>b.
              \<lparr>msg_id = fst h, msg_expiration = fst (snd h), msg_longExpiration = snd (snd h), msg_body = b\<rparr>) b))))
            data 0)
     (\<lambda>(m, _). Inr m)"

definition Message_make :: "u32 \<Rightarrow> u32 \<Rightarrow> u64 \<Rightarrow> msg_body \<Rightarrow> Message" where
  "Message_make msgId junkExp now body =
     \<lparr>msg_id = msgId, msg_expiration = junkExp, msg_longExpiration = Date_of now, msg_body = body\<rparr>"

subsection \<open>Reading back what was compiled\<close>

text \<open>The bodies both sides of the code support: a \<open>DatabaseLookup\<close> cannot be parsed, a
  \<open>DatabaseSearchReply\<close> cannot be compiled, and a \<open>DatabaseStore\<close> is only compiled in a form its
  parser understands when it carries a router info and asks for no reply.\<close>

fun body_wf :: "Message_junk \<Rightarrow> msg_body \<Rightarrow> bool" where
  "body_wf junk (DatabaseStore_body d) \<longleftrightarrow>
     length (dbs_key d) = 32 \<and> dbs_type d = ROUTER_INFO \<and> dbs_replyToken d = 0 \<and>
     dbs_replyTunnelId d = dbs_replyTunnelId (mj_store junk) \<and>
     dbs_replyGateway d = dbs_replyGateway (mj_store junk) \<and> length (dbs_data d) < 65536"
| "body_wf junk (DatabaseLookup_body d) \<longleftrightarrow> False"
| "body_wf junk (DatabaseSearchReply_body d) \<longleftrightarrow> False"
| "body_wf junk (DeliveryStatus_body d) \<longleftrightarrow> True"
| "body_wf junk (VariableTunnelBuild_body rs) \<longleftrightarrow> length rs < 256 \<and> list_all BuildRecord_wf rs"
| "body_wf junk (VariableTunnelBuildReply_body rs) \<longleftrightarrow> length rs < 256 \<and> list_all BuildRecord_wf rs"
| "body_wf junk (TunnelData_body d) \<longleftrightarrow> length (td_data d) = 1024"
| "body_wf junk (TunnelGateway_body d) \<longleftrightarrow> length (tg_data d) < 65536"
| "body_wf junk Garlic_body \<longleftrightarrow> True"

lemma records_par_ser:
  "list_all BuildRecord_wf rs \<Longrightarrow> has_at buf p (concat (map BuildRecord_serialize rs)) \<Longrightarrow>
   p + length (concat (map BuildRecord_serialize rs)) \<le> e \<Longrightarrow>
   preplicate (length rs) (BuildRecord_parse e) buf p =
     Inr (rs, p + length (concat (map BuildRecord_serialize rs)))"
  by (rule brec.many_ser) (auto simp: list_all_iff)

lemma VariableTunnelBuild_par_ser:
  assumes "length rs < 256" and "list_all BuildRecord_wf rs"
    and "has_at buf p (VariableTunnelBuild_compile rs)" 
    and "p + length (VariableTunnelBuild_compile rs) \<le> e"
  shows "VariableTunnelBuild_parse e buf p = Inr (rs, p + length (VariableTunnelBuild_compile rs))"
  using assms
  by (auto simp: VariableTunnelBuild_parse_def VariableTunnelBuild_compile_def pbind_def next_byte_def
      has_at_Cons records_par_ser unat_of_nats)

lemma Message_body_par_ser:
  assumes "body_wf junk b" and "has_at buf p (Message_compile b)" and "p + length (Message_compile b) \<le> e"
  shows "\<exists>q. Message_body_parse junk e (i2np_type_code (Message_getType b)) buf p = Inr (Some b, q)"
proof (cases b)
  case (DatabaseStore_body d)
  with assms show ?thesis
    by (auto simp: Message_body_parse_def DatabaseStore_parse_def DatabaseStore_compile_def pbind_def
        preturn_def next_byte_def reads has_at_Cons unat_of_nats add.assoc)
next
  case (DeliveryStatus_body d)
  with assms show ?thesis
    by (auto simp: Message_body_parse_def DeliveryStatus_parse_def DeliveryStatus_compile_def pbind_def
        preturn_def reads Date_par_ser add.assoc)
next
  case (VariableTunnelBuild_body rs)
  with assms VariableTunnelBuild_par_ser [of rs buf p e] show ?thesis
    by (auto simp: Message_body_parse_def pbind_def preturn_def)
next
  case (VariableTunnelBuildReply_body rs)
  with assms VariableTunnelBuild_par_ser [of rs buf p e] show ?thesis
    by (auto simp: Message_body_parse_def pbind_def preturn_def VariableTunnelBuild_parse_def
        VariableTunnelBuildReply_parse_def VariableTunnelBuildReply_compile_def VariableTunnelBuild_compile_def)
next
  case (TunnelData_body d)
  with assms show ?thesis
    by (auto simp: Message_body_parse_def TunnelData_parse_def TunnelData_compile_def pbind_def
        preturn_def reads need_ok add.assoc)
next
  case (TunnelGateway_body d)
  with assms show ?thesis
    by (auto simp: Message_body_parse_def TunnelGateway_parse_def TunnelGateway_compile_def pbind_def
        preturn_def reads need_ok unat_of_nats add.assoc)
qed (use assms in \<open>auto simp: Message_body_parse_def Garlic_parse_def Garlic_compile_def pbind_def preturn_def\<close>)

lemma standard_header_par:
  assumes "has_at buf p (be32 mid @ Date_serialize d @ be16 (of_nat n) @ [c])" and "n < 65536"
    and "e = p + 15 + n"
  shows "Message_header_parse junk now mid' e True buf p = Inr ((mid, mj_expiration junk, d), p + 15)"
proof -
  have "uint (of_nat n :: u16) = int n"
    using assms(2) by (simp add: uint_nat unat_of_nats)
  with assms show ?thesis
    by (auto simp: Message_header_parse_def pbind_def reads Date_par_ser next_byte_def has_at_Cons
        unat_of_nats add.assoc)
qed

lemma short_header_par:
  assumes "has_at buf p (be32 x)"
  shows "Message_header_parse junk now mid e False buf p = Inr ((mid, x, Date_of now), p + 4)"
  using assms by (simp add: Message_header_parse_def pbind_def reads preturn_def)

lemma Message_fromBytes_split:
  assumes "Message_header_parse junk now mid (length data) std data 1 = Inr (h, q)"
    and "\<exists>q'. Message_body_parse junk (length data) (data ! 0) data q = Inr (Some b, q')" and "data \<noteq> []"
  shows "Message_fromBytes junk now mid data std =
    Inr (Some \<lparr>msg_id = fst h, msg_expiration = fst (snd h), msg_longExpiration = snd (snd h), msg_body = b\<rparr>)"
  using assms by (auto simp: Message_fromBytes_def pbind_def next_byte_def preturn_def)

lemma toBytes_standard_parse:
  assumes wf: "body_wf junk (msg_body m)" and size: "length (Message_compile (msg_body m)) < 65536"
    and data: "data = Message_toBytes sha256 now secs True m"
  shows "Message_fromBytes junk now' mid data True =
    Inr (Some \<lparr>msg_id = msg_id m, msg_expiration = mj_expiration junk,
      msg_longExpiration = Date_of now, msg_body = msg_body m\<rparr>)"
proof -
  let ?b = "Message_compile (msg_body m)"
  let ?h = "be32 (msg_id m) @ Date_serialize (Date_of now) @ be16 (of_nat (length ?b)) @ [hd (sha256 ?b)]"
  have data': "data = [i2np_type_code (Message_getType (msg_body m))] @ ?h @ ?b"
    by (simp add: data Message_toBytes_def Let_def)
  have len: "length data = 16 + length ?b" by (simp add: data')
  have "has_at data 1 ?h" using has_at_middle [of "[hd data]" ?h ?b] by (simp add: data')
  from standard_header_par [OF this size, of "length data" junk now' mid]
  have hdr: "Message_header_parse junk now' mid (length data) True data 1 =
      Inr ((msg_id m, mj_expiration junk, Date_of now), 16)"
    by (simp add: len)
  have "has_at data 16 ?b" using has_at_middle [of "take 16 data" ?b "[]"] by (simp add: data')
  then have body: "\<exists>q'. Message_body_parse junk (length data) (data ! 0) data 16 = Inr (Some (msg_body m), q')"
    using Message_body_par_ser [OF wf, of data 16 "length data"] by (simp add: len) (simp add: data')
  show ?thesis using Message_fromBytes_split [OF hdr body] len by fastforce
qed

lemma toBytes_short_parse:
  assumes wf: "body_wf junk (msg_body m)"
    and data: "data = Message_toBytes sha256 now secs False m"
  shows "Message_fromBytes junk now' mid data False =
    Inr (Some \<lparr>msg_id = mid, msg_expiration = secs + 60,
      msg_longExpiration = Date_of now', msg_body = msg_body m\<rparr>)"
proof -
  let ?b = "Message_compile (msg_body m)"
  have data': "data = [i2np_type_code (Message_getType (msg_body m))] @ be32 (secs + 60) @ ?b"
    by (simp add: data Message_toBytes_def Let_def)
  have len: "length data = 5 + length ?b" by (simp add: data')
  have "has_at data 1 (be32 (secs + 60))"
    using has_at_middle [of "[hd data]" "be32 (secs + 60)" ?b] by (simp add: data')
  from short_header_par [OF this, of junk now' mid "length data"]
  have hdr: "Message_header_parse junk now' mid (length data) False data 1 = Inr ((mid, secs + 60, Date_of now'), 5)"
    by simp
  have "has_at data 5 ?b" using has_at_middle [of "take 5 data" ?b "[]"] by (simp add: data')
  then have body: "\<exists>q'. Message_body_parse junk (length data) (data ! 0) data 5 = Inr (Some (msg_body m), q')"
    using Message_body_par_ser [OF wf, of data 5 "length data"] by (simp add: len) (simp add: data')
  show ?thesis using Message_fromBytes_split [OF hdr body] len by fastforce
qed

lemma hashes_par:
  "list_all (\<lambda>h. length h = 32) hs \<Longrightarrow> has_at buf p (concat hs) \<Longrightarrow>
   preplicate (length hs) (next_bytes 32) buf p = Inr (hs, p + 32 * length hs)"
  by (induction hs arbitrary: p) (auto simp: pbind_def preturn_def reads)

lemma DatabaseStore_reply_short:
  assumes "length (dbs_key d) = 32" and "dbs_replyToken d \<noteq> 0" and "dbs_type d = ROUTER_INFO"
    and "length (dbs_data d) < 36" and "has_at buf p (DatabaseStore_compile d)"
    and "length buf = p + length (DatabaseStore_compile d)"
  shows "DatabaseStore_parse junk e buf p = Inl Out_of_bounds"
  using assms
  by (auto simp: DatabaseStore_parse_def DatabaseStore_compile_def pbind_def next_byte_def reads
      has_at_Cons add.assoc) (auto simp: parseUint32_def parseUint16_def parser_defs)

subsection \<open>Properties\<close>

definition sample_junk :: Message_junk where
  "sample_junk = \<lparr>mj_store = \<lparr>dbs_key = [], dbs_type = 9, dbs_replyToken = 1, dbs_replyTunnelId = 2,
     dbs_replyGateway = [], dbs_data = []\<rparr>,
     mj_lookup = \<lparr>dbl_key = [], dbl_from = [], dbl_sendReplyTo = 0, dbl_excludedPeers = []\<rparr>,
     mj_expiration = 77\<rparr>"

definition sample_gateway :: Message where
  "sample_gateway = Message_make 0xCAFE 1 2 (TunnelGateway_body (TunnelGateway_make 9 [1, 2, 3]))"

text \<open>C21. \<open>Message::fromBytes\<close> reads back every message \<open>Message::toBytes\<close> wrote with the standard
  header: the type, the message id, the expiration and the body, for each body both members support
  and whose compiled form fits the 16-bit size field.\<close>

theorem i2np_standard_roundtrip:
  assumes "body_wf junk (msg_body m)" and "length (Message_compile (msg_body m)) < 65536"
  shows "Message_fromBytes junk now' mid (Message_toBytes sha256 now secs True m) True =
    Inr (Some \<lparr>msg_id = msg_id m, msg_expiration = mj_expiration junk,
      msg_longExpiration = Date_of now, msg_body = msg_body m\<rparr>)"
  using toBytes_standard_parse [OF assms refl] .

theorem i2np_standard_roundtrip_witness:
  "Message_fromBytes sample_junk 5 6 (Message_toBytes toy_hash 3 4 True sample_gateway) True =
    Inr (Some (sample_gateway\<lparr>msg_expiration := 77, msg_longExpiration := Date_of 3\<rparr>))"
  using i2np_standard_roundtrip [of sample_junk sample_gateway 5 6 toy_hash 3 4]
  by (simp add: sample_gateway_def Message_make_def TunnelGateway_make_def TunnelGateway_compile_def
      sample_junk_def)

text \<open>With the short header that SSU uses, the body and the expiration (the sender's clock plus 60
  seconds, modulo \<open>2 ^ 32\<close>) are read back, and the message id is the one the transport supplies.\<close>

theorem i2np_short_roundtrip:
  assumes "body_wf junk (msg_body m)"
  shows "Message_fromBytes junk now' mid (Message_toBytes sha256 now secs False m) False =
    Inr (Some \<lparr>msg_id = mid, msg_expiration = secs + 60,
      msg_longExpiration = Date_of now', msg_body = msg_body m\<rparr>)"
  using toBytes_short_parse [OF assms refl] .

theorem i2np_short_roundtrip_witness:
  "Message_fromBytes sample_junk 5 6 (Message_toBytes toy_hash 3 0xFFFFFFFF False sample_gateway) False =
    Inr (Some \<lparr>msg_id = 6, msg_expiration = 59, msg_longExpiration = Date_of 5,
      msg_body = TunnelGateway_body (TunnelGateway_make 9 [1, 2, 3])\<rparr>)"
  using i2np_short_roundtrip [of sample_junk sample_gateway 5 6 toy_hash 3 "0xFFFFFFFF"]
  by (simp add: sample_gateway_def Message_make_def TunnelGateway_make_def)

text \<open>A search reply laid out as key, count, that many 32-byte hashes, and the replying router's
  hash is parsed into exactly those hashes in order, and the reader stops behind the last byte.\<close>

theorem search_reply_parse:
  assumes "length key = 32" and "length hs < 256" and "list_all (\<lambda>h. length h = 32) hs"
    and "length from = 32"
    and "has_at buf p (key @ [of_nat (length hs)] @ concat hs @ from)"
  shows "DatabaseSearchReply_parse e buf p =
    Inr (\<lparr>dsr_key = key, dsr_hashes = hs, dsr_from = from\<rparr>, p + 65 + 32 * length hs)"
proof -
  have "length (concat hs) = 32 * length hs"
    using assms(3) by (induction hs) auto
  with assms show ?thesis
    by (auto simp: DatabaseSearchReply_parse_def pbind_def next_byte_def reads hashes_par preturn_def
        has_at_Cons unat_of_nats add.assoc)
qed

theorem search_reply_parse_witness:
  "DatabaseSearchReply_parse 129 (replicate 32 1 @ [2] @ replicate 32 3 @ replicate 32 4 @ replicate 32 5) 0 =
    Inr (\<lparr>dsr_key = replicate 32 1, dsr_hashes = [replicate 32 3, replicate 32 4], dsr_from = replicate 32 5\<rparr>, 129)"
  using search_reply_parse [of "replicate 32 1" "[replicate 32 3, replicate 32 4]" "replicate 32 5"
      "replicate 32 1 @ [2] @ replicate 32 3 @ replicate 32 4 @ replicate 32 5" 0 129]
  by (simp add: has_at_def)

text \<open>C26. \<open>DatabaseStore::compile\<close> writes no reply tunnel and gateway, which \<open>DatabaseStore::parse\<close>
  reads whenever the reply token is not zero: a store that asks for a reply and carries fewer than 36
  bytes makes the peer read past the end of the message.\<close>

theorem store_with_reply_unreadable:
  assumes "msg_body m = DatabaseStore_body d" and "length (dbs_key d) = 32" and "dbs_replyToken d \<noteq> 0"
    and "dbs_type d = ROUTER_INFO" and "length (dbs_data d) < 36"
  shows "Message_fromBytes junk now' mid (Message_toBytes sha256 now secs False m) False = Inl Out_of_bounds"
proof -
  let ?b = "DatabaseStore_compile d"
  let ?data = "Message_toBytes sha256 now secs False m"
  have data: "?data = 1 # be32 (secs + 60) @ ?b"
    using assms(1) by (simp add: Message_toBytes_def Let_def)
  have "has_at ?data 1 (be32 (secs + 60))"
    using has_at_middle [of "[1]" "be32 (secs + 60)" ?b] by (simp add: data)
  from short_header_par [OF this, of junk now' mid "length ?data"]
  have hdr: "Message_header_parse junk now' mid (length ?data) False ?data 1 = Inr ((mid, secs + 60, Date_of now'), 5)"
    by simp
  have "has_at ?data 5 ?b" using has_at_middle [of "1 # be32 (secs + 60)" ?b "[]"] by (simp add: data)
  then have "DatabaseStore_parse (mj_store junk) (length ?data) ?data 5 = Inl Out_of_bounds"
    using assms by (intro DatabaseStore_reply_short [of d]) (auto simp: data)
  then show ?thesis
    using hdr by (simp add: Message_fromBytes_def pbind_def next_byte_def Message_body_parse_def)
      (simp add: data)
qed

theorem store_with_reply_unreadable_witness:
  "Message_fromBytes sample_junk 1 2 (Message_toBytes toy_hash 3 4 False
     (Message_make 5 6 7 (DatabaseStore_body (DatabaseStore_make (mj_store sample_junk) (replicate 32 1) 0 8 [1, 2])))) False
   = Inl Out_of_bounds"
  by (rule store_with_reply_unreadable) (auto simp: Message_make_def DatabaseStore_make_def)

text \<open>C25. A message with a standard header whose size field is not the number of bytes behind the header
  is refused with an error, whatever its type and checksum; a well-framed message of a type the
  router does not implement gives a null pointer, not an error.\<close>

theorem i2np_rejects:
  assumes "data = [ty] @ be32 mid' @ Date_serialize d @ be16 n @ [c] @ body"
  shows "(length body \<noteq> unat n \<longrightarrow>
      Message_fromBytes junk now mid data True = Inl (Runtime_error ''error parsing I2NP message'')) \<and>
    (length body = unat n \<and> ty \<notin> {1, 2, 3, 10, 11, 18, 19, 23, 24} \<longrightarrow>
      Message_fromBytes junk now mid data True = Inr None)"
proof -
  have at: "has_at data 1 (be32 mid' @ Date_serialize d @ be16 n @ [c])"
    using has_at_middle [of "[ty]" "be32 mid' @ Date_serialize d @ be16 n @ [c]" body] by (simp add: assms)
  have len: "length data = 16 + length body" by (simp add: assms)
  have "Message_header_parse junk now mid (length data) True data 1 =
      (if length body \<noteq> unat n then Inl (Runtime_error ''error parsing I2NP message'')
       else Inr ((mid', mj_expiration junk, d), 16))"
    using at
    by (auto simp: Message_header_parse_def pbind_def reads Date_par_ser next_byte_def has_at_Cons len
        add.assoc simp del: of_nat_unat)
  moreover have "next_byte data 0 = Inr (ty, 1)" by (simp add: next_byte_def assms)
  moreover have "ty \<notin> {1, 2, 3, 10, 11, 18, 19, 23, 24} \<Longrightarrow>
      Message_body_parse junk (length data) ty data 16 = Inr (None, 16)"
    unfolding Message_body_parse_def by (simp add: preturn_def)
  ultimately show ?thesis
    by (simp add: Message_fromBytes_def pbind_def preturn_def del: insert_iff)
qed

theorem i2np_rejects_witness:
  "Message_fromBytes sample_junk 1 2 ([20] @ be32 3 @ Date_serialize (Date_of 4) @ be16 2 @ [0] @ [7, 7]) True = Inr None \<and>
   Message_fromBytes sample_junk 1 2 ([20] @ be32 3 @ Date_serialize (Date_of 4) @ be16 3 @ [0] @ [7, 7]) True =
     Inl (Runtime_error ''error parsing I2NP message'')"
  using i2np_rejects [where ty = 20 and mid' = 3 and d = "Date_of 4" and n = 2 and c = 0 and body = "[7, 7]"
      and junk = sample_junk and now = 1 and mid = 2, OF refl]
    i2np_rejects [where ty = 20 and mid' = 3 and d = "Date_of 4" and n = 3 and c = 0 and body = "[7, 7]"
      and junk = sample_junk and now = 1 and mid = 2, OF refl]
  by simp

end
