(* ===== verification/Search.thy ===== *)
theory Search
  imports Kademlia I2NP
begin

text \<open>
  Network database searches: \<open>SearchState\<close> (one search and its queue of alternate peers),
  \<open>SearchManager\<close> (the table of running searches and the handlers of network events) and
  \<open>DHTFacade\<close>. A handler returns the new manager, the effects it had in order, and the exception
  that ended it, if any. The database, the clock and the router's own hash are in \<open>sm_env\<close>.
\<close>

subsection \<open>SearchState\<close>

datatype CurrentState = CONNECTING | LOOKUP_SENT

text \<open>\<open>m_current\<close> is an iterator into \<open>m_alternates\<close>: a position.\<close>

record SearchState =
  ss_state :: CurrentState
  ss_current :: bytes
  ss_goal :: bytes
  ss_excluded :: "bytes list"
  ss_alternates :: "bytes list"
  ss_pos :: nat

definition SearchState_make :: "bytes \<Rightarrow> bytes \<Rightarrow> SearchState" where
  "SearchState_make goal start =
     \<lparr>ss_state = CONNECTING, ss_current = start, ss_goal = goal, ss_excluded = [],
      ss_alternates = [start], ss_pos = 0\<rparr>"

fun list_find :: "bytes list \<Rightarrow> bytes \<Rightarrow> nat" where
  "list_find [] x = 0"
| "list_find (y # ys) x = (if y = x then 0 else Suc (list_find ys x))"

definition SearchState_copy :: "SearchState \<Rightarrow> SearchState" where
  "SearchState_copy s = s\<lparr>ss_pos := list_find (ss_alternates s) (ss_current s)\<rparr>"

definition SearchState_assign :: "SearchState \<Rightarrow> SearchState \<Rightarrow> SearchState" where
  "SearchState_assign old s = old\<lparr>ss_state := ss_state s, ss_goal := ss_goal s, ss_current := ss_current s,
     ss_excluded := ss_excluded s, ss_alternates := ss_alternates s,
     ss_pos := list_find (ss_alternates s) (ss_current s)\<rparr>"

definition SearchState_isAlternate :: "bytes \<Rightarrow> SearchState \<Rightarrow> bool" where
  "SearchState_isAlternate rh s = (rh \<in> set (drop (Suc (ss_pos s)) (ss_alternates s)))"

text \<open>\<open>find(begin, m_current, rh) != end\<close>: a failed search returns \<open>m_current\<close>, not \<open>end\<close>.\<close>

definition SearchState_isTried :: "bytes \<Rightarrow> SearchState \<Rightarrow> bool" where
  "SearchState_isTried rh s =
     (let n = list_find (take (ss_pos s) (ss_alternates s)) rh in n \<noteq> length (ss_alternates s))"

definition SearchState_countAlternates :: "SearchState \<Rightarrow> nat" where
  "SearchState_countAlternates s = length (ss_alternates s) - Suc (ss_pos s)"

definition SearchState_addAlternate :: "bytes \<Rightarrow> SearchState \<Rightarrow> SearchState" where
  "SearchState_addAlternate rh s =
     (if list_find (ss_alternates s) rh = length (ss_alternates s)
      then s\<lparr>ss_alternates := ss_alternates s @ [rh]\<rparr> else s)"

definition SearchState_popAlternate :: "SearchState \<Rightarrow> SearchState" where
  "SearchState_popAlternate s =
     (if SearchState_countAlternates s \<noteq> 0
      then s\<lparr>ss_pos := Suc (ss_pos s), ss_current := ss_alternates s ! Suc (ss_pos s)\<rparr> else s)"

definition SearchState_getNext :: "SearchState \<Rightarrow> bytes result" where
  "SearchState_getNext s =
     (if Suc (ss_pos s) < length (ss_alternates s) then Inr (ss_alternates s ! Suc (ss_pos s))
      else Inl Out_of_bounds)"

text \<open>The function objects handed to \<open>modify\<close>.\<close>

definition ModifyState_state :: "CurrentState \<Rightarrow> SearchState \<Rightarrow> SearchState" where
  "ModifyState_state st s = s\<lparr>ss_state := st\<rparr>"

definition ModifyState_exclude :: "bytes \<Rightarrow> SearchState \<Rightarrow> SearchState" where
  "ModifyState_exclude rh s = s\<lparr>ss_state := CONNECTING, ss_excluded := ss_excluded s @ [rh]\<rparr>"

subsection \<open>SearchManager\<close>

text \<open>The container is a list in the order its iterators visit it; \<open>goal\<close> is a unique key, \<open>current\<close>
  is not. \<open>m_timers\<close> is the set of keys that have a timer.\<close>

record SearchManager =
  sm_searches :: "SearchState list"
  sm_timers :: "(bytes, unit) smap"
  sm_nlc :: NegativeLookupCache

datatype sm_out =
    Post_failure bytes
  | Post_success bytes bytes
  | Connect RouterInfo
  | Send_lookup bytes DatabaseLookup

text \<open>\<open>env_dangling g\<close> is what reading the key through a reference gives after the search that owned
  it was erased (\<open>cancel(ss.goal)\<close>).\<close>

record sm_env =
  env_exists :: "bytes \<Rightarrow> bool"
  env_info :: "bytes \<Rightarrow> RouterInfo result"
  env_self :: bytes
  env_now :: int
  env_sha256 :: "bytes \<Rightarrow> bytes"
  env_dangling :: "bytes \<Rightarrow> bytes"

type_synonym sm_result = "SearchManager \<times> sm_out list \<times> cpp_error option"

definition SearchManager_make :: SearchManager where
  "SearchManager_make = \<lparr>sm_searches = [], sm_timers = [], sm_nlc = NegativeLookupCache_make (5 * 3600)\<rparr>"

definition by_goal :: "bytes \<Rightarrow> SearchManager \<Rightarrow> SearchState option" where
  "by_goal k m = find (\<lambda>s. ss_goal s = k) (sm_searches m)"

definition by_current :: "bytes \<Rightarrow> SearchManager \<Rightarrow> SearchState option" where
  "by_current rh m = find (\<lambda>s. ss_current s = rh) (sm_searches m)"

definition sm_modify :: "bytes \<Rightarrow> (SearchState \<Rightarrow> SearchState) \<Rightarrow> SearchManager \<Rightarrow> SearchManager" where
  "sm_modify g f m = m\<lparr>sm_searches := map (\<lambda>s. if ss_goal s = g then f s else s) (sm_searches m)\<rparr>"

definition sm_connect :: "sm_env \<Rightarrow> bytes \<Rightarrow> SearchManager \<Rightarrow> sm_result" where
  "sm_connect env rh m =
     (case env_info env rh of Inl err \<Rightarrow> (m, [], Some err) | Inr ri \<Rightarrow> (m, [Connect ri], None))"

definition SearchManager_createSearch :: "sm_env \<Rightarrow> bytes \<Rightarrow> bytes list \<Rightarrow> SearchManager \<Rightarrow> sm_result" where
  "SearchManager_createSearch env k startingPoints m =
     (if NegativeLookupCache_contains k (sm_nlc m) then (m, [Post_failure k], None)
      else if by_goal k m \<noteq> None then (m, [], None)
      else case startingPoints of
          [] \<Rightarrow> (m, [], Some Out_of_bounds)
        | p # ps \<Rightarrow>
            let ss = fold SearchState_addAlternate ps (SearchState_make k p) in
            sm_connect env (ss_current ss)
              (m\<lparr>sm_searches := sm_searches m @ [SearchState_copy ss], sm_timers := smap_put k () (sm_timers m)\<rparr>))"

text \<open>\<open>k\<close> before the erasure and \<open>k'\<close> after it.\<close>

definition SearchManager_cancel :: "sm_env \<Rightarrow> bytes \<Rightarrow> bytes \<Rightarrow> SearchManager \<Rightarrow> sm_result" where
  "SearchManager_cancel env k k' m =
     (if by_goal k m \<noteq> None
      then (m\<lparr>sm_searches := filter (\<lambda>s. ss_goal s \<noteq> k) (sm_searches m),
              sm_timers := smap_erase k' (sm_timers m),
              sm_nlc := NegativeLookupCache_insert (env_now env) k' (sm_nlc m)\<rparr>, [Post_failure k], None)
      else (m, [], None))"

definition SearchManager_timeout :: "sm_env \<Rightarrow> bool \<Rightarrow> bytes \<Rightarrow> SearchManager \<Rightarrow> sm_result" where
  "SearchManager_timeout env e k m =
     (if e then (m, [], None) else SearchManager_cancel env k k m)"

definition SearchManager_connected :: "sm_env \<Rightarrow> bytes \<Rightarrow> SearchManager \<Rightarrow> sm_result" where
  "SearchManager_connected env rh m =
     (case by_current rh m of
        None \<Rightarrow> (m, [], None)
      | Some ss \<Rightarrow>
          if ss_state ss = CONNECTING
          then (sm_modify (ss_goal ss) (ModifyState_state LOOKUP_SENT) m,
                [Send_lookup rh (DatabaseLookup_make (ss_goal ss) (env_self env) 0 (ss_excluded ss))], None)
          else (m, [], None))"

text \<open>The loop over alternates that are not in the database: the search that stands on a known one, or
  none when they run out.\<close>

function skip_missing :: "(bytes \<Rightarrow> bool) \<Rightarrow> SearchState \<Rightarrow> SearchState option" where
  "skip_missing exists s =
     (if exists (ss_current s) then Some s
      else if SearchState_countAlternates s \<noteq> 0 then skip_missing exists (SearchState_popAlternate s)
      else None)"
  by pat_completeness auto
termination
  by (relation "measure (\<lambda>(exists, s). SearchState_countAlternates s)")
    (auto simp: SearchState_countAlternates_def SearchState_popAlternate_def)

declare skip_missing.simps [simp del]

definition SearchManager_connectionFailure :: "sm_env \<Rightarrow> bytes \<Rightarrow> SearchManager \<Rightarrow> sm_result" where
  "SearchManager_connectionFailure env rh m =
     (case by_current rh m of
        None \<Rightarrow> (m, [], None)
      | Some ss \<Rightarrow>
          let g = ss_goal ss in
          if SearchState_countAlternates ss = 0
          then SearchManager_cancel env g (env_dangling env g) m
          else case skip_missing (env_exists env) (SearchState_popAlternate ss) of
              None \<Rightarrow> SearchManager_cancel env g (env_dangling env g) m
            | Some ss' \<Rightarrow>
                sm_connect env (ss_current ss') (sm_modify g (\<lambda>_. ModifyState_exclude rh ss') m))"

definition SearchManager_searchReply ::
  "sm_env \<Rightarrow> bytes \<Rightarrow> bytes \<Rightarrow> bytes list \<Rightarrow> SearchManager \<Rightarrow> sm_result" where
  "SearchManager_searchReply env from query hashes m =
     (case by_goal query m of
        None \<Rightarrow> (m, [], None)
      | Some ss \<Rightarrow>
          if ss_state ss = LOOKUP_SENT
          then let ss1 = fold SearchState_addAlternate hashes ss; g = ss_goal ss in
            if SearchState_countAlternates ss1 = 0
            then SearchManager_cancel env g (env_dangling env g) (sm_modify g (\<lambda>_. ss1) m)
            else let ss2 = ModifyState_exclude from (SearchState_popAlternate ss1);
                     m' = sm_modify g (\<lambda>_. ss2) m in
              if \<not> env_exists env (ss_current ss2)
              then (m', [Send_lookup from
                      (DatabaseLookup_make (ss_current ss2) (env_self env) 0 (ss_excluded ss2))], None)
              else sm_connect env (ss_current ss2) m'
          else (m, [], None))"

definition SearchManager_databaseStore ::
  "sm_env \<Rightarrow> bytes \<Rightarrow> bytes \<Rightarrow> bool \<Rightarrow> SearchManager \<Rightarrow> sm_result" where
  "SearchManager_databaseStore env from k isRouterInfo m =
     (case by_goal k m of
        Some ss \<Rightarrow>
          let m' = m\<lparr>sm_searches := filter (\<lambda>s. ss_goal s \<noteq> k) (sm_searches m),
                     sm_timers := smap_erase k (sm_timers m)\<rparr> in
          if isRouterInfo
          then (case env_info env k of
                  Inl err \<Rightarrow> (m, [], Some err)
                | Inr ri \<Rightarrow> (m', [Post_success (ss_goal ss)
                    (fst (RouterIdentity_getHash (env_sha256 env) (ri_identity ri)))], None))
          else (m', [], None)
      | None \<Rightarrow>
          if \<not> isRouterInfo then (m, [], None)
          else case by_current from m of
              None \<Rightarrow> (m, [], None)
            | Some ss \<Rightarrow> if ss_current ss = k then sm_connect env k m else (m, [], None))"

subsection \<open>DHTFacade\<close>

record DHTFacade =
  df_dht :: Kademlia
  df_searchManager :: SearchManager

definition DHTFacade_make :: "(bytes \<Rightarrow> bytes) \<Rightarrow> bytes \<Rightarrow> bytes \<Rightarrow> bytes list \<Rightarrow> DHTFacade" where
  "DHTFacade_make sha256 date local hashes =
     \<lparr>df_dht = fold (\<lambda>h. Kademlia_insert (Kademlia_makeKey sha256 date h) h) hashes (Kademlia_make local),
      df_searchManager = SearchManager_make\<rparr>"

text \<open>Without a \<open>return\<close> on the path that starts the search, the returned value is \<open>junk\<close>.\<close>

definition DHTFacade_lookup ::
  "sm_env \<Rightarrow> bytes \<Rightarrow> bool \<Rightarrow> bytes \<Rightarrow> DHTFacade \<Rightarrow> bool \<times> DHTFacade \<times> sm_out list \<times> cpp_error option" where
  "DHTFacade_lookup env date junk hash f =
     (let results = Kademlia_find (Kademlia_makeKey (env_sha256 env) date hash) (df_dht f) in
      if length results < 1 then (False, f, [], None)
      else case SearchManager_createSearch env hash (map snd results) (df_searchManager f) of
             (m, out, err) \<Rightarrow> (junk, f\<lparr>df_searchManager := m\<rparr>, out, err))"

subsection \<open>Invariants of a search\<close>

definition search_ok :: "SearchState \<Rightarrow> bool" where
  "search_ok s \<longleftrightarrow> ss_pos s < length (ss_alternates s) \<and> ss_current s = ss_alternates s ! ss_pos s \<and>
     distinct (ss_alternates s)"

lemma list_find_le: "list_find xs x \<le> length xs"
  by (induction xs) auto

lemma list_find_iff: "list_find xs x = length xs \<longleftrightarrow> x \<notin> set xs"
  by (induction xs) auto

lemma list_find_nth: "distinct xs \<Longrightarrow> i < length xs \<Longrightarrow> list_find xs (xs ! i) = i"
  by (induction xs arbitrary: i) (auto simp: nth_Cons split: nat.splits)

lemma search_ok_make: "search_ok (SearchState_make g p)"
  by (simp add: search_ok_def SearchState_make_def)

lemma search_ok_add: "search_ok s \<Longrightarrow> search_ok (SearchState_addAlternate rh s)"
  by (auto simp: search_ok_def SearchState_addAlternate_def list_find_iff nth_append)

lemma search_ok_pop: "search_ok s \<Longrightarrow> search_ok (SearchState_popAlternate s)"
  by (auto simp: search_ok_def SearchState_popAlternate_def SearchState_countAlternates_def)

lemma search_ok_copy: "search_ok s \<Longrightarrow> SearchState_copy s = s"
  by (auto simp: search_ok_def SearchState_copy_def list_find_nth)

lemma search_ok_modify [simp]:
  "search_ok (ModifyState_state st s) = search_ok s" "search_ok (ModifyState_exclude rh s) = search_ok s"
  by (simp_all add: search_ok_def ModifyState_state_def ModifyState_exclude_def)

lemma search_ok_fold: "search_ok s \<Longrightarrow> search_ok (fold SearchState_addAlternate hs s)"
  by (induction hs arbitrary: s) (auto simp: search_ok_add)

lemma goal_simps [simp]:
  "ss_goal (SearchState_addAlternate rh s) = ss_goal s" "ss_goal (SearchState_popAlternate s) = ss_goal s"
  "ss_goal (ModifyState_exclude rh s) = ss_goal s" "ss_goal (ModifyState_state st s) = ss_goal s"
  "ss_goal (SearchState_copy s) = ss_goal s" "ss_goal (SearchState_make g p) = g"
  by (simp_all add: SearchState_addAlternate_def SearchState_popAlternate_def ModifyState_exclude_def
      ModifyState_state_def SearchState_copy_def SearchState_make_def)

lemma goal_fold [simp]: "ss_goal (fold SearchState_addAlternate hs s) = ss_goal s"
  by (induction hs arbitrary: s) auto

lemma skip_missing_ok:
  "skip_missing exists s = Some s' \<Longrightarrow> search_ok s \<Longrightarrow>
   search_ok s' \<and> ss_goal s' = ss_goal s \<and> exists (ss_current s') \<and> ss_pos s \<le> ss_pos s' \<and>
   ss_alternates s' = ss_alternates s \<and> (\<forall>i. ss_pos s \<le> i \<and> i < ss_pos s' \<longrightarrow> \<not> exists (ss_alternates s ! i))"
proof (induction exists s rule: skip_missing.induct)
  case (1 exists s)
  show ?case
  proof (cases "exists (ss_current s)")
    case True
    with 1 show ?thesis by (auto simp: skip_missing.simps [of exists s])
  next
    case no: False
    with "1.prems" have c: "SearchState_countAlternates s \<noteq> 0"
      and rec: "skip_missing exists (SearchState_popAlternate s) = Some s'"
      by (auto simp: skip_missing.simps [of exists s] split: if_splits)
    have "SearchState_popAlternate s =
        s\<lparr>ss_pos := Suc (ss_pos s), ss_current := ss_alternates s ! Suc (ss_pos s)\<rparr>"
      using c by (simp add: SearchState_popAlternate_def)
    with "1.IH" [OF no c rec search_ok_pop [OF "1.prems"(2)]] no "1.prems"(2) show ?thesis
      by (auto simp: search_ok_def) (metis le_antisym not_less_eq_eq)
  qed
qed

lemma skip_missing_None:
  "skip_missing exists s = None \<Longrightarrow> search_ok s \<Longrightarrow>
   \<forall>i. ss_pos s \<le> i \<and> i < length (ss_alternates s) \<longrightarrow> \<not> exists (ss_alternates s ! i)"
proof (induction exists s rule: skip_missing.induct)
  case (1 exists s)
  then have no: "\<not> exists (ss_current s)" by (auto simp: skip_missing.simps [of exists s] split: if_splits)
  have here: "\<not> exists (ss_alternates s ! ss_pos s)" using no "1.prems"(2) by (simp add: search_ok_def)
  have rest: "\<not> exists (ss_alternates s ! i)" if "Suc (ss_pos s) \<le> i" "i < length (ss_alternates s)" for i
  proof -
    from that have c: "SearchState_countAlternates s \<noteq> 0" by (simp add: SearchState_countAlternates_def)
    then have "skip_missing exists (SearchState_popAlternate s) = None"
      using "1.prems"(1) no by (simp add: skip_missing.simps [of exists s])
    from "1.IH" [OF no c this search_ok_pop [OF "1.prems"(2)]] that c show ?thesis
      by (simp add: SearchState_popAlternate_def)
  qed
  show ?case
  proof (intro allI impI)
    fix i
    assume "ss_pos s \<le> i \<and> i < length (ss_alternates s)"
    then show "\<not> exists (ss_alternates s ! i)" using here rest by (cases "i = ss_pos s") auto
  qed
qed

subsection \<open>Invariants of the manager\<close>

definition sm_inv :: "SearchManager \<Rightarrow> bool" where
  "sm_inv m \<longleftrightarrow> distinct (map ss_goal (sm_searches m)) \<and> list_all search_ok (sm_searches m)"

text \<open>Every running search has a timer, and every timer belongs to a running search.\<close>

definition timers_ok :: "SearchManager \<Rightarrow> bool" where
  "timers_ok m \<longleftrightarrow> (\<forall>k. smap_find (sm_timers m) k \<noteq> None \<longleftrightarrow> k \<in> ss_goal ` set (sm_searches m))"

definition goals :: "SearchManager \<Rightarrow> bytes set" where
  "goals m = ss_goal ` set (sm_searches m)"

lemma by_goal_Some: "by_goal k m = Some s \<Longrightarrow> s \<in> set (sm_searches m) \<and> ss_goal s = k"
  by (auto simp: by_goal_def find_Some_iff)

lemma by_current_Some: "by_current k m = Some s \<Longrightarrow> s \<in> set (sm_searches m) \<and> ss_current s = k"
  by (auto simp: by_current_def find_Some_iff)

lemma by_goal_None: "by_goal k m = None \<longleftrightarrow> k \<notin> goals m"
  by (auto simp: by_goal_def find_None_iff goals_def)

lemma sm_modify_ok:
  assumes "sm_inv m" and "\<And>s. s \<in> set (sm_searches m) \<Longrightarrow> ss_goal s = g \<Longrightarrow> search_ok (f s) \<and> ss_goal (f s) = g"
  shows "sm_inv (sm_modify g f m)"
proof -
  have "map ss_goal (sm_searches (sm_modify g f m)) = map ss_goal (sm_searches m)"
    using assms(2) by (auto simp: sm_modify_def)
  with assms(1) have "distinct (map ss_goal (sm_searches (sm_modify g f m)))" by (simp only: sm_inv_def)
  moreover have "list_all search_ok (sm_searches (sm_modify g f m))"
    using assms by (auto simp: sm_inv_def sm_modify_def list_all_iff)
  ultimately show ?thesis by (simp only: sm_inv_def)
qed

lemma sm_connect_fields:
  "sm_connect env rh m = (m', out, err) \<Longrightarrow> m' = m \<and> (\<forall>k. Post_failure k \<notin> set out) \<and> (\<forall>k v. Post_success k v \<notin> set out)"
  by (auto simp: sm_connect_def split: sum.splits)

lemma cancel_inv: "sm_inv m \<Longrightarrow> SearchManager_cancel env k k' m = (m', out, err) \<Longrightarrow> sm_inv m'"
  by (auto simp: SearchManager_cancel_def sm_inv_def list_all_iff distinct_map_filter split: if_splits)

lemma find_goal_update:
  "distinct (map ss_goal (sm_searches m)) \<Longrightarrow> s \<in> set (sm_searches m) \<Longrightarrow> by_goal (ss_goal s) m = Some s"
proof -
  assume d: "distinct (map ss_goal (sm_searches m))" and s: "s \<in> set (sm_searches m)"
  then obtain s' where s': "by_goal (ss_goal s) m = Some s'"
    by (cases "by_goal (ss_goal s) m") (auto simp: by_goal_None goals_def)
  then have "s' \<in> set (sm_searches m)" "ss_goal s' = ss_goal s" using by_goal_Some by auto
  with d s have "s' = s" by (metis distinct_map inj_onD)
  with s' show ?thesis by simp
qed

subsection \<open>The manager as a state machine\<close>

datatype sm_event =
    Create bytes "bytes list"
  | Timeout bool bytes
  | Connected bytes
  | ConnectionFailure bytes
  | SearchReply bytes bytes "bytes list"
  | Store bytes bytes bool

fun sm_handle :: "sm_env \<Rightarrow> sm_event \<Rightarrow> SearchManager \<Rightarrow> sm_result" where
  "sm_handle env (Create k ps) m = SearchManager_createSearch env k ps m"
| "sm_handle env (Timeout e k) m = SearchManager_timeout env e k m"
| "sm_handle env (Connected rh) m = SearchManager_connected env rh m"
| "sm_handle env (ConnectionFailure rh) m = SearchManager_connectionFailure env rh m"
| "sm_handle env (SearchReply from q hs) m = SearchManager_searchReply env from q hs m"
| "sm_handle env (Store from k ri) m = SearchManager_databaseStore env from k ri m"

inductive sm_reachable :: "SearchManager \<Rightarrow> bool" where
  init: "sm_reachable SearchManager_make"
| step: "sm_reachable m \<Longrightarrow> sm_handle env ev m = (m', out, err) \<Longrightarrow> sm_reachable m'"

inductive_cases sm_reachableE: "sm_reachable m"

lemma createSearch_inv:
  assumes inv: "sm_inv m" and r: "SearchManager_createSearch env k ps m = (m', out, err)"
  shows "sm_inv m'"
proof (cases "NegativeLookupCache_contains k (sm_nlc m) \<or> by_goal k m \<noteq> None \<or> ps = []")
  case True
  with inv r show ?thesis by (auto simp: SearchManager_createSearch_def split: if_splits)
next
  case False
  then obtain p qs where ps: "ps = p # qs" by (cases ps) auto
  let ?s = "fold SearchState_addAlternate qs (SearchState_make k p)"
  have ok: "search_ok ?s" by (simp add: search_ok_fold search_ok_make)
  have "m' = m\<lparr>sm_searches := sm_searches m @ [?s], sm_timers := smap_put k () (sm_timers m)\<rparr>"
    using False r ok by (auto simp: SearchManager_createSearch_def ps Let_def search_ok_copy dest: sm_connect_fields)
  with inv ok False show ?thesis by (auto simp: sm_inv_def by_goal_None goals_def)
qed

lemma connectionFailure_inv:
  assumes inv: "sm_inv m" and r: "SearchManager_connectionFailure env rh m = (m', out, err)"
  shows "sm_inv m'"
proof (cases "by_current rh m")
  case None
  with inv r show ?thesis by (simp add: SearchManager_connectionFailure_def)
next
  case (Some s)
  then have s: "search_ok s" using inv by_current_Some [OF Some] by (auto simp: sm_inv_def list_all_iff)
  show ?thesis
  proof (cases "SearchState_countAlternates s = 0")
    case True
    with Some inv r show ?thesis by (auto simp: SearchManager_connectionFailure_def Let_def intro: cancel_inv)
  next
    case c: False
    show ?thesis
    proof (cases "skip_missing (env_exists env) (SearchState_popAlternate s)")
      case None
      with Some c inv r show ?thesis by (auto simp: SearchManager_connectionFailure_def Let_def intro: cancel_inv)
    next
      case (Some s')
      with \<open>by_current rh m = Some s\<close> c r have "m' = sm_modify (ss_goal s) (\<lambda>_. ModifyState_exclude rh s') m"
        by (auto simp: SearchManager_connectionFailure_def Let_def dest: sm_connect_fields)
      moreover have "search_ok s' \<and> ss_goal s' = ss_goal s"
        using skip_missing_ok [OF Some search_ok_pop [OF s]] by simp
      ultimately show ?thesis using inv by (auto intro: sm_modify_ok)
    qed
  qed
qed

lemma searchReply_inv:
  assumes inv: "sm_inv m" and r: "SearchManager_searchReply env from q hs m = (m', out, err)"
  shows "sm_inv m'"
proof (cases "by_goal q m")
  case None
  with inv r show ?thesis by (simp add: SearchManager_searchReply_def)
next
  case (Some s)
  then have s: "search_ok s" "ss_goal s = q" using inv by_goal_Some [OF Some] by (auto simp: sm_inv_def list_all_iff)
  let ?s1 = "fold SearchState_addAlternate hs s"
  let ?s2 = "ModifyState_exclude from (SearchState_popAlternate ?s1)"
  have ok: "search_ok ?s1" "search_ok ?s2" using s by (simp_all add: search_ok_fold search_ok_pop)
  have m1: "sm_inv (sm_modify q (\<lambda>_. ?s1) m)" and m2: "sm_inv (sm_modify q (\<lambda>_. ?s2) m)"
    using ok s by (auto intro!: sm_modify_ok [OF inv])
  show ?thesis
  proof (cases "ss_state s = LOOKUP_SENT \<and> SearchState_countAlternates ?s1 = 0")
    case True
    with Some s r show ?thesis
      by (auto simp: SearchManager_searchReply_def Let_def intro: cancel_inv [OF m1])
  next
    case False
    with Some s r inv m2 show ?thesis
      by (auto simp: SearchManager_searchReply_def Let_def split: if_splits dest!: sm_connect_fields)
  qed
qed

lemma sm_handle_inv: "sm_inv m \<Longrightarrow> sm_handle env ev m = (m', out, err) \<Longrightarrow> sm_inv m'"
proof (cases ev)
  case (Timeout e k)
  then show "sm_inv m \<Longrightarrow> sm_handle env ev m = (m', out, err) \<Longrightarrow> sm_inv m'"
    by (auto simp: SearchManager_timeout_def split: if_splits intro: cancel_inv)
next
  case (Connected rh)
  then show "sm_inv m \<Longrightarrow> sm_handle env ev m = (m', out, err) \<Longrightarrow> sm_inv m'"
    by (auto simp: SearchManager_connected_def sm_inv_def list_all_iff split: option.splits if_splits
        intro!: sm_modify_ok [unfolded sm_inv_def list_all_iff])
next
  case (Store fr k ri)
  then show "sm_inv m \<Longrightarrow> sm_handle env ev m = (m', out, err) \<Longrightarrow> sm_inv m'"
    by (auto simp: SearchManager_databaseStore_def Let_def sm_inv_def list_all_iff distinct_map_filter
        split: option.splits if_splits sum.splits dest!: sm_connect_fields)
qed (auto intro: createSearch_inv connectionFailure_inv searchReply_inv)

lemma goals_modify:
  assumes "\<And>s. ss_goal s = g \<Longrightarrow> ss_goal (f s) = g"
  shows "goals (sm_modify g f m) = goals m"
proof -
  have "map ss_goal (sm_searches (sm_modify g f m)) = map ss_goal (sm_searches m)"
    using assms by (auto simp: sm_modify_def)
  then show ?thesis unfolding goals_def by (simp only: set_map [symmetric])
qed

lemma timers_modify [simp]: "sm_timers (sm_modify g f m) = sm_timers m"
  by (simp add: sm_modify_def)

lemma timers_ok_goals: "timers_ok m \<longleftrightarrow> (\<forall>k. smap_find (sm_timers m) k \<noteq> None \<longleftrightarrow> k \<in> goals m)"
  by (simp add: timers_ok_def goals_def)

lemma cancel_goals:
  "SearchManager_cancel env k k' m = (m', out, err) \<Longrightarrow>
   goals m' = goals m - {k} \<and> err = None \<and> out = (if k \<in> goals m then [Post_failure k] else []) \<and>
   (k \<in> goals m \<longrightarrow> sm_timers m' = smap_erase k' (sm_timers m)) \<and> (k \<notin> goals m \<longrightarrow> m' = m)"
  by (auto simp: SearchManager_cancel_def by_goal_None goals_def split: if_splits) 

lemma in_goals: "by_goal k m = Some s \<Longrightarrow> k \<in> goals m" "by_current rh m = Some s \<Longrightarrow> ss_goal s \<in> goals m"
  using by_goal_Some by_current_Some by (fastforce simp: goals_def)+

lemma goals_modify_const:
  "ss_goal s = g \<Longrightarrow> goals (sm_modify g (\<lambda>_. s) m) = goals m"
  by (rule goals_modify) auto

text \<open>The shape of every handler's outcome: the set of goals and the timers either stay, or gain one
  goal with its timer, or lose one goal.\<close>

text \<open>No verdict on \<open>g\<close> is posted.\<close>

definition quiet :: "bytes \<Rightarrow> sm_out list \<Rightarrow> bool" where
  "quiet g out \<longleftrightarrow> Post_failure g \<notin> set out \<and> (\<forall>h. Post_success g h \<notin> set out)"

lemma quiet_simps [simp]:
  "quiet g []" "quiet g [Post_failure k] \<longleftrightarrow> k \<noteq> g" "quiet g [Post_success k v] \<longleftrightarrow> k \<noteq> g"
  "quiet g [Connect ri]" "quiet g [Send_lookup rh d]"
  by (auto simp: quiet_def)

lemma sm_connect_goals: "sm_connect env rh m = (m', out, err) \<Longrightarrow> m' = m \<and> (\<forall>g. quiet g out)"
  by (auto simp: sm_connect_def split: sum.splits)

lemma createSearch_goals:
  "SearchManager_createSearch env k ps m = (m', out, err) \<Longrightarrow>
   (goals m' = goals m \<and> sm_timers m' = sm_timers m) \<or>
   (goals m' = insert k (goals m) \<and> sm_timers m' = smap_put k () (sm_timers m) \<and> k \<notin> goals m)"
  by (auto simp: SearchManager_createSearch_def by_goal_None Let_def goals_def split: if_splits list.splits
      dest!: sm_connect_goals)

lemma connectionFailure_goals:
  assumes inv: "sm_inv m" and r: "SearchManager_connectionFailure env rh m = (m', out, err)"
  shows "(goals m' = goals m \<and> sm_timers m' = sm_timers m \<and> (\<forall>g. quiet g out)) \<or>
    (\<exists>g \<in> goals m. goals m' = goals m - {g} \<and> sm_timers m' = smap_erase (env_dangling env g) (sm_timers m) \<and>
       out = [Post_failure g] \<and> err = None)"
proof (cases "by_current rh m")
  case None
  with r show ?thesis by (simp add: SearchManager_connectionFailure_def)
next
  case (Some s)
  let ?g = "ss_goal s"
  have s: "search_ok s" and g: "?g \<in> goals m"
    using inv by_current_Some [OF Some] by (auto simp: sm_inv_def list_all_iff goals_def)
  note pop = search_ok_pop [OF s]
  consider (gone) "SearchManager_cancel env ?g (env_dangling env ?g) m = (m', out, err)"
    | (on) s' where "SearchState_countAlternates s \<noteq> 0"
        "skip_missing (env_exists env) (SearchState_popAlternate s) = Some s'"
    using r Some by (auto simp: SearchManager_connectionFailure_def Let_def split: if_splits option.splits)
  then show ?thesis
  proof cases
    case gone
    from cancel_goals [OF gone] g show ?thesis by auto
  next
    case on
    have "ss_goal s' = ?g" using skip_missing_ok [OF on(2) pop] by simp
    with r Some on g show ?thesis
      by (auto simp: SearchManager_connectionFailure_def Let_def goals_modify_const dest!: sm_connect_goals)
  qed
qed

lemma searchReply_goals:
  assumes r: "SearchManager_searchReply env fr q hs m = (m', out, err)"
  shows "(goals m' = goals m \<and> sm_timers m' = sm_timers m \<and> (\<forall>g. quiet g out)) \<or>
    (\<exists>g \<in> goals m. goals m' = goals m - {g} \<and> sm_timers m' = smap_erase (env_dangling env g) (sm_timers m) \<and>
       out = [Post_failure g] \<and> err = None)"
proof (cases "by_goal q m")
  case None
  with r show ?thesis by (simp add: SearchManager_searchReply_def)
next
  case (Some s)
  have g: "ss_goal s = q" "q \<in> goals m" using by_goal_Some [OF Some] in_goals(1) [OF Some] by auto
  let ?s1 = "fold SearchState_addAlternate hs s"
  let ?m1 = "sm_modify q (\<lambda>_. ?s1) m"
  have m1: "goals ?m1 = goals m" using g by (intro goals_modify_const) auto
  show ?thesis
  proof (cases "ss_state s = LOOKUP_SENT \<and> SearchState_countAlternates ?s1 = 0")
    case True
    with Some g r have "SearchManager_cancel env q (env_dangling env q) ?m1 = (m', out, err)"
      by (simp add: SearchManager_searchReply_def Let_def)
    from cancel_goals [OF this] g m1 show ?thesis by auto
  next
    case False
    with Some g r show ?thesis
      by (auto simp: SearchManager_searchReply_def Let_def goals_modify_const split: if_splits
          dest!: sm_connect_goals)
  qed
qed

lemma databaseStore_goals:
  assumes "SearchManager_databaseStore env fr k ri m = (m', out, err)"
  shows "(goals m' = goals m \<and> sm_timers m' = sm_timers m) \<or>
    (k \<in> goals m \<and> goals m' = goals m - {k} \<and> sm_timers m' = smap_erase k (sm_timers m))"
proof (cases "by_goal k m")
  case None
  with assms show ?thesis
    by (auto simp: SearchManager_databaseStore_def split: if_splits option.splits dest!: sm_connect_goals)
next
  case (Some s)
  have "k \<in> goals m" "ss_goal s = k" using in_goals(1) [OF Some] by_goal_Some [OF Some] by auto
  with assms Some show ?thesis
    by (auto simp: SearchManager_databaseStore_def Let_def goals_def split: if_splits sum.splits)
qed

text \<open>What any event does to the goals and the timers.\<close>

lemma sm_handle_goals:
  assumes "sm_inv m" and "sm_handle env ev m = (m', out, err)"
  shows "(goals m' = goals m \<and> sm_timers m' = sm_timers m) \<or>
    (\<exists>k. k \<notin> goals m \<and> goals m' = insert k (goals m) \<and> sm_timers m' = smap_put k () (sm_timers m)) \<or>
    (\<exists>g x. g \<in> goals m \<and> goals m' = goals m - {g} \<and> sm_timers m' = smap_erase x (sm_timers m) \<and>
       (x = g \<or> x = env_dangling env g))"
proof (cases ev)
  case (Create k ps)
  with assms createSearch_goals [of env k ps m m' out err] show ?thesis by auto
next
  case (Timeout e k)
  show ?thesis
  proof (cases "e \<or> k \<notin> goals m")
    case True
    then have "m' = m"
      using Timeout assms cancel_goals [of env k k m m' out err] by (auto simp: SearchManager_timeout_def split: if_splits)
    then show ?thesis by simp
  next
    case False
    with Timeout assms have "SearchManager_cancel env k k m = (m', out, err)"
      by (simp add: SearchManager_timeout_def)
    from cancel_goals [OF this] False show ?thesis by auto
  qed
next
  case (Connected rh)
  with assms show ?thesis
    by (auto simp: SearchManager_connected_def goals_modify split: option.splits if_splits)
next
  case (ConnectionFailure rh)
  with assms(2) have "SearchManager_connectionFailure env rh m = (m', out, err)" by simp
  from connectionFailure_goals [OF assms(1) this] show ?thesis by blast
next
  case (SearchReply fr q hs)
  with assms(2) have "SearchManager_searchReply env fr q hs m = (m', out, err)" by simp
  from searchReply_goals [OF this] show ?thesis by blast
next
  case (Store fr k ri)
  with databaseStore_goals [of env fr k ri m m' out err] assms(2) show ?thesis by auto
qed

subsection \<open>Properties\<close>

text \<open>C31. In every state the search manager reaches, whatever events arrive and whatever the database
  answers, no key is searched twice, the current peer of a search is the one its iterator stands on, and
  no peer is queued twice. \<open>isTried\<close> answers yes for every peer in all of these states.\<close>

theorem search_invariant:
  assumes "sm_reachable m"
  shows "distinct (map ss_goal (sm_searches m)) \<and>
    list_all (\<lambda>s. search_ok s \<and> SearchState_isTried rh s) (sm_searches m)"
proof -
  have "sm_inv m" using assms
  proof (induction rule: sm_reachable.induct)
    case init
    show ?case by (simp add: sm_inv_def SearchManager_make_def)
  next
    case (step m env ev m' out err)
    then show ?case by (blast intro: sm_handle_inv)
  qed
  moreover have "SearchState_isTried rh s" if "search_ok s" for s
    using that list_find_le [of "take (ss_pos s) (ss_alternates s)" rh]
    by (auto simp: SearchState_isTried_def search_ok_def Let_def)
  ultimately show ?thesis by (auto simp: sm_inv_def list_all_iff)
qed

definition sample_env :: sm_env where
  "sample_env = \<lparr>env_exists = (\<lambda>_. True), env_info = (\<lambda>_. Inr sample_info), env_self = [9], env_now = 0,
     env_sha256 = toy_hash, env_dangling = (\<lambda>g. g)\<rparr>"

definition sample_manager :: SearchManager where
  "sample_manager = fst (SearchManager_createSearch sample_env [1] [[2], [3], [2]] SearchManager_make)"

lemma sample_manager_unfold:
  "sample_manager = \<lparr>sm_searches = [\<lparr>ss_state = CONNECTING, ss_current = [2], ss_goal = [1], ss_excluded = [],
     ss_alternates = [[2], [3]], ss_pos = 0\<rparr>], sm_timers = [([1], ())], sm_nlc = NegativeLookupCache_make 18000\<rparr>"
  by (simp add: sample_manager_def SearchManager_createSearch_def SearchManager_make_def
      NegativeLookupCache_contains_def NegativeLookupCache_make_def smap_find_def by_goal_def Let_def
      SearchState_addAlternate_def SearchState_make_def SearchState_copy_def sm_connect_def sample_env_def)

lemma sample_manager_reachable: "sm_reachable sample_manager"
proof -
  obtain out err where
    "sm_handle sample_env (Create [1] [[2], [3], [2]]) SearchManager_make = (sample_manager, out, err)"
    by (metis sample_manager_def sm_handle.simps(1) prod.collapse)
  then show ?thesis by (rule sm_reachable.step [OF sm_reachable.init])
qed

theorem search_invariant_witness:
  "sm_searches sample_manager \<noteq> [] \<and> distinct (map ss_goal (sm_searches sample_manager))"
  using search_invariant [OF sample_manager_reachable, of "[]"] by (simp add: sample_manager_unfold)

text \<open>Every running search has its timeout timer and no timer outlives its search, provided that a
  cancelled search's key still reads the same after the search is erased: \<open>cancel(ss.goal)\<close> passes a
  reference into the element it erases and uses it afterwards.\<close>

theorem search_timers:
  assumes "sm_inv m" and "timers_ok m" and "sm_handle env ev m = (m', out, err)"
    and "\<And>g. env_dangling env g = g"
  shows "timers_ok m'"
  using sm_handle_goals [OF assms(1,3)] assms(2,4)
  by (auto simp: timers_ok_goals sm.find_put sm.find_erase split: if_splits)

theorem search_timers_witness:
  "timers_ok (fst (sm_handle sample_env (ConnectionFailure [2]) sample_manager))"
proof -
  have inv: "sm_inv sample_manager" "timers_ok sample_manager"
    by (auto simp: sample_manager_unfold sm_inv_def timers_ok_def search_ok_def smap_find_def)
  obtain m' out err where "sm_handle sample_env (ConnectionFailure [2]) sample_manager = (m', out, err)"
    by (metis prod_cases3)
  with search_timers [OF inv this] show ?thesis by (simp add: sample_env_def)
qed

text \<open>When the connection to a search's current peer fails, the manager moves to the first later
  alternate that is in the database: it skips exactly the unknown ones, excludes the failed peer, goes
  back to connecting and asks the transport for that peer. When no later alternate is known the search
  fails. The position strictly advances, so a search survives fewer failures than it has alternates.\<close>

theorem failure_tries_next:
  assumes inv: "sm_inv m" and s: "by_current rh m = Some s"
    and r: "SearchManager_connectionFailure env rh m = (m', out, err)"
  shows "if \<exists>i. ss_pos s < i \<and> i < length (ss_alternates s) \<and> env_exists env (ss_alternates s ! i)
    then \<exists>s'. by_goal (ss_goal s) m' = Some s' \<and> ss_pos s < ss_pos s' \<and> ss_alternates s' = ss_alternates s \<and>
         env_exists env (ss_current s') \<and> ss_current s' = ss_alternates s ! ss_pos s' \<and>
         (\<forall>i. ss_pos s < i \<and> i < ss_pos s' \<longrightarrow> \<not> env_exists env (ss_alternates s ! i)) \<and>
         ss_state s' = CONNECTING \<and> last (ss_excluded s') = rh \<and>
         (\<forall>ri. env_info env (ss_current s') = Inr ri \<longrightarrow> out = [Connect ri] \<and> err = None)
    else ss_goal s \<notin> goals m' \<and> out = [Post_failure (ss_goal s)] \<and> err = None"
proof -
  let ?g = "ss_goal s"
  have ok: "search_ok s" and g: "?g \<in> goals m" and mem: "s \<in> set (sm_searches m)"
    using inv by_current_Some [OF s] by (auto simp: sm_inv_def list_all_iff goals_def)
  show ?thesis
  proof (cases "\<exists>i. ss_pos s < i \<and> i < length (ss_alternates s) \<and> env_exists env (ss_alternates s ! i)")
    case True
    then obtain i where i: "ss_pos s < i" "i < length (ss_alternates s)" "env_exists env (ss_alternates s ! i)" by blast
    then have c: "SearchState_countAlternates s \<noteq> 0" by (simp add: SearchState_countAlternates_def)
    have pop: "ss_pos (SearchState_popAlternate s) = Suc (ss_pos s)"
      "ss_alternates (SearchState_popAlternate s) = ss_alternates s"
      using c by (simp_all add: SearchState_popAlternate_def)
    obtain u where u: "skip_missing (env_exists env) (SearchState_popAlternate s) = Some u"
      using skip_missing_None [OF _ search_ok_pop [OF ok], of "env_exists env"] i pop by fastforce
    note uok = skip_missing_ok [OF u search_ok_pop [OF ok]]
    have con: "sm_connect env (ss_current u) (sm_modify ?g (\<lambda>_. ModifyState_exclude rh u) m) = (m', out, err)"
      using r s c u by (simp add: SearchManager_connectionFailure_def Let_def)
    then have m': "m' = sm_modify ?g (\<lambda>_. ModifyState_exclude rh u) m" using sm_connect_goals by blast
    have "ModifyState_exclude rh u \<in> set (sm_searches m')"
      using mem by (auto simp: m' sm_modify_def)
    moreover have "sm_inv m'" using inv r by (rule connectionFailure_inv)
    ultimately have "by_goal ?g m' = Some (ModifyState_exclude rh u)"
      using find_goal_update [of m' "ModifyState_exclude rh u"] uok by (simp add: sm_inv_def)
    with True uok pop con show ?thesis
      by (auto simp: ModifyState_exclude_def search_ok_def sm_connect_def)
  next
    case False
    have "SearchManager_cancel env ?g (env_dangling env ?g) m = (m', out, err)"
    proof (cases "SearchState_countAlternates s = 0")
      case True
      with r s show ?thesis by (simp add: SearchManager_connectionFailure_def Let_def)
    next
      case c: False
      have "skip_missing (env_exists env) (SearchState_popAlternate s) = None"
      proof (cases "skip_missing (env_exists env) (SearchState_popAlternate s)")
        case (Some u)
        with skip_missing_ok [OF Some search_ok_pop [OF ok]] False c show ?thesis
          by (auto simp: SearchState_popAlternate_def search_ok_def Suc_le_eq)
      qed
      with r s c show ?thesis by (simp add: SearchManager_connectionFailure_def Let_def)
    qed
    with cancel_goals [OF this] False g show ?thesis by auto
  qed
qed

theorem failure_tries_next_witness:
  "\<exists>m' s'. SearchManager_connectionFailure sample_env [2] sample_manager = (m', [Connect sample_info], None) \<and>
     by_goal [1] m' = Some s' \<and> ss_current s' = [3]"
proof -
  have inv: "sm_inv sample_manager"
    by (auto simp: sample_manager_unfold sm_inv_def search_ok_def)
  define s where "s = hd (sm_searches sample_manager)"
  have s: "by_current [2] sample_manager = Some s" "ss_pos s = 0" "ss_alternates s = [[2], [3]]" "ss_goal s = [1]"
    by (simp_all add: sample_manager_unfold s_def by_current_def)
  obtain m' out err where r: "SearchManager_connectionFailure sample_env [2] sample_manager = (m', out, err)"
    by (metis prod_cases3)
  have "\<exists>i. ss_pos s < i \<and> i < length (ss_alternates s) \<and> env_exists sample_env (ss_alternates s ! i)"
    by (rule exI [of _ 1]) (simp add: s sample_env_def)
  with failure_tries_next [OF inv s(1) r] s obtain s' where s': "by_goal [1] m' = Some s'" "0 < ss_pos s'"
    "ss_alternates s' = [[2], [3]]" "ss_current s' = [[2], [3]] ! ss_pos s'" "out = [Connect sample_info]" "err = None"
    by (auto simp: sample_env_def)
  have "sm_inv m'" using inv r by (rule connectionFailure_inv)
  then have "ss_pos s' < 2" using by_goal_Some [OF s'(1)] s'(3) by (auto simp: sm_inv_def list_all_iff search_ok_def)
  with s'(2) have "ss_pos s' = 1" by simp
  with r s' show ?thesis by auto
qed

text \<open>A router info that arrives for a peer a search waits for, but is not itself a search goal,
  leads to a connection only when the router that sent it is that very peer: the handler looks up the search
  by the sender instead of the stored key, so the answer to its own request for an unknown peer's router info
  is dropped.\<close>

theorem store_reply_ignored:
  assumes "k \<notin> goals m" and "from \<noteq> k"
  shows "SearchManager_databaseStore env from k isRouterInfo m = (m, [], None)"
  using assms by_current_Some [of "from" m]
  by (auto simp: SearchManager_databaseStore_def by_goal_None [symmetric] split: option.splits)

theorem store_reply_ignored_witness:
  "SearchManager_databaseStore sample_env [7] [2] True sample_manager = (sample_manager, [], None)"
  by (rule store_reply_ignored) (simp_all add: sample_manager_unfold goals_def)

text \<open>The events that end a running search: its timeout; a failed connection to its current peer when no
  later alternate is in the database; a reply to its lookup that leaves it without alternates; and a store
  under its key, of a lease set or of a router info that can be read back.\<close>

fun search_ends :: "sm_env \<Rightarrow> sm_event \<Rightarrow> SearchState \<Rightarrow> SearchManager \<Rightarrow> bool" where
  "search_ends env (Timeout e k) s m \<longleftrightarrow> \<not> e \<and> k = ss_goal s"
| "search_ends env (ConnectionFailure rh) s m \<longleftrightarrow> by_current rh m = Some s \<and>
     \<not> (\<exists>i. ss_pos s < i \<and> i < length (ss_alternates s) \<and> env_exists env (ss_alternates s ! i))"
| "search_ends env (SearchReply from q hs) s m \<longleftrightarrow> q = ss_goal s \<and> ss_state s = LOOKUP_SENT \<and>
     Suc (ss_pos s) = length (ss_alternates s) \<and> set hs \<subseteq> set (ss_alternates s)"
| "search_ends env (Store from k isRouterInfo) s m \<longleftrightarrow> k = ss_goal s \<and> (isRouterInfo \<longrightarrow> \<not> isl (env_info env k))"
| "search_ends env _ s m \<longleftrightarrow> False"

text \<open>What is posted about it then: success with the hash of the router info that was stored, nothing for
  a lease set, and failure otherwise.\<close>

fun final_verdict :: "sm_env \<Rightarrow> sm_event \<Rightarrow> bytes \<Rightarrow> sm_out list" where
  "final_verdict env (Store from k True) g =
     (case env_info env k of
        Inl err \<Rightarrow> []
      | Inr ri \<Rightarrow> [Post_success g (fst (RouterIdentity_getHash (env_sha256 env) (ri_identity ri)))])"
| "final_verdict env (Store from k False) g = []"
| "final_verdict env _ g = [Post_failure g]"

lemma alternates_fold:
  "set (ss_alternates (fold SearchState_addAlternate hs s)) = set (ss_alternates s) \<union> set hs \<and>
   ss_pos (fold SearchState_addAlternate hs s) = ss_pos s"
  by (induction hs arbitrary: s) (auto simp: SearchState_addAlternate_def list_find_iff)

lemma alternates_exhausted:
  assumes "search_ok s"
  shows "SearchState_countAlternates (fold SearchState_addAlternate hs s) = 0 \<longleftrightarrow>
    Suc (ss_pos s) = length (ss_alternates s) \<and> set hs \<subseteq> set (ss_alternates s)"
proof -
  let ?t = "fold SearchState_addAlternate hs s"
  have "search_ok ?t" by (rule search_ok_fold [OF assms])
  then have card: "length (ss_alternates ?t) = card (set (ss_alternates s) \<union> set hs)"
    "length (ss_alternates s) = card (set (ss_alternates s))"
    using assms alternates_fold [of hs s] by (auto simp: search_ok_def distinct_card [symmetric])
  have "card (set (ss_alternates s)) \<le> card (set (ss_alternates s) \<union> set hs)" by (intro card_mono) auto
  moreover have "card (set (ss_alternates s) \<union> set hs) = card (set (ss_alternates s)) \<longleftrightarrow> set hs \<subseteq> set (ss_alternates s)"
    using card_subset_eq [of "set (ss_alternates s) \<union> set hs" "set (ss_alternates s)"] by (auto simp: Un_absorb2)
  ultimately show ?thesis
    using assms alternates_fold [of hs s] card by (auto simp: SearchState_countAlternates_def search_ok_def)
qed

lemma searchReply_only:
  assumes "SearchManager_searchReply env from q hs m = (m', out, err)"
  shows "goals m - {q} \<subseteq> goals m' \<and> (\<forall>g. g \<noteq> q \<longrightarrow> quiet g out)"
proof (cases "by_goal q m")
  case (Some s)
  then have g: "ss_goal s = q" using by_goal_Some by blast
  let ?s1 = "fold SearchState_addAlternate hs s"
  have m1: "goals (sm_modify q (\<lambda>_. ?s1) m) = goals m" using g by (intro goals_modify_const) simp
  show ?thesis
  proof (cases "ss_state s = LOOKUP_SENT \<and> SearchState_countAlternates ?s1 = 0")
    case True
    then have "SearchManager_cancel env q (env_dangling env q) (sm_modify q (\<lambda>_. ?s1) m) = (m', out, err)"
      using assms Some g by (simp add: SearchManager_searchReply_def Let_def)
    from cancel_goals [OF this] m1 show ?thesis by auto
  next
    case False
    then show ?thesis
      using assms Some g
      by (auto simp: SearchManager_searchReply_def Let_def goals_modify_const split: if_splits dest!: sm_connect_goals)
  qed
qed (use assms in \<open>simp add: SearchManager_searchReply_def\<close>)

text \<open>One event, seen from one running search: it goes on without a verdict, or ends with the final one
  and no other search ends with it.\<close>

definition settles :: "sm_env \<Rightarrow> sm_event \<Rightarrow> SearchState \<Rightarrow> SearchManager \<Rightarrow> sm_result \<Rightarrow> bool" where
  "settles env ev s m = (\<lambda>(m', out, err).
     if search_ends env ev s m
     then goals m' = goals m - {ss_goal s} \<and> out = final_verdict env ev (ss_goal s) \<and> err = None
     else ss_goal s \<in> goals m' \<and> quiet (ss_goal s) out)"

lemma timeout_settles:
  assumes "by_goal g m = Some s"
  shows "settles env (Timeout e k) s m (sm_handle env (Timeout e k) m)"
proof -
  obtain m' out err where r: "SearchManager_cancel env k k m = (m', out, err)" by (metis prod_cases3)
  show ?thesis
    using in_goals(1) [OF assms] by_goal_Some [OF assms] r cancel_goals [OF r]
    by (auto simp: settles_def SearchManager_timeout_def)
qed

lemma removed_goal:
  assumes "sm_inv m" "by_current rh m = Some u" "SearchManager_connectionFailure env rh m = (m', out, err)"
    and "k \<in> goals m" "k \<notin> goals m'"
  shows "ss_goal u = k"
proof -
  have "search_ok u" using assms(1) by_current_Some [OF assms(2)] by (auto simp: sm_inv_def list_all_iff)
  then have "goals m - {ss_goal u} \<subseteq> goals m'"
    using assms(3) assms(2) skip_missing_ok [OF _ search_ok_pop]
    by (auto simp: SearchManager_connectionFailure_def Let_def goals_modify_const split: if_splits option.splits
        dest!: sm_connect_goals cancel_goals)
  then show ?thesis using assms(4,5) by blast
qed

lemma connectionFailure_settles:
  assumes inv: "sm_inv m" and s: "by_goal g m = Some s"
  shows "settles env (ConnectionFailure rh) s m (sm_handle env (ConnectionFailure rh) m)"
proof (cases "by_current rh m")
  case None
  then show ?thesis
    using in_goals(1) [OF s] by_goal_Some [OF s] by (auto simp: settles_def SearchManager_connectionFailure_def)
next
  case (Some u)
  obtain m' out err where r: "SearchManager_connectionFailure env rh m = (m', out, err)" by (metis prod_cases3)
  have g: "ss_goal s = g" "g \<in> goals m" using in_goals(1) [OF s] by_goal_Some [OF s] by auto
  have u: "by_goal (ss_goal u) m = Some u"
    using inv by_current_Some [OF Some] by (intro find_goal_update) (auto simp: sm_inv_def)
  define left where "left \<longleftrightarrow> (\<exists>i. ss_pos u < i \<and> i < length (ss_alternates u) \<and> env_exists env (ss_alternates u ! i))"
  have ends: "search_ends env (ConnectionFailure rh) s m \<longleftrightarrow> u = s \<and> \<not> left" using Some by (auto simp: left_def)
  have on: "left \<longleftrightarrow> ss_goal u \<in> goals m'"
  proof (cases left)
    case True
    with failure_tries_next [OF inv Some r] obtain s' where "by_goal (ss_goal u) m' = Some s'"
      unfolding left_def [symmetric] by (simp only: if_True) blast
    then show ?thesis using True in_goals(1) by simp
  next
    case False
    with failure_tries_next [OF inv Some r] show ?thesis unfolding left_def [symmetric] by (simp only: if_False)
  qed
  have "if u = s \<and> \<not> left then goals m' = goals m - {g} \<and> out = [Post_failure g] \<and> err = None
      else g \<in> goals m' \<and> quiet g out"
    using connectionFailure_goals [OF inv r]
  proof (elim disjE bexE conjE)
    fix k
    assume k: "k \<in> goals m" "goals m' = goals m - {k}" "out = [Post_failure k]" "err = None"
    have "\<not> left \<and> ss_goal u = k" using removed_goal [OF inv Some r, of k] k on by auto
    then show ?thesis using k(2-4) g u s by (cases "k = g") auto
  next
    assume "goals m' = goals m" "\<forall>g. quiet g out"
    then show ?thesis using g on in_goals(1) [OF u] by simp
  qed
  then show ?thesis using ends r g by (simp add: settles_def)
qed

lemma searchReply_settles:
  assumes inv: "sm_inv m" and s: "by_goal g m = Some s"
  shows "settles env (SearchReply from q hs) s m (sm_handle env (SearchReply from q hs) m)"
proof (cases "q = g \<and> ss_state s = LOOKUP_SENT \<and> SearchState_countAlternates (fold SearchState_addAlternate hs s) = 0")
  case True
  let ?m1 = "sm_modify g (\<lambda>_. fold SearchState_addAlternate hs s) m"
  have g: "ss_goal s = g" "g \<in> goals m" using in_goals(1) [OF s] by_goal_Some [OF s] by auto
  then have m1: "goals ?m1 = goals m" by (intro goals_modify_const) simp
  obtain m' out err where r: "SearchManager_cancel env g (env_dangling env g) ?m1 = (m', out, err)" by (metis prod_cases3)
  have "search_ok s" using inv by_goal_Some [OF s] by (auto simp: sm_inv_def list_all_iff)
  then have "search_ends env (SearchReply from q hs) s m" using True g by (simp add: alternates_exhausted)
  then show ?thesis
    using r cancel_goals [OF r] True g m1 s by (simp add: settles_def SearchManager_searchReply_def Let_def)
next
  case False
  obtain m' out err where r: "SearchManager_searchReply env from q hs m = (m', out, err)" by (metis prod_cases3)
  have g: "ss_goal s = g" "g \<in> goals m" using in_goals(1) [OF s] by_goal_Some [OF s] by auto
  have ok: "search_ok s" using inv by_goal_Some [OF s] by (auto simp: sm_inv_def list_all_iff)
  have ends: "\<not> search_ends env (SearchReply from q hs) s m" using False g by (auto simp: alternates_exhausted [OF ok])
  have "g \<in> goals m' \<and> quiet g out"
  proof (cases "q = g")
    case True
    then show ?thesis
      using r False s g
      by (auto simp: SearchManager_searchReply_def Let_def goals_modify_const split: if_splits dest!: sm_connect_goals)
  next
    case other: False
    have "goals m - {q} \<subseteq> goals m'" "quiet g out"
      using searchReply_only [OF r] other by auto
    then show ?thesis using g other by auto
  qed
  then show ?thesis using ends r g by (auto simp: settles_def)
qed

lemma databaseStore_settles:
  assumes s: "by_goal g m = Some s"
  shows "settles env (Store from k ri) s m (sm_handle env (Store from k ri) m)"
proof -
  have g: "ss_goal s = g" "g \<in> goals m" using in_goals(1) [OF s] by_goal_Some [OF s] by auto
  show ?thesis
  proof (cases "k = g")
    case True
    then show ?thesis
      using s g by (cases ri) (auto simp: settles_def SearchManager_databaseStore_def Let_def goals_def split: sum.splits)
  next
    case False
    obtain m' out err where r: "SearchManager_databaseStore env from k ri m = (m', out, err)" by (metis prod_cases3)
    have "goals m - {k} \<subseteq> goals m'" using databaseStore_goals [OF r] by auto
    moreover have "quiet g out"
      using r False by_goal_Some [of k m]
      by (auto simp: SearchManager_databaseStore_def Let_def split: option.splits if_splits sum.splits dest!: sm_connect_goals)
    ultimately show ?thesis using r False g by (auto simp: settles_def)
  qed
qed

lemma handle_settles:
  assumes "sm_inv m" and s: "by_goal g m = Some s" and "\<nexists>k ps. ev = Create k ps"
  shows "settles env ev s m (sm_handle env ev m)"
proof (cases ev)
  case (Connected rh)
  then show ?thesis
    using in_goals(1) [OF s] by_goal_Some [OF s]
    by (auto simp: settles_def SearchManager_connected_def goals_modify split: option.splits if_splits)
qed (use assms timeout_settles connectionFailure_settles searchReply_settles databaseStore_settles in auto)

text \<open>C32. Which events end a running search, and with which verdict. It ends exactly when it times out, when
  the connection to its current peer fails and no later alternate is in the database, when a reply to
  its lookup leaves it without alternates, or when something is stored under its key. The store of a
  router info posts success with the hash of that info, if it can be read from the database; the store
  of a lease set posts nothing; in all other cases exactly one failure for its key is posted. No other
  search ends with it. As long as it runs, no success and no failure is posted for its key, except that
  a new request for a key in the negative cache is answered with a failure.\<close>

theorem search_verdict:
  assumes "sm_inv m" and "by_goal g m = Some s" and "sm_handle env ev m = (m', out, err)"
  shows "if search_ends env ev s m
    then goals m' = goals m - {g} \<and> out = final_verdict env ev g \<and> err = None
    else g \<in> goals m' \<and> (\<forall>h. Post_success g h \<notin> set out) \<and>
      (Post_failure g \<in> set out \<longleftrightarrow> (\<exists>ps. ev = Create g ps) \<and> NegativeLookupCache_contains g (sm_nlc m))"
proof (cases "\<exists>k ps. ev = Create k ps")
  case True
  then obtain k ps where ev: "ev = Create k ps" by blast
  have "g \<in> goals m" by (rule in_goals(1) [OF assms(2)])
  then show ?thesis
    using assms(2,3) createSearch_goals [of env k ps m m' out err] ev
    by (auto simp: SearchManager_createSearch_def sm_connect_def Let_def split: if_splits list.splits sum.splits)
next
  case False
  then show ?thesis
    using handle_settles [OF assms(1,2) False, of env] by_goal_Some [OF assms(2)] assms(3)
    by (auto simp: settles_def quiet_def split: if_splits)
qed

theorem search_verdict_witness:
  "\<exists>m' m''. sm_handle sample_env (Timeout False [1]) sample_manager = (m', [Post_failure [1]], None) \<and> [1] \<notin> goals m' \<and>
     sm_handle sample_env (Store [4] [1] True) sample_manager =
       (m'', [Post_success [1] (fst (RouterIdentity_getHash toy_hash (ri_identity sample_info)))], None) \<and> [1] \<notin> goals m''"
proof -
  have inv: "sm_inv sample_manager"
    by (auto simp: sample_manager_unfold sm_inv_def search_ok_def)
  obtain s where s: "by_goal [1] sample_manager = Some s" "ss_goal s = [1]"
    by (simp add: sample_manager_unfold by_goal_def)
  obtain m' out err m'' out' err' where r: "sm_handle sample_env (Timeout False [1]) sample_manager = (m', out, err)"
    "sm_handle sample_env (Store [4] [1] True) sample_manager = (m'', out', err')" by (metis prod_cases3)
  show ?thesis
    using search_verdict [OF inv s(1) r(1)] search_verdict [OF inv s(1) r(2)] r s(2)
    by (simp add: sample_env_def)
qed

end
