(* ===== verification/Crypto_Util.thy ===== *)
theory Crypto_Util
  imports Byte_Array
begin

text \<open>
  The helpers of \<open>lib/util\<close> that the rest of the program depends on: \<open>Base64.cpp\<close> (I2P's
  alphabet) and \<open>I2PHMAC.cpp\<close> with the \<open>xor_buf\<close> it uses. Strings are byte lists.
\<close>

subsection \<open>Base64\<close>

definition b64chars :: bytes where
  "b64chars = map of_nat ([65..<91] @ [97..<123] @ [48..<58] @ [45, 126])"

text \<open>\<open>isalnum\<close> in the C locale, or \<open>-\<close>, or \<open>~\<close>.\<close>

definition is_base64 :: "byte \<Rightarrow> bool" where
  "is_base64 c \<longleftrightarrow> (48 \<le> c \<and> c \<le> 57) \<or> (65 \<le> c \<and> c \<le> 90) \<or> (97 \<le> c \<and> c \<le> 122) \<or>
     c = 0x2D \<or> c = 0x7E"

text \<open>\<open>char_array_4\<close> from \<open>char_array_3\<close>, and back.\<close>

definition quad :: "byte \<Rightarrow> byte \<Rightarrow> byte \<Rightarrow> bytes" where
  "quad a b c =
     [drop_bit 2 (a AND 0xFC),
      push_bit 4 (a AND 0x03) + drop_bit 4 (b AND 0xF0),
      push_bit 2 (b AND 0x0F) + drop_bit 6 (c AND 0xC0),
      c AND 0x3F]"

definition triple :: "byte \<Rightarrow> byte \<Rightarrow> byte \<Rightarrow> byte \<Rightarrow> bytes" where
  "triple a b c d =
     [push_bit 2 a + drop_bit 4 (b AND 0x30),
      push_bit 4 (b AND 0x0F) + drop_bit 2 (c AND 0x3C),
      push_bit 6 (c AND 0x03) + d]"

definition b64_at :: "byte \<Rightarrow> byte" where
  "b64_at i = b64chars ! unat i"

text \<open>\<open>static_cast<unsigned char>(b64chars.find(c))\<close>: the position, or the low byte of \<open>npos\<close>.\<close>

fun position :: "bytes \<Rightarrow> byte \<Rightarrow> nat option" where
  "position [] c = None"
| "position (x # xs) c = (if x = c then Some 0 else map_option Suc (position xs c))"

definition b64_find :: "byte \<Rightarrow> byte" where
  "b64_find c = (case position b64chars c of Some n \<Rightarrow> of_nat n | None \<Rightarrow> 255)"

text \<open>The encoder's loop: \<open>char_array_3[0..i)\<close>, the rest of the data, and \<open>ret\<close>.\<close>

fun encode_loop :: "bytes \<Rightarrow> bytes \<Rightarrow> bytes \<Rightarrow> bytes \<times> bytes" where
  "encode_loop ca3 [] ret = (ca3, ret)"
| "encode_loop ca3 (d # ds) ret =
     (let ca3' = ca3 @ [d] in
      if length ca3' = 3
      then encode_loop [] ds (ret @ map b64_at (quad (ca3' ! 0) (ca3' ! 1) (ca3' ! 2)))
      else encode_loop ca3' ds ret)"

definition encode :: "bytes \<Rightarrow> bytes" where
  "encode data =
     (let (ca3, ret) = encode_loop [] data []; i = length ca3 in
      if i \<noteq> 0
      then let full = ca3 @ replicate (3 - i) 0; ca4 = quad (full ! 0) (full ! 1) (full ! 2) in
           ret @ map b64_at (take (i + 1) ca4) @ replicate (3 - i) 0x3D
      else ret)"

text \<open>The decoder's loop ends at the first byte that is padding or outside the alphabet. Its counters are of type
  \<open>int\<close>: texts of 2 GiB or more, for which they would overflow, are outside the model.\<close>

fun decode_loop :: "bytes \<Rightarrow> bytes \<Rightarrow> bytes \<Rightarrow> bytes \<times> bytes" where
  "decode_loop ca4 [] ret = (ca4, ret)"
| "decode_loop ca4 (c # cs) ret =
     (if c \<noteq> 0x3D \<and> is_base64 c
      then let ca4' = ca4 @ [c] in
           if length ca4' = 4
           then let v = map b64_find ca4' in
                decode_loop [] cs (ret @ triple (v ! 0) (v ! 1) (v ! 2) (v ! 3))
           else decode_loop ca4' cs ret
      else (ca4, ret))"

definition decode :: "bytes \<Rightarrow> bytes" where
  "decode s =
     (let (ca4, ret) = decode_loop [] s []; i = length ca4 in
      if i \<noteq> 0
      then let v = map b64_find (ca4 @ replicate (4 - i) 0);
               ca3 = triple (v ! 0) (v ! 1) (v ! 2) (v ! 3) in
           ret @ take (i - 1) ca3
      else ret)"

text \<open>The reference encoder: three bytes at a time.\<close>

fun b64_spec :: "bytes \<Rightarrow> bytes" where
  "b64_spec (a # b # c # ds) = map b64_at (quad a b c) @ b64_spec ds"
| "b64_spec [a, b] = map b64_at (take 3 (quad a b 0)) @ [0x3D]"
| "b64_spec [a] = map b64_at (take 2 (quad a 0 0)) @ [0x3D, 0x3D]"
| "b64_spec [] = []"

lemma encode_loop_spec:
  "(let (ca3, r) = encode_loop [] data ret; i = length ca3 in
      if i \<noteq> 0
      then let full = ca3 @ replicate (3 - i) 0; ca4 = quad (full ! 0) (full ! 1) (full ! 2) in
           r @ map b64_at (take (i + 1) ca4) @ replicate (3 - i) 0x3D
      else r) = ret @ b64_spec data"
  by (induction data arbitrary: ret rule: b64_spec.induct)
    (simp_all add: Let_def numeral_eq_Suc quad_def)

lemma encode_spec: "encode data = b64_spec data"
  using encode_loop_spec [of data "[]"] by (simp add: encode_def)

lemma length_b64chars [simp]: "length b64chars = 64"
  by (simp add: b64chars_def)

lemma b64chars_explicit:
  "b64chars = [65, 66, 67, 68, 69, 70, 71, 72, 73, 74, 75, 76, 77, 78, 79, 80, 81, 82, 83, 84, 85, 86, 87,
     88, 89, 90, 97, 98, 99, 100, 101, 102, 103, 104, 105, 106, 107, 108, 109, 110, 111, 112, 113, 114,
     115, 116, 117, 118, 119, 120, 121, 122, 48, 49, 50, 51, 52, 53, 54, 55, 56, 57, 45, 126]"
  by (simp add: b64chars_def upt_rec)

lemma distinct_b64chars: "distinct b64chars"
  by (simp add: b64chars_explicit)

lemma b64chars_in_alphabet: "list_all (\<lambda>c. is_base64 c \<and> c \<noteq> 0x3D) b64chars"
  by (simp add: b64chars_explicit is_base64_def)

lemma position_nth: "distinct xs \<Longrightarrow> n < length xs \<Longrightarrow> position xs (xs ! n) = Some n"
  by (induction xs arbitrary: n) (auto simp: nth_Cons split: nat.split)

lemma less_64_iff: "unat (x :: byte) < 64 \<longleftrightarrow> (\<forall>n \<ge> 6. \<not> bit x n)"
proof -
  have "unat x < 64 \<longleftrightarrow> take_bit 6 x = x"
    using take_bit_nat_eq_self_iff [of 6 "unat x"]
    by (simp add: word_unat_eq_iff unsigned_take_bit_eq)
  also have "\<dots> \<longleftrightarrow> (\<forall>n \<ge> 6. \<not> bit x n)"
    by (auto simp: bit_eq_iff bit_take_bit_iff) (metis not_le byte_bit_ge, metis not_le)
  finally show ?thesis .
qed

lemma b64_find_at: "unat x < 64 \<Longrightarrow> b64_find (b64_at x) = x"
  by (simp add: b64_find_def b64_at_def position_nth distinct_b64chars)

lemma b64_at_alphabet: "unat x < 64 \<Longrightarrow> is_base64 (b64_at x) \<and> b64_at x \<noteq> 0x3D"
  using b64chars_in_alphabet by (auto simp: b64_at_def list_all_length)

lemma shifted_mask: "push_bit k (mask m :: byte) = w \<Longrightarrow> bit w n \<longleftrightarrow> k \<le> n \<and> n < k + m \<and> n < 8"
  by (auto simp: bit_simps)

lemma mask_bits:
  "bit (0xFC :: byte) n \<longleftrightarrow> 2 \<le> n \<and> n < 8" "bit (0xF0 :: byte) n \<longleftrightarrow> 4 \<le> n \<and> n < 8"
  "bit (0xC0 :: byte) n \<longleftrightarrow> 6 \<le> n \<and> n < 8" "bit (0x3F :: byte) n \<longleftrightarrow> n < 6"
  "bit (0x03 :: byte) n \<longleftrightarrow> n < 2" "bit (0x0F :: byte) n \<longleftrightarrow> n < 4"
  "bit (0x30 :: byte) n \<longleftrightarrow> 4 \<le> n \<and> n < 6" "bit (0x3C :: byte) n \<longleftrightarrow> 2 \<le> n \<and> n < 6"
  by (subst shifted_mask [of 2 6 "0xFC"] shifted_mask [of 4 4 "0xF0"] shifted_mask [of 6 2 "0xC0"]
      shifted_mask [of 0 6 "0x3F"] shifted_mask [of 0 2 "0x03"] shifted_mask [of 0 4 "0x0F"]
      shifted_mask [of 4 2 "0x30"] shifted_mask [of 2 4 "0x3C"]; force simp: mask_eq_exp_minus_1)+

lemma disjoint_bits_add:
  "(\<And>n. n < 8 \<Longrightarrow> \<not> (bit x n \<and> bit (y :: byte) n)) \<Longrightarrow> bit (x + y) n \<longleftrightarrow> bit x n \<or> bit y n"
proof -
  assume "\<And>n. n < 8 \<Longrightarrow> \<not> (bit x n \<and> bit y n)"
  then have "x AND y = 0" by (intro bit_word_eqI) (auto simp: bit_simps)
  then show ?thesis by (simp add: disjunctive_add_eq_or bit_simps)
qed

lemma byte_bit_shift: "bit (a :: byte) (k + n) \<Longrightarrow> k + n < 8"
  using bit_imp_le_length [of a "k + n"] by simp

lemmas no_mask_simps = push_bit_and drop_bit_and bit_numeral_word_iff

lemma quad_bits_0: "bit (drop_bit 2 (a AND 0xFC) :: byte) n \<longleftrightarrow> bit a (2 + n)"
  by (auto simp: bit_simps mask_bits simp del: no_mask_simps dest: byte_bit_shift)

lemma quad_bits_1:
  "bit (push_bit 4 (a AND 0x03) + drop_bit 4 (b AND 0xF0) :: byte) n \<longleftrightarrow>
     (if n < 4 then bit b (4 + n) else n < 6 \<and> bit a (n - 4))"
  by (subst disjoint_bits_add) (auto simp: bit_simps mask_bits simp del: no_mask_simps)

lemma quad_bits_2:
  "bit (push_bit 2 (b AND 0x0F) + drop_bit 6 (c AND 0xC0) :: byte) n \<longleftrightarrow>
     (if n < 2 then bit c (6 + n) else n < 6 \<and> bit b (n - 2))"
  by (subst disjoint_bits_add) (auto simp: bit_simps mask_bits simp del: no_mask_simps)

lemma quad_bits_3: "bit (c AND 0x3F :: byte) n \<longleftrightarrow> n < 6 \<and> bit c n"
  by (auto simp: bit_simps mask_bits simp del: no_mask_simps)

lemmas quad_bits = quad_bits_0 quad_bits_1 quad_bits_2 quad_bits_3

lemma quad_small: "x \<in> set (quad a b c) \<Longrightarrow> unat x < 64"
  unfolding less_64_iff quad_def by (auto simp: quad_bits simp del: no_mask_simps dest: byte_bit_shift)

lemma triple_bits_0: 
  "unat x < 64 \<Longrightarrow> unat y < 64 \<Longrightarrow> bit (push_bit 2 x + drop_bit 4 (y AND 0x30) :: byte) n \<longleftrightarrow>
     (if n < 2 then bit y (4 + n) else n < 8 \<and> bit x (n - 2))"
  unfolding less_64_iff
  by (subst disjoint_bits_add) (auto simp: bit_simps mask_bits simp del: no_mask_simps)

lemma triple_bits_1: 
  "bit (push_bit 4 (y AND 0x0F) + drop_bit 2 (z AND 0x3C) :: byte) n \<longleftrightarrow>
     (if n < 4 then bit z (2 + n) else n < 8 \<and> bit y (n - 4))"
  by (subst disjoint_bits_add) (auto simp: bit_simps mask_bits simp del: no_mask_simps)

lemma triple_bits_2: 
  "unat w < 64 \<Longrightarrow> bit (push_bit 6 (z AND 0x03) + w :: byte) n \<longleftrightarrow>
     (if n < 6 then bit w n else n < 8 \<and> bit z (n - 6))"
  unfolding less_64_iff
  by (subst disjoint_bits_add) (auto simp: bit_simps mask_bits simp del: no_mask_simps)

lemma triple_quad:
  assumes "quad a b c = [x, y, z, w]"
  shows "take 1 (triple x y z' w') = [a]" and "take 2 (triple x y z w') = [a, b]"
    and "triple x y z w = [a, b, c]"
proof -
  have small: "unat x < 64" "unat y < 64" "unat w < 64"
    using quad_small [of _ a b c] assms by auto
  have x: "\<And>n. bit x n \<longleftrightarrow> bit a (2 + n)"
    and y: "\<And>n. bit y n \<longleftrightarrow> (if n < 4 then bit b (4 + n) else n < 6 \<and> bit a (n - 4))"
    and z: "\<And>n. bit z n \<longleftrightarrow> (if n < 2 then bit c (6 + n) else n < 6 \<and> bit b (n - 2))"
    and w: "\<And>n. bit w n \<longleftrightarrow> n < 6 \<and> bit c n"
    using assms unfolding quad_def by (auto simp: quad_bits simp del: no_mask_simps)
  have "push_bit 2 x + drop_bit 4 (y AND 0x30) = a"
    by (rule bit_word_eqI) (auto simp: triple_bits_0 small x y simp del: no_mask_simps)
  moreover have "push_bit 4 (y AND 0x0F) + drop_bit 2 (z AND 0x3C) = b"
    by (rule bit_word_eqI) (auto simp: triple_bits_1 y z simp del: no_mask_simps)
  moreover have "push_bit 6 (z AND 0x03) + w = c"
    by (rule bit_word_eqI) (auto simp: triple_bits_2 small z w simp del: no_mask_simps)
  ultimately show "take 1 (triple x y z' w') = [a]" and "take 2 (triple x y z w') = [a, b]"
    and "triple x y z w = [a, b, c]"
    by (simp_all add: triple_def)
qed

lemma decode_step:
  assumes "quad a b c = [x, y, z, w]"
  shows "decode_loop [] (b64_at x # b64_at y # b64_at z # b64_at w # cs) ret = 
    decode_loop [] cs (ret @ [a, b, c])"
    and "decode_loop [] [b64_at x, b64_at y, b64_at z, 0x3D] ret = ([b64_at x, b64_at y, b64_at z], ret)"
    and "decode_loop [] [b64_at x, b64_at y, 0x3D, 0x3D] ret = ([b64_at x, b64_at y], ret)"
    and "map b64_find [b64_at x, b64_at y, b64_at z] = [x, y, z]"
proof -
  have "unat x < 64" "unat y < 64" "unat z < 64" "unat w < 64"
    using quad_small [of _ a b c] assms by auto
  then show "decode_loop [] (b64_at x # b64_at y # b64_at z # b64_at w # cs) ret = 
    decode_loop [] cs (ret @ [a, b, c])"
    and "decode_loop [] [b64_at x, b64_at y, b64_at z, 0x3D] ret = ([b64_at x, b64_at y, b64_at z], ret)"
    and "decode_loop [] [b64_at x, b64_at y, 0x3D, 0x3D] ret = ([b64_at x, b64_at y], ret)"
    and "map b64_find [b64_at x, b64_at y, b64_at z] = [x, y, z]"
    using triple_quad(3) [OF assms] by (simp_all add: Let_def b64_at_alphabet b64_find_at)
qed

lemma quad_conv: "\<exists>x y z w. quad a b c = [x, y, z, w]"
  by (simp add: quad_def)

lemma decode_loop_spec:
  "(let (ca4, r) = decode_loop [] (b64_spec data) ret; i = length ca4 in
      if i \<noteq> 0
      then let v = map b64_find (ca4 @ replicate (4 - i) 0);
               ca3 = triple (v ! 0) (v ! 1) (v ! 2) (v ! 3) in
           r @ take (i - 1) ca3
      else r) = ret @ data"
proof (induction data arbitrary: ret rule: b64_spec.induct)
  case (1 a b c ds)
  obtain x y z w where q: "quad a b c = [x, y, z, w]" using quad_conv by blast
  show ?case using "1.IH" [of "ret @ [a, b, c]"] by (simp add: q decode_step(1) [OF q] del: decode_loop.simps)
next
  case (2 a b)
  obtain x y z w where q: "quad a b 0 = [x, y, z, w]" using quad_conv by blast
  show ?case
    using decode_step(2,4) [OF q] triple_quad(2) [OF q] by (simp add: q Let_def numeral_2_eq_2)
next
  case (3 a)
  obtain x y z w where q: "quad a 0 0 = [x, y, z, w]" using quad_conv by blast
  show ?case
    using decode_step(3,4) [OF q] triple_quad(1) [OF q] by (simp add: q Let_def numeral_2_eq_2)
next
  case 4
  then show ?case by simp
qed

lemma length_b64_spec: "length (b64_spec data) = 4 * ((length data + 2) div 3)"
proof (induction data rule: b64_spec.induct)
  case (1 a b c ds)
  have "(length (a # b # c # ds) + 2) div 3 = (length ds + 2) div 3 + 1"
    by simp
  with 1 show ?case by (simp add: quad_def)
qed (simp_all add: quad_def)

subsection \<open>I2PHMAC\<close>

text \<open>\<open>xor_buf(out, in, length)\<close>: eight bytes per round, then the rest one by one. Callers pass a
  \<open>length\<close> within both buffers.\<close>

function xor_buf :: "bytes \<Rightarrow> bytes \<Rightarrow> nat \<Rightarrow> bytes" where
  "xor_buf out inp len =
     (if 8 \<le> len
      then map (\<lambda>i. out ! i XOR inp ! i) [0..<8] @ xor_buf (drop 8 out) (drop 8 inp) (len - 8)
      else map (\<lambda>i. out ! i XOR inp ! i) [0..<len] @ drop len out)"
  by pat_completeness auto
termination by (relation "measure (\<lambda>(out, inp, len). len)") auto

declare xor_buf.simps [simp del]

lemma xor_buf_spec:
  "len \<le> length out \<Longrightarrow> len \<le> length inp \<Longrightarrow>
   xor_buf out inp len = map2 (XOR) (take len out) (take len inp) @ drop len out"
proof (induction out inp len rule: xor_buf.induct)
  case (1 out inp len)
  show ?case
  proof (cases "8 \<le> len")
    case True
    have split: "take len xs = take 8 xs @ take (len - 8) (drop 8 xs)" for xs :: bytes
      using True take_add [of 8 "len - 8" xs] by simp
    have "map (\<lambda>i. out ! i XOR inp ! i) [0..<8] = map2 (XOR) (take 8 out) (take 8 inp)"
      using True 1 by (intro nth_equalityI) auto
    with True 1 show ?thesis by (subst xor_buf.simps) (simp add: split [of out] split [of inp])
  next
    case False
    then have "map (\<lambda>i. out ! i XOR inp ! i) [0..<len] = map2 (XOR) (take len out) (take len inp)"
      using "1.prems" by (intro nth_equalityI) auto
    with False show ?thesis by (subst xor_buf.simps) simp
  qed
qed

text \<open>Botan's hash object: what the code uses of it.\<close>

record HashFunction =
  hf_name :: string
  hf_block_size :: nat
  hf_digest :: "bytes \<Rightarrow> bytes"

text \<open>The object: its hash, the bytes fed to the hash since its last reset, and the two pads.\<close>

record I2PHMAC =
  hm_hash :: HashFunction
  hm_fed :: bytes
  hm_i_key :: bytes
  hm_o_key :: bytes

definition I2PHMAC_make :: "HashFunction \<Rightarrow> I2PHMAC result" where
  "I2PHMAC_make h =
     ebind (require (hf_block_size h \<noteq> 0) (Invalid_argument (''HMAC cannot be used with '' @ hf_name h))) (\<lambda>_.
     ebind (require (hf_name h = ''MD5'')
       (Invalid_argument ''This HMAC is specially adapted for use with MD5 only.'')) (\<lambda>_.
     Inr \<lparr>hm_hash = h, hm_fed = [], hm_i_key = replicate (hf_block_size h) 0,
          hm_o_key = replicate (hf_block_size h) 0\<rparr>))"

definition I2PHMAC_add_data :: "bytes \<Rightarrow> I2PHMAC \<Rightarrow> I2PHMAC" where
  "I2PHMAC_add_data input m = m\<lparr>hm_fed := hm_fed m @ input\<rparr>"

text \<open>The inner digest is laid into 32 zero bytes, and all 32 are hashed.\<close>

definition I2PHMAC_final_result :: "I2PHMAC \<Rightarrow> bytes \<times> I2PHMAC" where
  "I2PHMAC_final_result m =
     (let d = hf_digest (hm_hash m) (hm_fed m);
          tmp = d @ drop (length d) (replicate 32 0)
      in (hf_digest (hm_hash m) (hm_o_key m @ take 32 tmp), m\<lparr>hm_fed := hm_i_key m\<rparr>))"

definition I2PHMAC_key_schedule :: "bytes \<Rightarrow> I2PHMAC \<Rightarrow> I2PHMAC" where
  "I2PHMAC_key_schedule key m =
     (let i = replicate (length (hm_i_key m)) 0x36;
          oo = replicate (length (hm_o_key m)) 0x5C;
          k = (if hf_block_size (hm_hash m) < length key then hf_digest (hm_hash m) key else key);
          i' = xor_buf i k (length k)
      in m\<lparr>hm_fed := i', hm_i_key := i', hm_o_key := xor_buf oo k (length k)\<rparr>)"

definition I2PHMAC_clear :: "I2PHMAC \<Rightarrow> I2PHMAC" where
  "I2PHMAC_clear m =
     m\<lparr>hm_fed := [], hm_i_key := replicate (length (hm_i_key m)) 0,
       hm_o_key := replicate (length (hm_o_key m)) 0\<rparr>"

text \<open>What a \<open>MAC_Filter\<close> computes: key, the written blocks, result.\<close>

definition I2PHMAC_process :: "bytes \<Rightarrow> bytes list \<Rightarrow> I2PHMAC \<Rightarrow> bytes \<times> I2PHMAC" where
  "I2PHMAC_process key blocks m =
     I2PHMAC_final_result (fold I2PHMAC_add_data blocks (I2PHMAC_key_schedule key m))"

text \<open>The keyed function itself, for keys of at most one block.\<close>

definition i2p_pad :: "byte \<Rightarrow> bytes \<Rightarrow> bytes" where
  "i2p_pad c key = map (\<lambda>k. c XOR k) key @ replicate (64 - length key) c"

definition i2p_mac :: "(bytes \<Rightarrow> bytes) \<Rightarrow> bytes \<Rightarrow> bytes \<Rightarrow> bytes" where
  "i2p_mac md5 key msg =
     md5 (i2p_pad 0x5C key @ md5 (i2p_pad 0x36 key @ msg) @ replicate 16 0)"

lemma fold_add_data: "fold I2PHMAC_add_data blocks m = m\<lparr>hm_fed := hm_fed m @ concat blocks\<rparr>"
  by (induction blocks arbitrary: m) (auto simp: I2PHMAC_add_data_def)

lemma map2_replicate: "length xs \<le> n \<Longrightarrow> map2 f (replicate n c) xs = map (f c) xs"
proof (induction xs arbitrary: n)
  case (Cons x xs)
  then show ?case by (cases n) auto
qed simp

lemma xor_buf_pad:
  "length key \<le> 64 \<Longrightarrow> xor_buf (replicate 64 c) key (length key) = i2p_pad c key"
  by (simp add: xor_buf_spec i2p_pad_def take_replicate drop_replicate map2_replicate min_def)

definition md5_hash :: "(bytes \<Rightarrow> bytes) \<Rightarrow> HashFunction" where
  "md5_hash md5 = \<lparr>hf_name = ''MD5'', hf_block_size = 64, hf_digest = md5\<rparr>"

lemma I2PHMAC_process_mac:
  assumes "\<And>x. length (md5 x) = 16" and "length key \<le> 64"
    and "hm_hash m = md5_hash md5" and "length (hm_i_key m) = 64" and "length (hm_o_key m) = 64"
  shows "fst (I2PHMAC_process key blocks m) = i2p_mac md5 key (concat blocks)"
  using assms
  by (simp add: I2PHMAC_process_def I2PHMAC_final_result_def I2PHMAC_key_schedule_def fold_add_data
      Let_def i2p_mac_def xor_buf_pad md5_hash_def)

lemma length_i2p_pad: "length key \<le> 64 \<Longrightarrow> length (i2p_pad c key) = 64"
  by (simp add: i2p_pad_def)

subsection \<open>Properties\<close>

lemma decode_encode [simp]: "decode (encode data) = data"
  using decode_loop_spec [of data "[]"] by (simp add: decode_def encode_spec)

lemma encode_inject [simp]: "encode a = encode b \<longleftrightarrow> a = b"
  by (metis decode_encode)

text \<open>C27. \<open>Base64::decode\<close> inverts \<open>Base64::encode\<close> on every byte string, with one or two padding
  characters or none, and the encoding has four characters per three bytes begun.\<close>

theorem base64_roundtrip:
  "decode (encode data) = data \<and> length (encode data) = 4 * ((length data + 2) div 3)"
  using length_b64_spec [of data] by (simp add: decode_encode) (simp add: encode_spec)

text \<open>C28. On an object the constructor returned for MD5, the keyed run computes I2P's variant of
  HMAC (inner digest padded with 16 zero bytes) of the concatenated blocks however they are split,
  and leaves the object ready: a second message under the same key is authenticated the same way
  without a new key schedule.\<close>

theorem I2PHMAC_computes_mac:
  assumes digest: "\<And>x. length (md5 x) = 16" and key: "length key \<le> 64"
    and m: "I2PHMAC_make (md5_hash md5) = Inr m"
  shows "fst (I2PHMAC_process key blocks m) = i2p_mac md5 key (concat blocks) \<and>
    fst (I2PHMAC_final_result (I2PHMAC_add_data msg (snd (I2PHMAC_process key blocks m)))) =
      i2p_mac md5 key msg"
proof
  from m have m': "hm_hash m = md5_hash md5" "length (hm_i_key m) = 64" "length (hm_o_key m) = 64"
    by (auto simp: I2PHMAC_make_def inr_iff md5_hash_def)
  show "fst (I2PHMAC_process key blocks m) = i2p_mac md5 key (concat blocks)"
    by (rule I2PHMAC_process_mac [OF digest key m'])
  show "fst (I2PHMAC_final_result (I2PHMAC_add_data msg (snd (I2PHMAC_process key blocks m)))) =
      i2p_mac md5 key msg"
    using digest key m'
    by (simp add: I2PHMAC_process_def I2PHMAC_final_result_def I2PHMAC_key_schedule_def fold_add_data
        Let_def i2p_mac_def xor_buf_pad I2PHMAC_add_data_def md5_hash_def)
qed

theorem I2PHMAC_computes_mac_witness:
  "let md5 = (\<lambda>x. take 16 (x @ replicate 16 1)); m = projr (I2PHMAC_make (md5_hash md5)) in
   fst (I2PHMAC_process [1, 2] [[3], [4, 5]] m) = i2p_mac md5 [1, 2] [3, 4, 5]"
proof -
  let ?md5 = "\<lambda>x. take 16 (x @ replicate 16 1) :: bytes"
  have "I2PHMAC_make (md5_hash ?md5) = Inr (projr (I2PHMAC_make (md5_hash ?md5)))"
    by (simp add: I2PHMAC_make_def md5_hash_def)
  from I2PHMAC_computes_mac [OF _ _ this, of "[1, 2]" "[[3], [4, 5]]"] show ?thesis
    by (simp add: Let_def)
qed

end
