(* ===== verification/SSU_Packet.thy ===== *)
theory SSU_Packet
  imports Byte_Array Crypto_Util
begin

text \<open>
  The wire format of the SSU transport: \<open>Endpoint\<close>, \<open>SSU::Packet\<close> (padding, AES-256/CBC and the
  MAC) and the packets of \<open>SSU::PacketBuilder\<close> that need no session establishment. AES and MD5 are
  arguments; the MAC object is the model of \<open>I2PHMAC\<close>.
\<close>

subsection \<open>Endpoints\<close>

datatype address = V4 bytes | V6 bytes

record Endpoint =
  ep_addr :: address
  ep_port :: u16

text \<open>A default-constructed address is \<open>0.0.0.0\<close>.\<close>

definition Endpoint_of_bytes :: "bytes \<Rightarrow> u16 \<Rightarrow> Endpoint" where
  "Endpoint_of_bytes addr port =
     \<lparr>ep_addr = (if length addr = 4 then V4 addr else if length addr = 16 then V6 addr
                 else V4 (replicate 4 0)),
      ep_port = port\<rparr>"

definition Endpoint_getRawIP :: "Endpoint \<Rightarrow> bytes" where
  "Endpoint_getRawIP ep = (case ep_addr ep of V4 b \<Rightarrow> b | V6 b \<Rightarrow> b)"

definition Endpoint_wf :: "Endpoint \<Rightarrow> bool" where
  "Endpoint_wf ep \<longleftrightarrow> (case ep_addr ep of V4 b \<Rightarrow> length b = 4 | V6 b \<Rightarrow> length b = 16)"

lemma Endpoint_raw_roundtrip:
  "Endpoint_wf ep \<Longrightarrow> Endpoint_of_bytes (Endpoint_getRawIP ep) (ep_port ep) = ep"
  by (cases ep) (auto simp: Endpoint_wf_def Endpoint_of_bytes_def Endpoint_getRawIP_def split: address.splits)

lemma length_getRawIP: "Endpoint_wf ep \<Longrightarrow> length (Endpoint_getRawIP ep) \<in> {4, 16}"
  by (auto simp: Endpoint_wf_def Endpoint_getRawIP_def split: address.splits)

subsection \<open>Packets\<close>

datatype PayloadType =
    SESSION_REQUEST | SESSION_CREATED | SESSION_CONFIRMED | RELAY_REQUEST | RELAY_RESPONSE
  | RELAY_INTRO | DATA | TEST | SESSION_DESTROY

fun payload_code :: "PayloadType \<Rightarrow> byte" where
  "payload_code SESSION_REQUEST = 0"
| "payload_code SESSION_CREATED = 1"
| "payload_code SESSION_CONFIRMED = 2"
| "payload_code RELAY_REQUEST = 3"
| "payload_code RELAY_RESPONSE = 4"
| "payload_code RELAY_INTRO = 5"
| "payload_code DATA = 6"
| "payload_code TEST = 7"
| "payload_code SESSION_DESTROY = 8"

record Packet =
  pk_data :: bytes
  pk_endpoint :: Endpoint

definition MIN_PACKET_LEN :: nat where
  "MIN_PACKET_LEN = 48"

definition PROTOCOL_VERSION :: u16 where
  "PROTOCOL_VERSION = 0"

definition Packet_make :: "Endpoint \<Rightarrow> bytes \<Rightarrow> Packet" where
  "Packet_make ep data = \<lparr>pk_data = data, pk_endpoint = ep\<rparr>"

type_synonym cipher = "bytes \<Rightarrow> bytes \<Rightarrow> bytes \<Rightarrow> bytes"

text \<open>A \<open>Pipe\<close> with a \<open>MAC_Filter(new I2PHMAC(new MD5()))\<close>: the key, then the blocks written to it.\<close>

definition hmac_pipe :: "(bytes \<Rightarrow> bytes) \<Rightarrow> bytes \<Rightarrow> bytes list \<Rightarrow> bytes result" where
  "hmac_pipe md5 key blocks =
     ebind (I2PHMAC_make (md5_hash md5)) (\<lambda>m. Inr (fst (I2PHMAC_process key blocks m)))"

text \<open>The two bytes written after the initialization vector: \<open>n >> 8\<close> and \<open>n\<close>, each with the
  protocol version XORed in, truncated to a byte.\<close>

definition mac_suffix :: "nat \<Rightarrow> bytes list" where
  "mac_suffix n =
     [[of_nat (n div 256) XOR ucast (drop_bit 8 PROTOCOL_VERSION)],
      [of_nat n XOR ucast PROTOCOL_VERSION]]"

text \<open>\<open>m_data.size() - 32\<close> wraps for packets shorter than 32 bytes, and the cipher then reads far
  behind the buffer.\<close>

definition Packet_decrypt :: "cipher \<Rightarrow> bytes \<Rightarrow> Packet \<Rightarrow> Packet result" where
  "Packet_decrypt aes_decrypt sk p =
     ebind (require (32 \<le> length (pk_data p)) Out_of_bounds) (\<lambda>_.
     let packetSize = ((length (pk_data p) - 32) div 16 * 16) mod 2 ^ 32;
         iv = take 16 (drop 16 (pk_data p))
     in Inr (p\<lparr>pk_data := aes_decrypt sk iv (take packetSize (drop 32 (pk_data p)))\<rparr>))"

definition Packet_verify :: "(bytes \<Rightarrow> bytes) \<Rightarrow> bytes \<Rightarrow> Packet \<Rightarrow> bool result" where
  "Packet_verify md5 mk p =
     ebind (require (32 \<le> length (pk_data p)) Out_of_bounds) (\<lambda>_.
     let packetSize = (length (pk_data p) - 32) mod 2 ^ 32 in
     ebind (hmac_pipe md5 mk
       (take packetSize (drop 32 (pk_data p)) # take 16 (drop 16 (pk_data p)) # mac_suffix packetSize)) (\<lambda>mac.
     Inr (take 16 mac = take 16 (pk_data p))))"

text \<open>\<open>m_data.insert(m_data.end(), padSize, padSize)\<close> for \<open>padSize < 16\<close>.\<close>

definition pad16 :: "bytes \<Rightarrow> bytes" where
  "pad16 data =
     (let padSize = 16 - length data mod 16
      in if padSize < 16 then data @ replicate padSize (of_nat padSize) else data)"

text \<open>Bytes written over a buffer from position \<open>p\<close> on.\<close>

definition overwrite :: "nat \<Rightarrow> bytes \<Rightarrow> bytes \<Rightarrow> bytes" where
  "overwrite p xs d = take p d @ xs @ drop (p + length xs) d"

definition Packet_encrypt ::
  "cipher \<Rightarrow> (bytes \<Rightarrow> bytes) \<Rightarrow> bytes \<Rightarrow> bytes \<Rightarrow> bytes \<Rightarrow> Packet \<Rightarrow> Packet result" where
  "Packet_encrypt aes_encrypt md5 iv sk mk p =
     (let padded = pad16 (pk_data p);
          ct = aes_encrypt sk iv padded;
          n = length ct;
          d = overwrite 32 ct (take (n + 32) (padded @ replicate (n + 32) 0));
          d = overwrite 16 iv d
      in ebind (hmac_pipe md5 mk (take n (drop 32 d) # iv # mac_suffix n)) (\<lambda>mac.
         let d = overwrite 0 (take 16 mac) d in
         ebind (require (length mac \<le> 16) (Runtime_error ''Bytes still remaining in the hmacPipe!?'')) (\<lambda>_.
         Inr (p\<lparr>pk_data := d\<rparr>))))"

subsection \<open>The packets\<close>

definition buildHeader :: "u32 \<Rightarrow> Endpoint \<Rightarrow> byte \<Rightarrow> Packet" where
  "buildHeader timestamp ep flag = Packet_make ep (flag # be32 timestamp)"

definition buildSessionDestroyed :: "u32 \<Rightarrow> Endpoint \<Rightarrow> Packet" where
  "buildSessionDestroyed timestamp ep = buildHeader timestamp ep (push_bit 4 (payload_code SESSION_DESTROY))"

text \<open>\<open>PacketBuilder::Fragment\<close>.\<close>

record SSUFragment =
  sf_msgId :: u32
  sf_isLast :: bool
  sf_fragNum :: byte
  sf_data :: bytes

text \<open>The loop over complete acknowledgements: the counter \<open>ea[0]\<close> and the rest of \<open>ea\<close>.\<close>

definition complete_acks :: "u32 list \<Rightarrow> byte \<times> bytes" where
  "complete_acks ids = (of_nat (length ids), concat (map be32 ids))"

text \<open>\<open>for(int j = 6, k = i * 7; j >= 0 && k < numBits; j--, k++)\<close>.\<close>

fun bitfield_byte :: "bool list \<Rightarrow> nat \<Rightarrow> nat \<Rightarrow> byte \<Rightarrow> byte" where
  "bitfield_byte v 0 k byte = (if k < length v \<and> v ! k then byte OR 1 else byte)"
| "bitfield_byte v (Suc j) k byte =
     (if k < length v
      then bitfield_byte v j (Suc k) (if v ! k then byte OR push_bit (Suc j) 1 else byte)
      else byte)"

definition bitfield_bytes :: "bool list \<Rightarrow> bytes" where
  "bitfield_bytes v =
     (let steps = (length v + 6) div 7
      in map (\<lambda>i. bitfield_byte v 6 (i * 7) (if i + 1 < steps then push_bit 7 1 else 0)) [0..<steps])"

definition partial_acks :: "(u32 \<times> bool list) list \<Rightarrow> byte \<times> bytes" where
  "partial_acks ms =
     (of_nat (length ms), concat (map (\<lambda>(msgId, v). be32 msgId @ bitfield_bytes v) ms))"

definition fragment_info :: "SSUFragment \<Rightarrow> u32" where
  "fragment_info f =
     push_bit 17 (ucast (sf_fragNum f)) OR (if sf_isLast f then push_bit 16 1 else 0) OR
     of_nat (length (sf_data f))"

definition fragment_bytes :: "SSUFragment \<Rightarrow> bytes result" where
  "fragment_bytes f =
     ebind (require (length (sf_data f) \<le> 16383) (Logic_error ''fragment size too big'')) (\<lambda>_.
     let info = fragment_info f in
     Inr (be32 (sf_msgId f) @ [ucast (drop_bit 16 info), ucast (drop_bit 8 info), ucast info] @ sf_data f))"

fun fragments_bytes :: "SSUFragment list \<Rightarrow> bytes result" where
  "fragments_bytes [] = Inr []"
| "fragments_bytes (f # fs) =
     ebind (fragment_bytes f) (\<lambda>b. ebind (fragments_bytes fs) (\<lambda>bs. Inr (b @ bs)))"

definition data_body :: "bool \<Rightarrow> u32 list \<Rightarrow> (u32 \<times> bool list) list \<Rightarrow> SSUFragment list \<Rightarrow> bytes result" where
  "data_body wantReply completeAcks incompleteAcks fragments =
     (let (ea0, ea) = complete_acks completeAcks; (ba0, ba) = partial_acks incompleteAcks;
          dataFlag = (if wantReply then push_bit 2 1 else 0) OR (if ea0 \<noteq> 0 then push_bit 7 1 else 0) OR
            (if ba0 \<noteq> 0 then push_bit 6 1 else 0)
      in ebind (fragments_bytes fragments) (\<lambda>fs.
         Inr ([dataFlag] @ (if ea0 \<noteq> 0 then ea0 # ea else []) @ (if ba0 \<noteq> 0 then ba0 # ba else []) @
           [of_nat (length fragments)] @ fs)))"

definition buildData ::
  "u32 \<Rightarrow> Endpoint \<Rightarrow> bool \<Rightarrow> u32 list \<Rightarrow> (u32 \<times> bool list) list \<Rightarrow> SSUFragment list \<Rightarrow> Packet result" where
  "buildData timestamp ep wantReply completeAcks incompleteAcks fragments =
     (let s = buildHeader timestamp ep (push_bit 4 (payload_code DATA))
      in ebind (data_body wantReply completeAcks incompleteAcks fragments) (\<lambda>d.
         Inr (s\<lparr>pk_data := pk_data s @ d\<rparr>)))"

subsection \<open>Lemmas\<close>

lemma length_pad16: "16 dvd length (pad16 data)"
proof -
  have "length data + (16 - length data mod 16) = 16 * (length data div 16 + 1)"
    using mod_less_divisor [of 16 "length data"] by presburger
  then show ?thesis by (auto simp: pad16_def Let_def dvd_eq_mod_eq_0) 
qed

lemma pad16_prefix: "take (length data) (pad16 data) = data"
  by (simp add: pad16_def Let_def)

lemma length_pad16_le: "length (pad16 data) < length data + 16"
  by (simp add: pad16_def Let_def)

lemma hmac_pipe_mac:
  assumes "\<And>x. length (md5 x) = 16" and "length key \<le> 64"
  shows "hmac_pipe md5 key blocks = Inr (i2p_mac md5 key (concat blocks))"
proof -
  obtain m where m: "I2PHMAC_make (md5_hash md5) = Inr m"
    and "hm_hash m = md5_hash md5" "length (hm_i_key m) = 64" "length (hm_o_key m) = 64"
    by (auto simp: I2PHMAC_make_def md5_hash_def)
  with I2PHMAC_process_mac [OF assms, where m = m and blocks = blocks] show ?thesis
    by (simp add: hmac_pipe_def)
qed

definition packet_mac :: "(bytes \<Rightarrow> bytes) \<Rightarrow> bytes \<Rightarrow> bytes \<Rightarrow> bytes \<Rightarrow> bytes" where
  "packet_mac md5 mk iv ct = i2p_mac md5 mk (ct @ iv @ be16 (of_nat (length ct)))"

lemma concat_mac_suffix: "concat (mac_suffix n) = be16 (of_nat n)"
proof -
  have "n div 256 = drop_bit 8 n" by (simp add: drop_bit_eq_div)
  then have "(of_nat (n div 256) :: byte) = ucast (drop_bit 8 (of_nat n :: u16))"
    by (auto intro!: bit_word_eqI simp: bit_simps)
  moreover have "(of_nat n :: byte) = ucast (of_nat n :: u16)"
    by (auto intro!: bit_word_eqI simp: bit_simps)
  ultimately show ?thesis by (simp add: mac_suffix_def PROTOCOL_VERSION_def be16_def)
qed

lemma encrypt_layout:
  assumes "\<And>x. length (md5 x) = 16" and "length mk \<le> 64" and "length iv = 16"
  shows "Packet_encrypt aes_encrypt md5 iv sk mk p =
    (let ct = aes_encrypt sk iv (pad16 (pk_data p))
     in Inr (p\<lparr>pk_data := packet_mac md5 mk iv ct @ iv @ ct\<rparr>))"
  using assms
  by (simp add: Packet_encrypt_def Let_def hmac_pipe_mac overwrite_def concat_mac_suffix packet_mac_def
      i2p_mac_def)

lemma verify_layout:
  assumes "\<And>x. length (md5 x) = 16" and "length mk \<le> 64" and "length mac = 16" and "length iv = 16"
    and "length ct < 2 ^ 32" and "pk_data p = mac @ iv @ ct"
  shows "Packet_verify md5 mk p = Inr (packet_mac md5 mk iv ct = mac)"
  using assms
  by (simp add: Packet_verify_def Let_def hmac_pipe_mac concat_mac_suffix packet_mac_def i2p_mac_def)

lemma decrypt_layout:
  assumes "length mac = 16" and "length iv = 16" and "16 dvd length ct" and "length ct < 2 ^ 32"
    and "pk_data p = mac @ iv @ ct"
  shows "Packet_decrypt aes_decrypt sk p = Inr (p\<lparr>pk_data := aes_decrypt sk iv ct\<rparr>)"
  using assms by (simp add: Packet_decrypt_def Let_def)

lemma seal_roundtrip:
  assumes digest: "\<And>x. length (md5 x) = 16"
    and aes_len: "\<And>k iv x. length (aes_encrypt k iv x) = length x"
    and aes_inv: "\<And>k iv x. length iv = 16 \<Longrightarrow> 16 dvd length x \<Longrightarrow> aes_decrypt k iv (aes_encrypt k iv x) = x"
    and iv: "length iv = 16" and mk: "length mk \<le> 64" and size: "length (pk_data p) < 2 ^ 32 - 16"
  shows "\<exists>mac ct. length mac = 16 \<and> 16 dvd length ct \<and> length ct < 2 ^ 32 \<and>
    length ct = length (pad16 (pk_data p)) \<and>
    Packet_encrypt aes_encrypt md5 iv sk mk p = Inr (p\<lparr>pk_data := mac @ iv @ ct\<rparr>) \<and>
    Packet_verify md5 mk (p\<lparr>pk_data := mac @ iv @ ct\<rparr>) = Inr True \<and>
    Packet_decrypt aes_decrypt sk (p\<lparr>pk_data := mac @ iv @ ct\<rparr>) = Inr (p\<lparr>pk_data := pad16 (pk_data p)\<rparr>)"
proof -
  define ct where "ct = aes_encrypt sk iv (pad16 (pk_data p))"
  define mac where "mac = packet_mac md5 mk iv ct"
  let ?q = "p\<lparr>pk_data := mac @ iv @ ct\<rparr>"
  have len: "length ct = length (pad16 (pk_data p))" by (simp add: ct_def aes_len)
  then have ct: "16 dvd length ct" "length ct < 2 ^ 32"
    using length_pad16 [of "pk_data p"] length_pad16_le [of "pk_data p"] size by auto
  have mac: "length mac = 16" by (simp add: mac_def packet_mac_def i2p_mac_def digest)
  have "Packet_encrypt aes_encrypt md5 iv sk mk p = Inr ?q"
    by (simp add: encrypt_layout [OF digest mk iv] ct_def mac_def Let_def)
  moreover have "Packet_verify md5 mk ?q = Inr True"
    using verify_layout [OF digest mk mac iv ct(2), of ?q] by (simp add: mac_def)
  moreover have "Packet_decrypt aes_decrypt sk ?q = Inr (p\<lparr>pk_data := pad16 (pk_data p)\<rparr>)"
    using decrypt_layout [OF mac iv ct, of ?q] aes_inv [OF iv length_pad16] by (simp add: ct_def)
  ultimately show ?thesis using mac ct len by blast
qed

subsection \<open>Properties\<close>

text \<open>C33. What \<open>encrypt\<close> seals, the holder of the same keys accepts and opens: \<open>verify\<close> answers true,
  \<open>decrypt\<close> returns the data followed by fewer than 16 bytes of padding, and the sealed packet is 32
  bytes longer than the padded data. A packet whose stored MAC was changed
  is refused. AES is any family of inverse length-preserving functions on whole blocks.\<close>

theorem packet_seal_open:
  assumes digest: "\<And>x. length (md5 x) = 16"
    and aes_len: "\<And>k iv x. length (aes_encrypt k iv x) = length x"
    and aes_inv: "\<And>k iv x. length iv = 16 \<Longrightarrow> 16 dvd length x \<Longrightarrow> aes_decrypt k iv (aes_encrypt k iv x) = x"
    and iv: "length iv = 16" and mk: "length mk \<le> 64" and size: "length (pk_data p) < 2 ^ 32 - 16"
    and other: "length mac' = 16" "mac' \<noteq> take 16 (pk_data q)"
    and sealed: "Packet_encrypt aes_encrypt md5 iv sk mk p = Inr q"
  shows "Packet_verify md5 mk q = Inr True \<and>
    Packet_decrypt aes_decrypt sk q = Inr (p\<lparr>pk_data := pad16 (pk_data p)\<rparr>) \<and>
    length (pk_data q) = 32 + length (pad16 (pk_data p)) \<and>
    Packet_verify md5 mk (q\<lparr>pk_data := overwrite 0 mac' (pk_data q)\<rparr>) = Inr False"
proof -
  obtain mac ct where q: "q = p\<lparr>pk_data := mac @ iv @ ct\<rparr>" and mac: "length mac = 16" and ct: "length ct < 2 ^ 32"
    and rest: "Packet_verify md5 mk q = Inr True" "length ct = length (pad16 (pk_data p))"
    "Packet_decrypt aes_decrypt sk q = Inr (p\<lparr>pk_data := pad16 (pk_data p)\<rparr>)"
    using seal_roundtrip [where ?md5.0 = md5 and aes_encrypt = aes_encrypt and aes_decrypt = aes_decrypt and sk = sk,
        OF digest aes_len aes_inv iv mk size] sealed by auto
  have "packet_mac md5 mk iv ct = mac"
    using verify_layout [OF digest mk mac iv ct, of q] rest(1) by (simp add: q)
  then have "Packet_verify md5 mk (q\<lparr>pk_data := overwrite 0 mac' (pk_data q)\<rparr>) = Inr False"
    using verify_layout [OF digest mk other(1) iv ct, of "q\<lparr>pk_data := overwrite 0 mac' (pk_data q)\<rparr>"]
      other mac by (auto simp: q overwrite_def)
  with rest show ?thesis by (simp add: q mac iv)
qed

definition sample_endpoint :: Endpoint where
  "sample_endpoint = Endpoint_of_bytes [127, 0, 0, 1] 4567"

definition toy_md5 :: "bytes \<Rightarrow> bytes" where
  "toy_md5 x = take 16 (x @ replicate 16 1)"

lemma length_toy_md5 [simp]: "length (toy_md5 x) = 16"
  by (simp add: toy_md5_def)

theorem packet_seal_open_witness:
  "let p = Packet_make sample_endpoint [1, 2, 3];
       q = projr (Packet_encrypt (\<lambda>k iv. rev) toy_md5 (replicate 16 7) [5] [6] p)
   in Packet_verify toy_md5 [6] q = Inr True \<and>
      Packet_decrypt (\<lambda>k iv. rev) [5] q = Inr (p\<lparr>pk_data := [1, 2, 3] @ replicate 13 13\<rparr>)"
proof -
  let ?p = "Packet_make sample_endpoint [1, 2, 3]"
  let ?q = "projr (Packet_encrypt (\<lambda>k iv. rev) toy_md5 (replicate 16 7) [5] [6] ?p)"
  have sealed: "Packet_encrypt (\<lambda>k iv. rev) toy_md5 (replicate 16 7) [5] [6] ?p = Inr ?q"
    by (simp add: encrypt_layout Let_def)
  let ?mac = "map (\<lambda>b. b + 1) (take 16 (pk_data ?q))"
  have q: "take 16 (pk_data ?q) = packet_mac toy_md5 [6] (replicate 16 7) (rev (pad16 (pk_data ?p)))"
    by (simp add: encrypt_layout Let_def packet_mac_def i2p_mac_def)
  have len: "length ?mac = 16"
    by (simp add: q) (simp add: packet_mac_def i2p_mac_def)
  have ne: "?mac \<noteq> take 16 (pk_data ?q)"
    using len by (cases "take 16 (pk_data ?q)") auto
  have pad: "pad16 [1, 2, 3] = [1, 2, 3] @ replicate 13 13"
    by (simp add: pad16_def)
  show ?thesis
    using packet_seal_open [of toy_md5 "\<lambda>k iv. rev" "\<lambda>k iv. rev" "replicate 16 7" "[6]" ?p ?mac ?q "[5]",
        OF _ _ _ _ _ _ len ne sealed] pad
    by (simp add: Let_def Packet_make_def)
qed

end
