(* ===== verification/SSU_Messages.thy ===== *)
theory SSU_Messages
  imports SSU_Packet
begin

text \<open>
  The two ends of one SSU message: \<open>OutboundMessageState\<close> cuts the message into fragments and
  records which were sent and acknowledged, \<open>InboundMessageState\<close> collects fragments in whatever
  order they arrive. Null pointers are \<open>None\<close>; the timer of an outbound message belongs to the
  container that owns the state.
\<close>

subsection \<open>Inbound messages\<close>

record InboundMessageState =
  im_routerHash :: bytes
  im_msgId :: u32
  im_gotLast :: bool
  im_lastFragment :: byte
  im_byteTotal :: u32
  im_fragments :: "bytes option list"

text \<open>\<open>m_lastFragment\<close> has no initializer: its value is \<open>junk\<close>.\<close>

definition InboundMessageState_make :: "byte \<Rightarrow> bytes \<Rightarrow> u32 \<Rightarrow> InboundMessageState" where
  "InboundMessageState_make junk rh msgId =
     \<lparr>im_routerHash = rh, im_msgId = msgId, im_gotLast = False, im_lastFragment = junk,
      im_byteTotal = 0, im_fragments = []\<rparr>"

definition resize_null :: "nat \<Rightarrow> 'a option list \<Rightarrow> 'a option list" where
  "resize_null n v = take n v @ replicate (n - length v) None"

text \<open>The comparison is made on \<open>(uint8_t)(fragNum + 1)\<close>, which is 0 for fragment 255.\<close>

definition InboundMessageState_addFragment ::
  "byte \<Rightarrow> bytes \<Rightarrow> bool \<Rightarrow> InboundMessageState \<Rightarrow> InboundMessageState result" where
  "InboundMessageState_addFragment fragNum data isLast s =
     (let n = unat fragNum in
      if im_gotLast s \<and> im_lastFragment s < fragNum then Inr s
      else if n < length (im_fragments s) \<and> im_fragments s ! n \<noteq> None then Inr s
      else
        let s = (if isLast then s\<lparr>im_gotLast := True, im_lastFragment := fragNum\<rparr> else s);
            v = (if length (im_fragments s) < unat (fragNum + 1)
                 then resize_null (n + 1) (im_fragments s) else im_fragments s)
        in ebind (require (n < length v) Out_of_bounds) (\<lambda>_.
           Inr (s\<lparr>im_fragments := v[n := Some data],
                  im_byteTotal := im_byteTotal s + of_nat (length data)\<rparr>)))"

definition present :: "bytes option list \<Rightarrow> bytes" where
  "present v = concat (map (case_option [] id) v)"

text \<open>The copies go into an array of \<open>m_byteTotal\<close> zero bytes.\<close>

definition InboundMessageState_assemble :: "InboundMessageState \<Rightarrow> bytes result" where
  "InboundMessageState_assemble s =
     (let d = present (im_fragments s); n = unat (im_byteTotal s)
      in ebind (require (length d \<le> n) Out_of_bounds) (\<lambda>_. Inr (d @ replicate (n - length d) 0)))"

definition InboundMessageState_allFragmentsReceived :: "InboundMessageState \<Rightarrow> bool" where
  "InboundMessageState_allFragmentsReceived s \<longleftrightarrow> im_gotLast s \<and> (\<forall>f \<in> set (im_fragments s). f \<noteq> None)"

definition InboundMessageState_getFragmentsReceived :: "InboundMessageState \<Rightarrow> bool list" where
  "InboundMessageState_getFragmentsReceived s = map (\<lambda>f. f \<noteq> None) (im_fragments s)"

subsection \<open>Outbound messages\<close>

record FragmentFlags =
  ff_ackd :: bool
  ff_sent :: bool

definition FragmentFlags_make :: FragmentFlags where
  "FragmentFlags_make = \<lparr>ff_ackd = False, ff_sent = False\<rparr>"

record OutboundMessageState =
  om_msgId :: u32
  om_data :: bytes
  om_fragments :: "(SSUFragment \<times> FragmentFlags) list"
  om_tries :: byte

definition OutboundMessageState_make :: "u32 \<Rightarrow> bytes \<Rightarrow> OutboundMessageState" where
  "OutboundMessageState_make msgId data =
     \<lparr>om_msgId = msgId, om_data = data, om_fragments = [], om_tries = 0\<rparr>"

definition maxFragmentSize :: nat where
  "maxFragmentSize = 1120"

function ssu_fragment_loop :: "u32 \<Rightarrow> bytes \<Rightarrow> nat \<Rightarrow> SSUFragment list" where
  "ssu_fragment_loop msgId rest i =
     (if rest = [] then []
      else let step = min (length rest) maxFragmentSize
           in \<lparr>sf_msgId = msgId, sf_isLast = (step < maxFragmentSize), sf_fragNum = of_nat i,
               sf_data = take step rest\<rparr> # ssu_fragment_loop msgId (drop step rest) (i + 1))"
  by pat_completeness auto
termination
  by (relation "measure (\<lambda>(m, rest, i). length rest)") (auto simp: maxFragmentSize_def)

declare ssu_fragment_loop.simps [simp del]

definition OutboundMessageState_fragment :: "OutboundMessageState \<Rightarrow> OutboundMessageState result" where
  "OutboundMessageState_fragment s =
     ebind (require (length (om_data s) \<le> 16383 * 127) (Runtime_error ''Outbound packet too large'')) (\<lambda>_.
     Inr (s\<lparr>om_fragments := om_fragments s @
            map (\<lambda>f. (f, FragmentFlags_make)) (ssu_fragment_loop (om_msgId s) (om_data s) 0)\<rparr>))"

definition OutboundMessageState_getNextFragment ::
  "OutboundMessageState \<Rightarrow> (SSUFragment option \<times> OutboundMessageState) result" where
  "OutboundMessageState_getNextFragment s =
     ebind (if om_fragments s = [] then OutboundMessageState_fragment s else Inr s) (\<lambda>s.
     Inr (map_option fst (find (\<lambda>fs. \<not> ff_sent (snd fs)) (om_fragments s)), s))"

definition OutboundMessageState_getNextUnackdFragment :: "OutboundMessageState \<Rightarrow> SSUFragment option" where
  "OutboundMessageState_getNextUnackdFragment s =
     map_option fst (find (\<lambda>fs. \<not> ff_ackd (snd fs)) (om_fragments s))"

definition set_flag ::
  "(FragmentFlags \<Rightarrow> FragmentFlags) \<Rightarrow> byte \<Rightarrow> OutboundMessageState \<Rightarrow> OutboundMessageState" where
  "set_flag g fragNum s =
     (let n = unat fragNum in
      if length (om_fragments s) \<le> n then s
      else s\<lparr>om_fragments := (om_fragments s)[n := apsnd g (om_fragments s ! n)]\<rparr>)"

definition OutboundMessageState_markFragmentSent :: "byte \<Rightarrow> OutboundMessageState \<Rightarrow> OutboundMessageState" where
  "OutboundMessageState_markFragmentSent = set_flag (ff_sent_update (\<lambda>_. True))"

definition OutboundMessageState_markFragmentAckd :: "byte \<Rightarrow> OutboundMessageState \<Rightarrow> OutboundMessageState" where
  "OutboundMessageState_markFragmentAckd = set_flag (ff_ackd_update (\<lambda>_. True))"

definition OutboundMessageState_allFragmentsSent :: "OutboundMessageState \<Rightarrow> bool" where
  "OutboundMessageState_allFragmentsSent s = list_all (\<lambda>fs. ff_sent (snd fs)) (om_fragments s)"

definition OutboundMessageState_allFragmentsAckd :: "OutboundMessageState \<Rightarrow> bool" where
  "OutboundMessageState_allFragmentsAckd s = list_all (\<lambda>fs. ff_ackd (snd fs)) (om_fragments s)"

definition OutboundMessageState_incrementTries :: "OutboundMessageState \<Rightarrow> OutboundMessageState" where
  "OutboundMessageState_incrementTries s = s\<lparr>om_tries := om_tries s + 1\<rparr>"

subsection \<open>Cutting a message\<close>

text \<open>The reference: pieces of 1120 bytes and a rest.\<close>

definition pieces :: "bytes \<Rightarrow> bytes list" where
  "pieces data = map (\<lambda>i. take 1120 (drop (1120 * i) data)) [0..<(length data + 1119) div 1120]"

definition piece_fragment :: "u32 \<Rightarrow> bytes \<Rightarrow> nat \<Rightarrow> SSUFragment" where
  "piece_fragment msgId d i = \<lparr>sf_msgId = msgId, sf_isLast = (length d < 1120), sf_fragNum = of_nat i, sf_data = d\<rparr>"

lemma ceil_div: "(n + 1119) div 1120 = n div 1120 + (if n mod 1120 = 0 then 0 else 1)" for n :: nat
proof -
  define q where "q = n div 1120"
  define r where "r = n mod 1120"
  have r: "r < 1120" by (simp add: r_def)
  have "n = 1120 * q + r" by (simp add: q_def r_def)
  then have "(n + 1119) div 1120 = q + (r + 1119) div 1120"
    by (simp add: add.assoc)
  moreover have "(r + 1119) div 1120 = (if r = 0 then 0 else 1)"
    using r by (auto intro: div_nat_eqI)
  ultimately show ?thesis by (simp add: q_def r_def)
qed

lemma pieces_Nil [simp]: "pieces [] = []"
  by (simp add: pieces_def)

lemma pieces_step: "data \<noteq> [] \<Longrightarrow> pieces data = take 1120 data # pieces (drop 1120 data)"
proof -
  assume "data \<noteq> []"
  then have pos: "0 < length data" by simp
  have count: "(length data + 1119) div 1120 = Suc ((length (drop 1120 data) + 1119) div 1120)"
  proof (cases "1120 \<le> length data")
    case True
    then obtain m where "length data = 1120 + m" using le_Suc_ex by blast
    then show ?thesis unfolding ceil_div by simp
  next
    case False
    with pos show ?thesis unfolding ceil_div by simp
  qed
  show ?thesis
    unfolding pieces_def count upt_conv_Cons [OF zero_less_Suc]
    by (simp add: map_Suc_upt [symmetric] comp_def add.commute del: upt_Suc)
qed

lemma fragment_loop_pieces:
  "ssu_fragment_loop msgId data i =
     map (\<lambda>(d, j). piece_fragment msgId d j) (zip (pieces data) [i..<i + length (pieces data)])"
proof (induction msgId data i rule: ssu_fragment_loop.induct)
  case (1 msgId rest i)
  show ?case
  proof (cases "rest = []")
    case True
    then show ?thesis by (simp add: ssu_fragment_loop.simps)
  next
    case False
    have upt: "[i..<Suc (i + n)] = i # [Suc i..<Suc (i + n)]" for n
      by (simp add: upt_conv_Cons del: upt_Suc)
    have drop_min: "drop (min (length rest) 1120) rest = drop 1120 rest"
      "take (min (length rest) 1120) rest = take 1120 rest"
      by (auto simp: min_def)
    have IH: "ssu_fragment_loop msgId (drop 1120 rest) (Suc i) =
        map (\<lambda>(d, j). piece_fragment msgId d j)
          (zip (pieces (drop 1120 rest)) [Suc i..<Suc (i + length (pieces (drop 1120 rest)))])"
      using 1 [OF False refl] by (simp add: maxFragmentSize_def drop_min del: upt_Suc)
    show ?thesis
      using False
      by (subst ssu_fragment_loop.simps)
        (simp add: IH pieces_step [OF False] upt maxFragmentSize_def drop_min piece_fragment_def [of _ "take 1120 rest"]
          del: upt_Suc)
  qed
qed

lemma length_pieces: "length (pieces data) = (length data + 1119) div 1120"
  by (simp add: pieces_def)

lemma concat_pieces: "concat (pieces data) = data"
proof (induction "length data" arbitrary: data rule: less_induct)
  case less
  show ?case
  proof (cases "data = []")
    case False
    then have "concat (pieces (drop 1120 data)) = drop 1120 data" by (intro less) simp
    with False show ?thesis by (simp add: pieces_step)
  qed simp
qed

lemma short_piece:
  assumes "j < length (pieces data)"
  shows "length (pieces data ! j) < 1120 \<longleftrightarrow> Suc j = length (pieces data) \<and> length data mod 1120 \<noteq> 0"
proof -
  define q where "q = length data div 1120"
  define r where "r = length data mod 1120"
  have n: "length data = 1120 * q + r" and c: "length (pieces data) = q + (if r = 0 then 0 else 1)"
    by (simp_all add: q_def r_def length_pieces ceil_div)
  from assms have "j < (length data + 1119) div 1120" by (simp add: length_pieces)
  then have len: "length (pieces data ! j) = min 1120 (1120 * q + r - 1120 * j)" by (simp add: pieces_def n)
  have r: "r < 1120" by (simp add: r_def)
  show ?thesis
  proof (cases "j < q")
    case True
    then have "1120 * (j + 1) \<le> 1120 * q" by (intro mult_le_mono2) simp
    with True show ?thesis unfolding len c by (simp add: r_def [symmetric])
  next
    case False
    with assms have "j = q" and "r \<noteq> 0" by (auto simp: c split: if_splits)
    with r show ?thesis unfolding len c by (simp add: r_def [symmetric])
  qed
qed

subsection \<open>Collecting the pieces\<close>

fun addFragments :: "SSUFragment list \<Rightarrow> InboundMessageState \<Rightarrow> InboundMessageState result" where
  "addFragments [] s = Inr s"
| "addFragments (f # fs) s =
     ebind (InboundMessageState_addFragment (sf_fragNum f) (sf_data f) (sf_isLast f) s) (addFragments fs)"

lemma addFragments_append:
  "addFragments (fs @ gs) s = ebind (addFragments fs s) (addFragments gs)"
proof (induction fs arbitrary: s)
  case (Cons f fs)
  then show ?case
    by (cases "InboundMessageState_addFragment (sf_fragNum f) (sf_data f) (sf_isLast f) s") auto
qed simp

definition extent :: "nat set \<Rightarrow> nat" where
  "extent R = (if R = {} then 0 else Suc (Max R))"

lemma extent_insert: "finite R \<Longrightarrow> extent (insert i R) = max (extent R) (Suc i)"
  by (simp add: extent_def max.commute)

lemma less_extent:
  assumes "finite R" and "i \<in> R"
  shows "i < extent R"
proof -
  have "i \<le> Max R" by (rule Max_ge [OF assms])
  moreover have "R \<noteq> {}" using assms(2) by blast
  ultimately show ?thesis by (simp only: extent_def if_False less_Suc_eq_le)
qed

lemma extent_le:
  assumes "finite R" and "R \<subseteq> {..<n}"
  shows "extent R \<le> n"
proof (cases "R = {}")
  case False
  from Max_in [OF assms(1) this] assms(2) have "Max R < n" by blast
  with False show ?thesis by (simp only: extent_def if_False Suc_le_eq)
qed (simp add: extent_def)

text \<open>The state in which exactly the pieces in \<open>R\<close> have arrived; \<open>flagged\<close> says whether the last one
  carries the last-fragment flag.\<close>

definition received ::
  "bool \<Rightarrow> bytes list \<Rightarrow> nat set \<Rightarrow> InboundMessageState \<Rightarrow> bool" where
  "received flagged ps R s \<longleftrightarrow>
     im_fragments s = map (\<lambda>i. if i \<in> R then Some (ps ! i) else None) [0..<extent R] \<and>
     im_gotLast s = (flagged \<and> length ps - 1 \<in> R) \<and>
     (im_gotLast s \<longrightarrow> im_lastFragment s = of_nat (length ps - 1)) \<and>
     im_byteTotal s = of_nat (\<Sum>i \<in> R. length (ps ! i))"

lemma received_make: "received flagged ps {} (InboundMessageState_make junk rh msgId)"
  by (simp add: received_def InboundMessageState_make_def extent_def)

lemma resize_received:
  assumes "finite R" and "i \<notin> R" and "v = map (\<lambda>j. if j \<in> R then Some (ps ! j) else None) [0..<extent R]"
    and "w = (if length v < i + 1 then resize_null (i + 1) v else v)"
  shows "i < length w \<and>
    w[i := Some (ps ! i)] =
      map (\<lambda>j. if j \<in> insert i R then Some (ps ! j) else None) [0..<extent (insert i R)]"
proof -
  have len: "length w = extent (insert i R)"
    using assms by (auto simp: extent_insert resize_null_def)
  have nth: "w ! j = (if j \<in> R then Some (ps ! j) else None)" if "j < length w" for j
    using that assms less_extent [OF assms(1), of j] by (auto simp: resize_null_def nth_append)
  have "w[i := Some (ps ! i)] =
      map (\<lambda>j. if j \<in> insert i R then Some (ps ! j) else None) [0..<extent (insert i R)]"
  proof (rule nth_equalityI)
    fix j assume "j < length (w[i := Some (ps ! i)])"
    then have "j < length w" by simp
    with len show "w[i := Some (ps ! i)] ! j =
        map (\<lambda>j. if j \<in> insert i R then Some (ps ! j) else None) [0..<extent (insert i R)] ! j"
      by (cases "j = i") (simp_all add: nth)
  qed (simp add: len)
  moreover have "i < length w" by (simp add: len extent_insert assms(1))
  ultimately show ?thesis by simp
qed

lemma addFragment_new:
  assumes "unat fragNum = n" and "unat (fragNum + 1) = Suc n"
    and "\<not> (im_gotLast s \<and> im_lastFragment s < fragNum)"
    and "\<not> (n < length (im_fragments s) \<and> im_fragments s ! n \<noteq> None)"
    and "w = (if length (im_fragments s) < n + 1 then resize_null (n + 1) (im_fragments s) else im_fragments s)"
    and "n < length w"
  shows "InboundMessageState_addFragment fragNum data isLast s =
    Inr ((if isLast then s\<lparr>im_gotLast := True, im_lastFragment := fragNum\<rparr> else s)
      \<lparr>im_fragments := w[n := Some data], im_byteTotal := im_byteTotal s + of_nat (length data)\<rparr>)"
  using assms by (cases isLast) (auto simp: InboundMessageState_addFragment_def Let_def)

lemma received_step:
  assumes s: "received flagged ps R s" and R: "R \<subseteq> {..<length ps}" and i: "i < length ps"
    and n: "length ps \<le> 255"
  shows "\<exists>t. InboundMessageState_addFragment (of_nat i) (ps ! i) (flagged \<and> Suc i = length ps) s = Inr t \<and>
    received flagged ps (insert i R) t"
proof -
  have fin: "finite R" using R finite_subset by blast
  have u: "unat (of_nat i :: byte) = i" "unat (of_nat i + 1 :: byte) = Suc i"
    using i n by (auto simp: unat_of_nat_byte unat_word_ariths)
  have le: "\<not> (of_nat (length ps - 1) :: byte) < of_nat i"
    using i n by (simp add: word_less_nat_alt unat_of_nat_byte del: of_nat_diff)
  show ?thesis
  proof (cases "i \<in> R")
    case True
    then have "im_fragments s ! i \<noteq> None" and "i < length (im_fragments s)"
      using s less_extent [OF fin True] by (auto simp: received_def)
    then have "InboundMessageState_addFragment (of_nat i) (ps ! i) (flagged \<and> Suc i = length ps) s = Inr s"
      using u by (simp add: InboundMessageState_addFragment_def Let_def)
    with True s show ?thesis by (simp add: insert_absorb)
  next
    case False
    define w where "w = (if length (im_fragments s) < i + 1 then resize_null (i + 1) (im_fragments s)
      else im_fragments s)"
    from s have v: "im_fragments s = map (\<lambda>j. if j \<in> R then Some (ps ! j) else None) [0..<extent R]"
      by (simp add: received_def)
    note w = resize_received [OF fin False v w_def]
    have nl: "\<not> (im_gotLast s \<and> im_lastFragment s < of_nat i)" using s le by (auto simp: received_def)
    have np: "\<not> (i < length (im_fragments s) \<and> im_fragments s ! i \<noteq> None)"
      using s False by (auto simp: received_def)
    note add = addFragment_new [OF u nl np w_def conjunct1 [OF w], of "ps ! i" "flagged \<and> Suc i = length ps"]
    have last: "(flagged \<and> Suc i = length ps) = (flagged \<and> i = length ps - 1)" using i by auto
    show ?thesis
      unfolding add using s w fin False
      by (auto simp: received_def last simp del: of_nat_diff One_nat_def)
  qed
qed

lemma received_all:
  assumes "set js \<subseteq> {..<length ps}" and "length ps \<le> 255" and "received flagged ps R s" and "R \<subseteq> {..<length ps}"
  shows "\<exists>t. addFragments (map (\<lambda>i. \<lparr>sf_msgId = msgId, sf_isLast = (flagged \<and> Suc i = length ps),
      sf_fragNum = of_nat i, sf_data = ps ! i\<rparr>) js) s = Inr t \<and> received flagged ps (R \<union> set js) t"
  using assms
proof (induction js arbitrary: R s)
  case (Cons i js)
  then obtain t where t: "InboundMessageState_addFragment (of_nat i) (ps ! i) (flagged \<and> Suc i = length ps) s = Inr t"
    "received flagged ps (insert i R) t"
    using received_step [of flagged ps R s i] by auto
  with Cons.IH [of "insert i R" t] Cons.prems show ?case by auto
qed simp

lemma received_flags:
  "received flagged ps R s \<Longrightarrow>
   InboundMessageState_getFragmentsReceived s = map (\<lambda>i. i \<in> R) [0..<extent R]"
  by (auto simp: received_def InboundMessageState_getFragmentsReceived_def)

lemma received_complete_iff:
  assumes s: "received flagged ps R s" and R: "R \<subseteq> {..<length ps}" and "ps \<noteq> []"
  shows "InboundMessageState_allFragmentsReceived s \<longleftrightarrow> flagged \<and> R = {..<length ps}"
proof -
  have fin: "finite R" using R finite_subset by blast
  have all: "(\<forall>f \<in> set (im_fragments s). f \<noteq> None) \<longleftrightarrow> (\<forall>i < extent R. i \<in> R)"
    using s by (auto simp: received_def)
  show ?thesis
  proof
    assume "InboundMessageState_allFragmentsReceived s"
    then have *: "flagged" "length ps - 1 \<in> R" "\<forall>i < extent R. i \<in> R"
      using s by (auto simp: InboundMessageState_allFragmentsReceived_def all received_def)
    from less_extent [OF fin *(2)] * R have "R = {..<length ps}" by fastforce
    with *(1) show "flagged \<and> R = {..<length ps}" by simp
  next
    assume *: "flagged \<and> R = {..<length ps}"
    with extent_le [OF fin R] have "\<forall>i < extent R. i \<in> R" by auto
    with * s assms(3) show "InboundMessageState_allFragmentsReceived s"
      by (simp add: InboundMessageState_allFragmentsReceived_def all) (simp add: received_def)
  qed
qed

lemma received_assemble:
  assumes s: "received flagged ps {..<length ps} s" and "length (concat ps) < 2 ^ 32"
  shows "InboundMessageState_assemble s = Inr (concat ps)"
proof -
  have extent: "extent {..<length ps} = length ps"
  proof (cases "length ps")
    case (Suc n)
    have "Max {..<Suc n} = n" by (rule Max_eqI) auto
    moreover have "{..<Suc n} \<noteq> {}" by blast
    ultimately show ?thesis by (simp only: Suc extent_def if_False)
  qed (simp add: extent_def)
  have "im_fragments s = map Some ps"
    using s by (intro nth_equalityI) (auto simp: received_def extent)
  then have "present (im_fragments s) = concat ps"
    by (simp add: present_def comp_def)
  moreover have "(\<Sum>i < length ps. length (ps ! i)) = length (concat ps)"
    by (simp add: length_concat sum_list_sum_nth atLeast0LessThan)
  ultimately show ?thesis
    using s assms(2)
    by (simp add: InboundMessageState_assemble_def received_def unat_of_nat_u32 Let_def)
qed

subsection \<open>Properties\<close>

lemma fragment_make:
  assumes "length data \<le> 16383 * 127"
  shows "OutboundMessageState_fragment (OutboundMessageState_make msgId data) =
    Inr \<lparr>om_msgId = msgId, om_data = data,
      om_fragments = map (\<lambda>i. (piece_fragment msgId (pieces data ! i) i, FragmentFlags_make))
        [0..<length (pieces data)], om_tries = 0\<rparr>"
proof -
  have "map (\<lambda>(d, j). (piece_fragment msgId d j, FragmentFlags_make))
      (zip (pieces data) [0..<length (pieces data)]) =
    map (\<lambda>i. (piece_fragment msgId (pieces data ! i) i, FragmentFlags_make)) [0..<length (pieces data)]"
    by (rule nth_equalityI) auto
  with assms show ?thesis
    by (simp add: OutboundMessageState_fragment_def OutboundMessageState_make_def fragment_loop_pieces
        comp_def case_prod_unfold)
qed

text \<open>The fragments \<open>OutboundMessageState\<close> cuts from a message, delivered to an
  \<open>InboundMessageState\<close> in any order and with any repetitions, are recorded exactly; the state reports
  completion if and only if every fragment has arrived and the message length is not a multiple of
  1120 (then no fragment is flagged as the last one, and the receiver waits forever); once all have
  arrived \<open>assemble\<close> returns the message.\<close>

theorem ssu_message_roundtrip:
  assumes data: "data \<noteq> []" "length data \<le> 255 * 1120"
    and frag: "OutboundMessageState_fragment (OutboundMessageState_make msgId data) = Inr out"
    and js: "set js \<subseteq> {..<length (om_fragments out)}"
    and fs: "fs = map (\<lambda>j. fst (om_fragments out ! j)) js"
  shows "\<exists>s. addFragments fs (InboundMessageState_make junk rh msgId) = Inr s \<and>
    (\<forall>i. i < length (InboundMessageState_getFragmentsReceived s) \<longrightarrow>
       InboundMessageState_getFragmentsReceived s ! i = (i \<in> set js)) \<and>
    (InboundMessageState_allFragmentsReceived s \<longleftrightarrow>
       set js = {..<length (om_fragments out)} \<and> length data mod 1120 \<noteq> 0) \<and>
    (set js = {..<length (om_fragments out)} \<longrightarrow> InboundMessageState_assemble s = Inr data)"
proof -
  let ?ps = "pieces data" and ?flagged = "length data mod 1120 \<noteq> 0"
  have out: "om_fragments out =
      map (\<lambda>i. (piece_fragment msgId (?ps ! i) i, FragmentFlags_make)) [0..<length ?ps]"
    using frag data by (auto simp: fragment_make)
  have js': "set js \<subseteq> {..<length ?ps}" using js by (simp add: out)
  have n: "length ?ps \<le> 255" using data(2) by (simp add: length_pieces)
  have ps: "?ps \<noteq> []" by (simp add: pieces_step [OF data(1)])
  have fs': "fs = map (\<lambda>i. \<lparr>sf_msgId = msgId, sf_isLast = (?flagged \<and> Suc i = length ?ps),
      sf_fragNum = of_nat i, sf_data = ?ps ! i\<rparr>) js"
    unfolding fs using js' by (auto simp: out piece_fragment_def short_piece)
  obtain s where s: "addFragments fs (InboundMessageState_make junk rh msgId) = Inr s"
    and rec: "received ?flagged ?ps (set js) s"
    using received_all [OF js' n received_make empty_subsetI, of msgId ?flagged junk rh msgId]
    unfolding fs' Un_empty_left by (elim exE conjE)
  have "InboundMessageState_assemble s = Inr data" if "set js = {..<length ?ps}"
    using received_assemble [of ?flagged ?ps s] rec data(2) that by (simp add: concat_pieces)
  with s show ?thesis
    using received_complete_iff [OF rec js' ps] received_flags [OF rec] by (auto simp: out)
qed

theorem ssu_message_roundtrip_witness:
  "\<exists>s. addFragments [\<lparr>sf_msgId = 9, sf_isLast = True, sf_fragNum = 0, sf_data = [1, 2, 3]\<rparr>,
        \<lparr>sf_msgId = 9, sf_isLast = True, sf_fragNum = 0, sf_data = [1, 2, 3]\<rparr>]
      (InboundMessageState_make 77 [] 9) = Inr s \<and>
    InboundMessageState_allFragmentsReceived s \<and> InboundMessageState_assemble s = Inr [1, 2, 3]"
proof -
  let ?out = "\<lparr>om_msgId = 9, om_data = [1, 2, 3],
    om_fragments = [(piece_fragment 9 [1, 2, 3] 0, FragmentFlags_make)], om_tries = 0\<rparr>"
  have "OutboundMessageState_fragment (OutboundMessageState_make 9 [1, 2, 3]) = Inr ?out"
    by (simp add: fragment_make pieces_step)
  from ssu_message_roundtrip [OF _ _ this, of "[0, 0]" _ 77 "[]"] show ?thesis
    by (force simp: piece_fragment_def lessThan_Suc)
qed

end
