(* ===== verification/SSU_Peers.thy ===== *)
theory SSU_Peers
  imports SSU_Packet
begin

text \<open>
  \<open>SSU::PeerState\<close> and \<open>SSU::PeerStateList\<close>: the established sessions, indexed by endpoint and by
  router hash. The container is the list of its entries in the order its iterators visit them; an
  entry owns a deadline timer, kept as the second it expires at. Both indices are unique, so an
  insertion or replacement that would duplicate an endpoint is refused, silently.
\<close>

record PeerState =
  ps_endpoint :: Endpoint
  ps_routerHash :: bytes
  ps_sessionKey :: bytes
  ps_macKey :: bytes
  ps_nextSessionKey :: bytes
  ps_nextMacKey :: bytes

text \<open>The four keys have no initializer.\<close>

definition PeerState_make :: "bytes \<Rightarrow> Endpoint \<Rightarrow> bytes \<Rightarrow> PeerState" where
  "PeerState_make junk ep rh =
     \<lparr>ps_endpoint = ep, ps_routerHash = rh, ps_sessionKey = junk, ps_macKey = junk,
      ps_nextSessionKey = junk, ps_nextMacKey = junk\<rparr>"

definition PeerState_setCurrentSessionKey :: "bytes \<Rightarrow> PeerState \<Rightarrow> PeerState" where
  "PeerState_setCurrentSessionKey sk ps = ps\<lparr>ps_sessionKey := sk\<rparr>"

definition PeerState_setCurrentMacKey :: "bytes \<Rightarrow> PeerState \<Rightarrow> PeerState" where
  "PeerState_setCurrentMacKey mk ps = ps\<lparr>ps_macKey := mk\<rparr>"

definition PeerState_setNextSessionKey :: "bytes \<Rightarrow> PeerState \<Rightarrow> PeerState" where
  "PeerState_setNextSessionKey sk ps = ps\<lparr>ps_nextSessionKey := sk\<rparr>"

definition PeerState_setNextMacKey :: "bytes \<Rightarrow> PeerState \<Rightarrow> PeerState" where
  "PeerState_setNextMacKey mk ps = ps\<lparr>ps_nextMacKey := mk\<rparr>"

record PeerStateContainer =
  pc_state :: PeerState
  pc_timer :: nat

type_synonym PeerStateList = "PeerStateContainer list"

definition pc_endpoint :: "PeerStateContainer \<Rightarrow> Endpoint" where
  "pc_endpoint c = ps_endpoint (pc_state c)"

definition pc_hash :: "PeerStateContainer \<Rightarrow> bytes" where
  "pc_hash c = ps_routerHash (pc_state c)"

definition by_endpoint :: "Endpoint \<Rightarrow> PeerStateList \<Rightarrow> PeerStateContainer option" where
  "by_endpoint ep l = find (\<lambda>c. pc_endpoint c = ep) l"

definition by_hash :: "bytes \<Rightarrow> PeerStateList \<Rightarrow> PeerStateContainer option" where
  "by_hash rh l = find (\<lambda>c. pc_hash c = rh) l"

definition PeerStateList_addPeer :: "nat \<Rightarrow> PeerState \<Rightarrow> PeerStateList \<Rightarrow> PeerStateList" where
  "PeerStateList_addPeer now ps l =
     (let psc = \<lparr>pc_state = ps, pc_timer = now + 20 * 60\<rparr> in
      case by_hash (ps_routerHash ps) l of
        None \<Rightarrow> (if by_endpoint (ps_endpoint ps) l = None then l @ [psc] else l)
      | Some old \<Rightarrow>
          (case by_endpoint (ps_endpoint ps) l of
             None \<Rightarrow> map (\<lambda>c. if pc_hash c = ps_routerHash ps then psc else c) l
           | Some other \<Rightarrow>
               if pc_hash other = ps_routerHash ps
               then map (\<lambda>c. if pc_hash c = ps_routerHash ps then psc else c) l else l))"

definition PeerStateList_getPeer :: "Endpoint \<Rightarrow> PeerStateList \<Rightarrow> PeerState result" where
  "PeerStateList_getPeer ep l =
     (case by_endpoint ep l of None \<Rightarrow> Inl (Runtime_error ''record not found'') | Some c \<Rightarrow> Inr (pc_state c))"

definition PeerStateList_getPeer_hash :: "bytes \<Rightarrow> PeerStateList \<Rightarrow> PeerState result" where
  "PeerStateList_getPeer_hash rh l =
     (case by_hash rh l of None \<Rightarrow> Inl (Runtime_error ''record not found'') | Some c \<Rightarrow> Inr (pc_state c))"

definition PeerStateList_delPeer :: "Endpoint \<Rightarrow> PeerStateList \<Rightarrow> PeerStateList" where
  "PeerStateList_delPeer ep l = filter (\<lambda>c. pc_endpoint c \<noteq> ep) l"

definition PeerStateList_delPeer_hash :: "bytes \<Rightarrow> PeerStateList \<Rightarrow> PeerStateList" where
  "PeerStateList_delPeer_hash rh l = filter (\<lambda>c. pc_hash c \<noteq> rh) l"

definition PeerStateList_peerExists :: "Endpoint \<Rightarrow> PeerStateList \<Rightarrow> bool" where
  "PeerStateList_peerExists ep l \<longleftrightarrow> by_endpoint ep l \<noteq> None"

definition PeerStateList_peerExists_hash :: "bytes \<Rightarrow> PeerStateList \<Rightarrow> bool" where
  "PeerStateList_peerExists_hash rh l \<longleftrightarrow> by_hash rh l \<noteq> None"

definition PeerStateList_resetPeerTimer :: "bytes \<Rightarrow> PeerStateList \<Rightarrow> PeerStateList result" where
  "PeerStateList_resetPeerTimer rh l =
     (case by_hash rh l of
        None \<Rightarrow> Inl (Runtime_error ''record not found'')
      | Some c \<Rightarrow> Inr (map (\<lambda>c. if pc_hash c = rh then c\<lparr>pc_timer := pc_timer c + 20 * 60\<rparr> else c) l))"

definition PeerStateList_numPeers :: "PeerStateList \<Rightarrow> u32" where
  "PeerStateList_numPeers l = of_nat (length l)"

subsection \<open>Both indices stay unique\<close>

definition peers_ok :: "PeerStateList \<Rightarrow> bool" where
  "peers_ok l \<longleftrightarrow> distinct (map pc_endpoint l) \<and> distinct (map pc_hash l)"

lemma by_hash_None: "by_hash rh l = None \<longleftrightarrow> rh \<notin> pc_hash ` set l"
  by (auto simp: by_hash_def find_None_iff)

lemma by_hash_in: "by_hash rh l = Some c \<Longrightarrow> rh \<in> pc_hash ` set l"
  using by_hash_None [of rh l] by auto

lemma by_endpoint_None: "by_endpoint ep l = None \<longleftrightarrow> ep \<notin> pc_endpoint ` set l"
  by (auto simp: by_endpoint_def find_None_iff)

lemma find_key:
  "distinct (map key l) \<Longrightarrow> find (\<lambda>c. key c = k) l = Some c \<longleftrightarrow> c \<in> set l \<and> key c = k"
  by (induction l) (auto simp: image_iff)

lemma by_hash_Some: "peers_ok l \<Longrightarrow> by_hash rh l = Some c \<longleftrightarrow> c \<in> set l \<and> pc_hash c = rh"
  by (simp add: by_hash_def peers_ok_def find_key)

lemma by_endpoint_Some: "peers_ok l \<Longrightarrow> by_endpoint ep l = Some c \<longleftrightarrow> c \<in> set l \<and> pc_endpoint c = ep"
  by (simp add: by_endpoint_def peers_ok_def find_key)

lemma distinct_map_update:
  assumes "distinct (map key l)" and "distinct (map k' l)" and "key new = k"
    and "\<And>c. c \<in> set l \<Longrightarrow> k' c \<noteq> r \<Longrightarrow> key c \<noteq> k"
  shows "distinct (map (key \<circ> (\<lambda>c. if k' c = r then new else c)) l)"
  using assms
proof (induction l)
  case (Cons c l)
  then show ?case by (cases "k' c = r") (auto simp: image_iff, metis+)
qed simp

definition peer_container :: "nat \<Rightarrow> PeerState \<Rightarrow> PeerStateContainer" where
  "peer_container now ps = \<lparr>pc_state = ps, pc_timer = now + 20 * 60\<rparr>"

text \<open>The endpoint of \<open>ps\<close> belongs to another session.\<close>

definition endpoint_taken :: "PeerState \<Rightarrow> PeerStateList \<Rightarrow> bool" where
  "endpoint_taken ps l \<longleftrightarrow> (\<exists>c \<in> set l. pc_endpoint c = ps_endpoint ps \<and> pc_hash c \<noteq> ps_routerHash ps)"

lemma addPeer_cases:
  assumes "peers_ok l"
  shows "PeerStateList_addPeer now ps l =
    (if endpoint_taken ps l then l
     else if ps_routerHash ps \<in> pc_hash ` set l
     then map (\<lambda>c. if pc_hash c = ps_routerHash ps then peer_container now ps else c) l
     else l @ [peer_container now ps])"
proof (cases "by_endpoint (ps_endpoint ps) l")
  case None
  then have "\<not> endpoint_taken ps l" by (force simp: by_endpoint_None endpoint_taken_def)
  with None show ?thesis
    by (auto simp: PeerStateList_addPeer_def by_hash_None peer_container_def Let_def split: option.splits dest: by_hash_in)
next
  case (Some c)
  then have c: "c \<in> set l" "pc_endpoint c = ps_endpoint ps" using assms by (auto simp: by_endpoint_Some)
  have "endpoint_taken ps l \<longleftrightarrow> pc_hash c \<noteq> ps_routerHash ps"
  proof
    assume "endpoint_taken ps l"
    then obtain d where "d \<in> set l" "pc_endpoint d = ps_endpoint ps" "pc_hash d \<noteq> ps_routerHash ps"
      by (auto simp: endpoint_taken_def)
    moreover from this have "by_endpoint (ps_endpoint ps) l = Some d" using assms by (simp add: by_endpoint_Some)
    ultimately show "pc_hash c \<noteq> ps_routerHash ps" using Some by simp
  qed (use c in \<open>auto simp: endpoint_taken_def\<close>)
  moreover have "pc_hash c = ps_routerHash ps \<Longrightarrow> ps_routerHash ps \<in> pc_hash ` set l"
    using c(1) by (metis imageI)
  ultimately show ?thesis using Some
    by (auto simp: PeerStateList_addPeer_def by_hash_None peer_container_def Let_def split: option.splits dest: by_hash_in)
qed

lemma container_simps [simp]:
  "pc_hash (peer_container now ps) = ps_routerHash ps"
  "pc_endpoint (peer_container now ps) = ps_endpoint ps"
  "pc_state (peer_container now ps) = ps"
  by (simp_all add: peer_container_def pc_hash_def pc_endpoint_def)

lemma addPeer_ok:
  assumes ok: "peers_ok l"
  shows "peers_ok (PeerStateList_addPeer now ps l)"
proof -
  let ?f = "\<lambda>c. if pc_hash c = ps_routerHash ps then peer_container now ps else c"
  have "distinct (map (pc_endpoint \<circ> ?f) l)" if "\<not> endpoint_taken ps l"
    using ok that by (intro distinct_map_update) (auto simp: peers_ok_def endpoint_taken_def)
  moreover have "distinct (map (pc_hash \<circ> ?f) l)"
    using ok by (intro distinct_map_update) (auto simp: peers_ok_def)
  ultimately show ?thesis
    using ok by (auto simp: addPeer_cases [OF ok] peers_ok_def) (force simp: endpoint_taken_def)
qed

lemma delPeer_ok: "peers_ok l \<Longrightarrow> peers_ok (PeerStateList_delPeer ep l)"
  by (auto simp: peers_ok_def PeerStateList_delPeer_def distinct_map_filter)

lemma delPeer_hash_ok: "peers_ok l \<Longrightarrow> peers_ok (PeerStateList_delPeer_hash rh l)"
  by (auto simp: peers_ok_def PeerStateList_delPeer_hash_def distinct_map_filter)

lemma timer_simps [simp]:
  "pc_hash (c\<lparr>pc_timer := t\<rparr>) = pc_hash c" "pc_endpoint (c\<lparr>pc_timer := t\<rparr>) = pc_endpoint c"
  by (simp_all add: pc_hash_def pc_endpoint_def)

lemma resetPeerTimer_ok: "peers_ok l \<Longrightarrow> PeerStateList_resetPeerTimer rh l = Inr l' \<Longrightarrow> peers_ok l'"
  by (auto simp: peers_ok_def PeerStateList_resetPeerTimer_def comp_def if_distrib cong: if_cong
      split: option.splits)

lemmas peers_ok_ops = addPeer_ok delPeer_ok delPeer_hash_ok resetPeerTimer_ok

lemma getPeer_hash_in: "peers_ok l \<Longrightarrow> c \<in> set l \<Longrightarrow> PeerStateList_getPeer_hash (pc_hash c) l = Inr (pc_state c)"
  using by_hash_Some [of l "pc_hash c" c] by (simp add: PeerStateList_getPeer_hash_def)

lemma getPeer_in: "peers_ok l \<Longrightarrow> c \<in> set l \<Longrightarrow> PeerStateList_getPeer (pc_endpoint c) l = Inr (pc_state c)"
  using by_endpoint_Some [of l "pc_endpoint c" c] by (simp add: PeerStateList_getPeer_def)

lemma find_map_update:
  "k' \<noteq> r \<Longrightarrow> key new = r \<Longrightarrow> find (\<lambda>c. key c = k') (map (\<lambda>c. if key c = r then new else c) l) = find (\<lambda>c. key c = k') l"
  by (induction l) auto

lemma find_append_other: "\<not> P new \<Longrightarrow> find P (l @ [new]) = find P l"
  by (induction l) auto

lemma find_filter_other: "find (\<lambda>c. key c = k') (filter (\<lambda>c. key c \<noteq> k) l) = (if k' = k then None else find (\<lambda>c. key c = k') l)"
  by (induction l) auto

lemma by_hash_addPeer_other:
  "peers_ok l \<Longrightarrow> rh \<noteq> ps_routerHash ps \<Longrightarrow> by_hash rh (PeerStateList_addPeer now ps l) = by_hash rh l"
  by (auto simp: addPeer_cases by_hash_def find_map_update find_append_other)

lemma by_hash_delPeer: "by_hash rh (PeerStateList_delPeer_hash rh' l) = (if rh = rh' then None else by_hash rh l)"
  unfolding by_hash_def PeerStateList_delPeer_hash_def by (rule find_filter_other)

lemma by_endpoint_delPeer: "by_endpoint ep (PeerStateList_delPeer ep' l) = (if ep = ep' then None else by_endpoint ep l)"
  unfolding by_endpoint_def PeerStateList_delPeer_def by (rule find_filter_other)

lemma addPeer_in:
  "peers_ok l \<Longrightarrow> \<not> endpoint_taken ps l \<Longrightarrow> peer_container now ps \<in> set (PeerStateList_addPeer now ps l)"
  by (auto simp: addPeer_cases image_iff)

subsection \<open>Properties\<close>

text \<open>C36. A session added to the list is found by its hash and by its endpoint, sessions with
  another hash keep their entries, and both indices stay unique; only when the endpoint already
  belongs to another router is the new session dropped, without an error, and the list left as it
  was. A deleted session is found by no index and no other session is lost.\<close>

theorem peer_list_indices:
  fixes now :: nat and ps :: PeerState
  assumes ok: "peers_ok l"
  defines "l' \<equiv> PeerStateList_addPeer now ps l"
  shows "peers_ok l' \<and>
    (if endpoint_taken ps l then l' = l
     else PeerStateList_getPeer_hash (ps_routerHash ps) l' = Inr ps \<and>
          PeerStateList_getPeer (ps_endpoint ps) l' = Inr ps \<and>
          (\<forall>rh. rh \<noteq> ps_routerHash ps \<longrightarrow>
             PeerStateList_getPeer_hash rh l' = PeerStateList_getPeer_hash rh l)) \<and>
    (\<forall>rh rh'. PeerStateList_getPeer_hash rh (PeerStateList_delPeer_hash rh' l) =
       (if rh = rh' then Inl (Runtime_error ''record not found'') else PeerStateList_getPeer_hash rh l)) \<and>
    (\<forall>ep ep'. PeerStateList_getPeer ep (PeerStateList_delPeer ep' l) =
       (if ep = ep' then Inl (Runtime_error ''record not found'') else PeerStateList_getPeer ep l))"
proof -
  have "peers_ok l'" unfolding l'_def by (rule addPeer_ok [OF ok])
  moreover have "l' = l" if "endpoint_taken ps l"
    using that by (simp add: l'_def addPeer_cases [OF ok])
  moreover have "PeerStateList_getPeer_hash (ps_routerHash ps) l' = Inr ps \<and>
      PeerStateList_getPeer (ps_endpoint ps) l' = Inr ps" if "\<not> endpoint_taken ps l"
  proof -
    have "peer_container now ps \<in> set l'" unfolding l'_def by (rule addPeer_in [OF ok that])
    with \<open>peers_ok l'\<close> show ?thesis using getPeer_hash_in getPeer_in by fastforce
  qed
  ultimately show ?thesis
    using by_hash_addPeer_other [OF ok, of _ ps now]
    by (simp add: l'_def PeerStateList_getPeer_hash_def [of _ "PeerStateList_delPeer_hash _ _"]
        PeerStateList_getPeer_def [of _ "PeerStateList_delPeer _ _"] by_hash_delPeer by_endpoint_delPeer)
      (simp add: PeerStateList_getPeer_hash_def PeerStateList_getPeer_def)
qed

definition sample_peer :: PeerState where
  "sample_peer = PeerState_setCurrentMacKey [6] (PeerState_setCurrentSessionKey [5]
     (PeerState_make [] sample_endpoint [1, 1]))"

theorem peer_list_indices_witness:
  "PeerStateList_getPeer_hash [1, 1] (PeerStateList_addPeer 0 sample_peer []) = Inr sample_peer \<and>
   PeerStateList_addPeer 0 (sample_peer\<lparr>ps_routerHash := [2, 2]\<rparr>) [peer_container 0 sample_peer] =
     [peer_container 0 sample_peer]"
proof
  have "peers_ok []" by (simp add: peers_ok_def)
  from peer_list_indices [OF this, of 0 sample_peer]
  show "PeerStateList_getPeer_hash [1, 1] (PeerStateList_addPeer 0 sample_peer []) = Inr sample_peer"
    by (simp add: endpoint_taken_def)
      (simp add: sample_peer_def PeerState_make_def PeerState_setCurrentSessionKey_def PeerState_setCurrentMacKey_def)
  have "peers_ok [peer_container 0 sample_peer]" by (simp add: peers_ok_def)
  from peer_list_indices [OF this, of 0 "sample_peer\<lparr>ps_routerHash := [2, 2]\<rparr>"]
  show "PeerStateList_addPeer 0 (sample_peer\<lparr>ps_routerHash := [2, 2]\<rparr>) [peer_container 0 sample_peer] =
     [peer_container 0 sample_peer]"
    by (simp add: endpoint_taken_def)
      (simp add: sample_peer_def PeerState_make_def PeerState_setCurrentSessionKey_def PeerState_setCurrentMacKey_def)
qed

end
