(* ===== verification/SSU_Data.thy ===== *)
theory SSU_Data
  imports SSU_Messages SSU_Peers Std_Map
begin

text \<open>
  The data phase of an SSU session: \<open>InboundMessageFragments\<close> (reading a data packet: explicit
  acknowledgements, acknowledgement bit fields, message fragments) and \<open>OutboundMessageFragments\<close>
  (sending, retransmitting).

  A handler returns the tables, what it sent or posted to the io service, and the exception it left
  with, if any: what it did before the exception stays done. The index of the inbound table that the
  acknowledgement run follows is ordered by router hash, so the table is a list in that order. An
  entry owns its ten-second timer, which is destroyed (and its callback cancelled) with it.
\<close>

record ContainerEntry =
  ce_msgId :: u32
  ce_hash :: bytes
  ce_state :: InboundMessageState

record MessageTables =
  mt_omf :: "(u32, OutboundMessageState) smap"
  mt_imf :: "ContainerEntry list"

datatype ssu_out =
    Send_packet Packet
  | Post_received bytes u32 bytes
  | Post_sendData PeerState u32
  | Arm_resend PeerState u32
  | Arm_flush

type_synonym data_result = "MessageTables \<times> ssu_out list \<times> nat result"

subsection \<open>Inbound table\<close>

definition imf_find :: "u32 \<Rightarrow> MessageTables \<Rightarrow> ContainerEntry option" where
  "imf_find msgId t = find (\<lambda>c. ce_msgId c = msgId) (mt_imf t)"

text \<open>\<open>m_states.insert\<close>: refused for a message id that is there, else behind all entries whose hash is
  not greater.\<close>

definition imf_insert :: "ContainerEntry \<Rightarrow> MessageTables \<Rightarrow> MessageTables" where
  "imf_insert c t =
     (if imf_find (ce_msgId c) t \<noteq> None then t
      else t\<lparr>mt_imf := takeWhile (\<lambda>d. ce_hash d \<le> ce_hash c) (mt_imf t) @ [c] @
             dropWhile (\<lambda>d. ce_hash d \<le> ce_hash c) (mt_imf t)\<rparr>)"

definition imf_addState :: "u32 \<Rightarrow> bytes \<Rightarrow> InboundMessageState \<Rightarrow> MessageTables \<Rightarrow> MessageTables" where
  "imf_addState msgId rh ims = imf_insert \<lparr>ce_msgId = msgId, ce_hash = rh, ce_state = ims\<rparr>"

definition imf_delState :: "u32 \<Rightarrow> MessageTables \<Rightarrow> MessageTables" where
  "imf_delState msgId t = t\<lparr>mt_imf := filter (\<lambda>c. ce_msgId c \<noteq> msgId) (mt_imf t)\<rparr>"

definition imf_timerCallback :: "bool \<Rightarrow> u32 \<Rightarrow> MessageTables \<Rightarrow> MessageTables" where
  "imf_timerCallback e msgId t = (if e then t else imf_delState msgId t)"

definition checkAndPost :: "u32 \<Rightarrow> InboundMessageState \<Rightarrow> ssu_out list result" where
  "checkAndPost msgId ims =
     (if InboundMessageState_allFragmentsReceived ims
      then ebind (InboundMessageState_assemble ims) (\<lambda>data.
           Inr (if data \<noteq> [] then [Post_received (im_routerHash ims) msgId data] else []))
      else Inr [])"

definition AddFragment_apply ::
  "byte \<Rightarrow> bytes \<Rightarrow> bool \<Rightarrow> u32 \<Rightarrow> MessageTables \<Rightarrow> MessageTables result" where
  "AddFragment_apply fragNum data isLast msgId t =
     (case imf_find msgId t of
        None \<Rightarrow> Inr t
      | Some c \<Rightarrow>
          ebind (InboundMessageState_addFragment fragNum data isLast (ce_state c)) (\<lambda>s.
          Inr (t\<lparr>mt_imf := map (\<lambda>d. if ce_msgId d = msgId then d\<lparr>ce_state := s\<rparr> else d) (mt_imf t)\<rparr>)))"

text \<open>The part of the fragment loop behind \<open>ByteArray fragData(begin, begin + fragSize)\<close>; \<open>junk\<close> is the
  uninitialized \<open>m_lastFragment\<close> of a new state.\<close>

definition acceptFragment ::
  "byte \<Rightarrow> bytes \<Rightarrow> u32 \<Rightarrow> byte \<Rightarrow> bytes \<Rightarrow> bool \<Rightarrow> MessageTables \<Rightarrow> (MessageTables \<times> ssu_out list) result" where
  "acceptFragment junk rh msgId fragNum fragData isLast t =
     (case imf_find msgId t of
        None \<Rightarrow>
          ebind (InboundMessageState_addFragment fragNum fragData isLast
            (InboundMessageState_make junk rh msgId)) (\<lambda>ims.
          ebind (checkAndPost msgId ims) (\<lambda>out. Inr (imf_addState msgId rh ims t, out)))
      | Some c \<Rightarrow>
          ebind (AddFragment_apply fragNum fragData isLast msgId t) (\<lambda>t.
          case imf_find msgId t of
            None \<Rightarrow> Inl Null_dereference
          | Some c \<Rightarrow> ebind (checkAndPost msgId (ce_state c)) (\<lambda>out. Inr (t, out))))"

subsection \<open>Outbound table\<close>

definition omf_delState :: "u32 \<Rightarrow> MessageTables \<Rightarrow> MessageTables" where
  "omf_delState msgId t = t\<lparr>mt_omf := smap_erase msgId (mt_omf t)\<rparr>"

record ssu_env =
  se_aes :: cipher
  se_md5 :: "bytes \<Rightarrow> bytes"
  se_iv :: "nat \<Rightarrow> bytes"
  se_time :: u32

text \<open>\<open>p->encrypt(ps.getCurrentSessionKey(), ps.getCurrentMacKey()); m_context.sendPacket(p)\<close>; \<open>k\<close>
  counts the packets one handler seals, each with its own random initialization vector.\<close>

definition seal :: "ssu_env \<Rightarrow> nat \<Rightarrow> PeerState \<Rightarrow> Packet \<Rightarrow> Packet result" where
  "seal env k ps p = Packet_encrypt (se_aes env) (se_md5 env) (se_iv env k) (ps_sessionKey ps) (ps_macKey ps) p"

text \<open>\<open>emplace\<close> keeps a state that is there; the new one and its timer are then destroyed.\<close>

definition omf_sendData :: "PeerState \<Rightarrow> u32 \<Rightarrow> bytes \<Rightarrow> MessageTables \<Rightarrow> MessageTables \<times> ssu_out list" where
  "omf_sendData ps msgId data t =
     (case smap_find (mt_omf t) msgId of
        None \<Rightarrow> (t\<lparr>mt_omf := smap_put msgId (OutboundMessageState_make msgId data) (mt_omf t)\<rparr>,
                 [Arm_resend ps msgId, Post_sendData ps msgId])
      | Some _ \<Rightarrow> (t, [Post_sendData ps msgId]))"

definition send_fragment ::
  "ssu_env \<Rightarrow> PeerState \<Rightarrow> SSUFragment \<Rightarrow> OutboundMessageState \<Rightarrow> (OutboundMessageState \<times> Packet) result" where
  "send_fragment env ps f oms =
     (let oms = OutboundMessageState_markFragmentSent (sf_fragNum f) oms in
      ebind (buildData (se_time env) (ps_endpoint ps) False [] [] [f]) (\<lambda>p.
      ebind (seal env 0 ps p) (\<lambda>q. Inr (oms, q))))"

definition omf_sendDataCallback ::
  "ssu_env \<Rightarrow> PeerState \<Rightarrow> u32 \<Rightarrow> MessageTables \<Rightarrow> MessageTables \<times> ssu_out list \<times> cpp_error option" where
  "omf_sendDataCallback env ps msgId t =
     (case smap_find (mt_omf t) msgId of
        None \<Rightarrow> (t, [], None)
      | Some oms \<Rightarrow>
          (case OutboundMessageState_getNextFragment oms of
             Inl err \<Rightarrow> (t, [], Some err)
           | Inr (None, oms) \<Rightarrow>
               (t\<lparr>mt_omf := smap_put msgId oms (mt_omf t)\<rparr>, [],
                Some (Runtime_error ''no ssu fragment when sending''))
           | Inr (Some f, oms) \<Rightarrow>
               (case send_fragment env ps f oms of
                  Inl err \<Rightarrow>
                    (t\<lparr>mt_omf := smap_put msgId (OutboundMessageState_markFragmentSent (sf_fragNum f) oms) (mt_omf t)\<rparr>,
                     [], Some err)
                | Inr (oms, q) \<Rightarrow>
                    (t\<lparr>mt_omf := smap_put msgId oms (mt_omf t)\<rparr>,
                     Send_packet q #
                       (if OutboundMessageState_allFragmentsSent oms then [] else [Post_sendData ps msgId]),
                     None))))"

definition omf_timerCallback ::
  "ssu_env \<Rightarrow> bool \<Rightarrow> PeerState \<Rightarrow> u32 \<Rightarrow> MessageTables \<Rightarrow> MessageTables \<times> ssu_out list \<times> cpp_error option" where
  "omf_timerCallback env e ps msgId t =
     (if e then (t, [], None)
      else case smap_find (mt_omf t) msgId of
        None \<Rightarrow> (t, [], None)
      | Some oms \<Rightarrow>
          if 5 < om_tries oms then (omf_delState msgId t, [], None)
          else case OutboundMessageState_getNextUnackdFragment oms of
            None \<Rightarrow> (t, [], None)
          | Some f \<Rightarrow>
              (case send_fragment env ps f oms of
                 Inl err \<Rightarrow>
                   (t\<lparr>mt_omf := smap_put msgId (OutboundMessageState_markFragmentSent (sf_fragNum f) oms) (mt_omf t)\<rparr>,
                    [], Some err)
               | Inr (oms, q) \<Rightarrow>
                   (t\<lparr>mt_omf := smap_put msgId (OutboundMessageState_incrementTries oms) (mt_omf t)\<rparr>,
                    [Send_packet q, Arm_resend ps msgId], None)))"

subsection \<open>Reading a data packet\<close>

fun ack_loop :: "nat \<Rightarrow> bytes \<Rightarrow> nat \<Rightarrow> MessageTables \<Rightarrow> MessageTables \<times> nat result" where
  "ack_loop 0 buf p t = (t, Inr p)"
| "ack_loop (Suc n) buf p t =
     (case parseUint32 buf p of
        Inl err \<Rightarrow> (t, Inl err)
      | Inr (msgId, q) \<Rightarrow> ack_loop n buf q (omf_delState msgId t))"

text \<open>\<open>for(int i = 6, j = 0; i >= 0; i--, j++) if(byte & (1 << i)) markFragmentAckd(byteNum * 7 + j)\<close>.\<close>

definition mark_byte :: "byte \<Rightarrow> byte \<Rightarrow> OutboundMessageState \<Rightarrow> OutboundMessageState" where
  "mark_byte byteNum byte oms =
     fold (\<lambda>j s. if bit byte (6 - j) then OutboundMessageState_markFragmentAckd (of_nat (unat byteNum * 7 + j)) s
                 else s) [0..<7] oms"

text \<open>The \<open>do \<dots> while(*(begin++) & (1 << 7))\<close> loop; the reads are not checked against \<open>end\<close>.\<close>

function bitfield_loop ::
  "bytes \<Rightarrow> nat \<Rightarrow> byte \<Rightarrow> OutboundMessageState option \<Rightarrow> (OutboundMessageState option \<times> nat) result" where
  "bitfield_loop buf p byteNum oms =
     (if p < length buf
      then let oms' = map_option (mark_byte byteNum (buf ! p)) oms
           in if bit (buf ! p) 7 then bitfield_loop buf (Suc p) (byteNum + 1) oms' else Inr (oms', Suc p)
      else Inl Out_of_bounds)"
  by pat_completeness auto
termination
  by (relation "measure (\<lambda>(buf, p, n, s). length buf - p)") auto

declare bitfield_loop.simps [simp del]

fun partial_loop :: "nat \<Rightarrow> bytes \<Rightarrow> nat \<Rightarrow> MessageTables \<Rightarrow> MessageTables \<times> nat result" where
  "partial_loop 0 buf p t = (t, Inr p)"
| "partial_loop (Suc n) buf p t =
     (case parseUint32 buf p of
        Inl err \<Rightarrow> (t, Inl err)
      | Inr (msgId, q) \<Rightarrow>
          (case bitfield_loop buf q 0 (smap_find (mt_omf t) msgId) of
             Inl err \<Rightarrow> (t, Inl err)
           | Inr (None, r) \<Rightarrow> partial_loop n buf r t
           | Inr (Some oms, r) \<Rightarrow>
               partial_loop n buf r
                 (if OutboundMessageState_allFragmentsAckd oms then omf_delState msgId t
                  else t\<lparr>mt_omf := smap_put msgId oms (mt_omf t)\<rparr>)))"

definition info_of :: "bytes \<Rightarrow> u32" where
  "info_of b = push_bit 16 (ucast (b ! 0)) OR push_bit 8 (ucast (b ! 1)) OR ucast (b ! 2)"

definition info_fragNum :: "u32 \<Rightarrow> u16" where
  "info_fragNum fragInfo = ucast (drop_bit 17 fragInfo)"

definition info_isLast :: "u32 \<Rightarrow> bool" where
  "info_isLast fragInfo \<longleftrightarrow> fragInfo AND 0x010000 \<noteq> 0"

definition info_fragSize :: "u32 \<Rightarrow> u16" where
  "info_fragSize fragInfo = ucast (fragInfo AND (push_bit 14 1 - 1))"

text \<open>One round of the fragment loop up to \<open>fragData\<close>: message id, fragment number, last flag, data, and
  the iterator, which is not moved behind the data.\<close>

definition read_fragment :: "nat \<Rightarrow> (u32 \<times> byte \<times> bool \<times> bytes) parser" where
  "read_fragment e =
     pbind (need e 7 (Runtime_error ''malformed SSU data message: length of body < 7'')) (\<lambda>_.
     pbind parseUint32 (\<lambda>msgId.
     pbind (next_bytes 3) (\<lambda>b.
     let fragInfo = info_of b; fragNum = info_fragNum fragInfo; isLast = info_isLast fragInfo;
         fragSize = unat (info_fragSize fragInfo)
     in pbind (need e fragSize (Runtime_error ''malformed SSU data message: length < fragSize'')) (\<lambda>_ buf p.
        Inr ((msgId, ucast fragNum, isLast, take fragSize (drop p buf)), p)))))"

fun fragment_read_loop :: "byte \<Rightarrow> bytes \<Rightarrow> nat \<Rightarrow> bytes \<Rightarrow> nat \<Rightarrow> MessageTables \<Rightarrow> data_result" where
  "fragment_read_loop junk rh 0 buf p t = (t, [], Inr p)"
| "fragment_read_loop junk rh (Suc n) buf p t =
     (case read_fragment (length buf) buf p of
        Inl err \<Rightarrow> (t, [], Inl err)
      | Inr ((msgId, fragNum, isLast, fragData), q) \<Rightarrow>
          (case acceptFragment junk rh msgId fragNum fragData isLast t of
             Inl err \<Rightarrow> (t, [], Inl err)
           | Inr (t, out) \<Rightarrow>
               (let (t, out', r) = fragment_read_loop junk rh n buf q t in (t, out @ out', r))))"

definition receive_body :: "byte \<Rightarrow> bytes \<Rightarrow> bytes \<Rightarrow> nat \<Rightarrow> MessageTables \<Rightarrow> data_result" where
  "receive_body junk rh buf p t =
     (case pbind (need (length buf) 1 (Runtime_error ''malformed SSU data message: no body'')) (\<lambda>_. next_byte) buf p of
        Inl err \<Rightarrow> (t, [], Inl err)
      | Inr (numFragments, p) \<Rightarrow> fragment_read_loop junk rh (unat numFragments) buf p t)"

definition receive_partial :: "byte \<Rightarrow> bytes \<Rightarrow> byte \<Rightarrow> bytes \<Rightarrow> nat \<Rightarrow> MessageTables \<Rightarrow> data_result" where
  "receive_partial junk rh flag buf p t =
     (if bit flag 6
      then case next_byte buf p of
             Inl err \<Rightarrow> (t, [], Inl err)
           | Inr (numFields, p) \<Rightarrow>
               (case partial_loop (unat numFields) buf p t of
                  (t, Inl err) \<Rightarrow> (t, [], Inl err)
                | (t, Inr p) \<Rightarrow> receive_body junk rh buf p t)
      else receive_body junk rh buf p t)"

definition receive_acks :: "byte \<Rightarrow> bytes \<Rightarrow> byte \<Rightarrow> bytes \<Rightarrow> nat \<Rightarrow> MessageTables \<Rightarrow> data_result" where
  "receive_acks junk rh flag buf p t =
     (if bit flag 7
      then case pbind (need (length buf) 1 (Runtime_error ''malformed SSU data message: ACK bit set; no ACKs'')) (\<lambda>_.
                pbind next_byte (\<lambda>numAcks.
                pbind (need (length buf) (unat numAcks * 4)
                  (Runtime_error ''malformed SSU data message: length < numAcks'')) (\<lambda>_.
                preturn numAcks))) buf p of
             Inl err \<Rightarrow> (t, [], Inl err)
           | Inr (numAcks, p) \<Rightarrow>
               (case ack_loop (unat numAcks) buf p t of
                  (t, Inl err) \<Rightarrow> (t, [], Inl err)
                | (t, Inr p) \<Rightarrow> receive_partial junk rh flag buf p t)
      else receive_partial junk rh flag buf p t)"

definition receiveData :: "byte \<Rightarrow> bytes \<Rightarrow> bytes \<Rightarrow> nat \<Rightarrow> MessageTables \<Rightarrow> data_result" where
  "receiveData junk rh buf p t =
     (case pbind (need (length buf) 1 (Runtime_error ''malformed SSU data message: 0 length'')) (\<lambda>_. next_byte) buf p of
        Inl err \<Rightarrow> (t, [], Inl err)
      | Inr (flag, p) \<Rightarrow> receive_acks junk rh flag buf p t)"

subsection \<open>The fragment header\<close>

definition SSUFragment_wf :: "SSUFragment \<Rightarrow> bool" where
  "SSUFragment_wf f \<longleftrightarrow> unat (sf_fragNum f) < 128 \<and> length (sf_data f) \<le> 16383"

lemma bit_small_word:
  assumes "unat (w :: 'a::len word) < 2 ^ k" and "bit w n"
  shows "n < k"
proof -
  have "bit (unat w) n" using assms(2) by (simp add: bit_unsigned_iff bit_imp_le_length)
  then have "bit (take_bit k (unat w)) n" using assms(1) by (simp add: take_bit_nat_eq_self)
  then show ?thesis by (simp add: bit_take_bit_iff)
qed

lemma info_bits:
  assumes "SSUFragment_wf f"
  shows "bit (fragment_info f) n \<longleftrightarrow>
    (if n < 14 then bit (of_nat (length (sf_data f)) :: u32) n
     else if n < 16 then False else if n = 16 then sf_isLast f
     else bit (sf_fragNum f) (n - 17))"
proof -
  have size: "bit (of_nat (length (sf_data f)) :: u32) n \<Longrightarrow> n < 14" for n
    using bit_small_word [of "of_nat (length (sf_data f)) :: u32" 14 n] assms
    by (auto simp: SSUFragment_wf_def unat_of_nat_u32)
  have num: "bit (sf_fragNum f) n \<Longrightarrow> n < 7" for n
    using bit_small_word [of "sf_fragNum f" 7 n] assms by (simp add: SSUFragment_wf_def)
  show ?thesis
    by (auto simp: fragment_info_def bit_or_iff bit_push_bit_iff bit_unsigned_iff bit_1_iff
        simp del: push_bit_of_1 dest: size num bit_imp_le_length)
qed

lemma join24:
  assumes "\<And>n. 24 \<le> n \<Longrightarrow> \<not> bit (w :: u32) n"
  shows "push_bit 16 (ucast (ucast (drop_bit 16 w) :: byte)) OR push_bit 8 (ucast (ucast (drop_bit 8 w) :: byte)) OR
    ucast (ucast w :: byte) = (w :: u32)"
proof (rule bit_word_eqI)
  fix n :: nat
  consider "n < 8" | "8 \<le> n" "n < 16" | "16 \<le> n" "n < 24" | "24 \<le> n" by linarith
  then show "bit (push_bit 16 (ucast (ucast (drop_bit 16 w) :: byte)) OR
      push_bit 8 (ucast (ucast (drop_bit 8 w) :: byte)) OR ucast (ucast w :: byte) :: u32) n = bit w n"
    by cases (auto simp: bit_simps assms dest: bit_imp_le_length)
qed

lemma info_fields:
  assumes wf: "SSUFragment_wf f"
  shows "ucast (info_fragNum (fragment_info f)) = sf_fragNum f"
    and "info_isLast (fragment_info f) \<longleftrightarrow> sf_isLast f"
    and "unat (info_fragSize (fragment_info f)) = length (sf_data f)"
proof -
  show "ucast (info_fragNum (fragment_info f)) = sf_fragNum f"
    unfolding info_fragNum_def by (rule bit_word_eqI) (simp add: bit_unsigned_iff bit_drop_bit_eq info_bits [OF wf])
  have "fragment_info f AND push_bit 16 1 \<noteq> 0 \<longleftrightarrow> sf_isLast f"
    unfolding bit_iff_and_push_bit_not_eq_0 [symmetric] by (simp add: info_bits [OF wf])
  then show "info_isLast (fragment_info f) \<longleftrightarrow> sf_isLast f" by (simp add: info_isLast_def)
  have m: "(push_bit 14 1 - 1 :: u32) = mask 14" by (simp add: mask_eq_exp_minus_1)
  have size: "bit (of_nat (length (sf_data f)) :: u32) n \<Longrightarrow> n < 14" for n
    using bit_small_word [of "of_nat (length (sf_data f)) :: u32" 14 n] wf
    by (auto simp: SSUFragment_wf_def unat_of_nat_u32)
  have "fragment_info f AND (push_bit 14 1 - 1) = of_nat (length (sf_data f))"
    unfolding m by (rule bit_word_eqI) (auto simp: bit_and_iff bit_mask_iff info_bits [OF wf] dest: size)
  moreover have "unat (ucast (of_nat (length (sf_data f)) :: u32) :: u16) = length (sf_data f)"
    using wf by (simp add: SSUFragment_wf_def unsigned_ucast_eq unat_of_nat_u32 take_bit_eq_mod)
  ultimately show "unat (info_fragSize (fragment_info f)) = length (sf_data f)"
    unfolding info_fragSize_def by simp
qed

lemma fragment_bytes_ok:
  "SSUFragment_wf f \<Longrightarrow> fragment_bytes f =
     Inr (be32 (sf_msgId f) @ [ucast (drop_bit 16 (fragment_info f)), ucast (drop_bit 8 (fragment_info f)),
       ucast (fragment_info f)] @ sf_data f)"
  by (simp add: fragment_bytes_def SSUFragment_wf_def Let_def)

lemma read_fragment_has_at:
  assumes wf: "SSUFragment_wf f" and at: "has_at buf p b" and b: "fragment_bytes f = Inr b"
    and e: "e = length buf"
  shows "read_fragment e buf p = Inr ((sf_msgId f, sf_fragNum f, sf_isLast f, sf_data f), p + 7)"
proof -
  let ?i = "fragment_info f"
  have hdr: "has_at buf p (be32 (sf_msgId f))"
    and inf: "has_at buf (p + 4) [ucast (drop_bit 16 ?i), ucast (drop_bit 8 ?i), ucast ?i]"
    and dat': "has_at buf (p + 4 + 3) (sf_data f)"
    using at b by (auto simp: fragment_bytes_ok [OF wf] simp flip: append.simps)
  from dat' have dat: "has_at buf (p + 7) (sf_data f)" by (simp only: add.assoc) simp
  have le: "p + 7 + length (sf_data f) \<le> e" using has_at_le [OF dat] e by simp
  have "bit (sf_fragNum f) n \<Longrightarrow> n < 7" for n
    using bit_small_word [of "sf_fragNum f" 7 n] wf by (simp add: SSUFragment_wf_def)
  then have "\<not> bit ?i n" if "24 \<le> n" for n
    using that by (fastforce simp: info_bits [OF wf])
  from join24 [OF this]
  have join: "info_of [ucast (drop_bit 16 ?i), ucast (drop_bit 8 ?i), ucast ?i] = ?i" by (simp add: info_of_def)
  have "take (length (sf_data f)) (drop (p + 7) buf) = sf_data f" using dat by (simp add: has_at_def)
  then show ?thesis
    using le
    by (simp add: read_fragment_def pbind_def need_ok parseUint32_has_at [OF hdr]
        next_bytes_has_at [OF inf] join info_fields [OF wf] Let_def add.assoc)
qed

subsection \<open>Acknowledgement bit fields\<close>

lemma bit_one_at: "m < 8 \<Longrightarrow> bit (push_bit m (1 :: byte)) n \<longleftrightarrow> n = m"
  by (auto simp: bit_push_bit_iff bit_1_iff simp del: push_bit_of_1)

lemmas no_push_simps = push_bit_of_1 push_bit_Suc

lemma bit_bitfield_byte:
  "j \<le> 7 \<Longrightarrow> bit (bitfield_byte v j k c) n \<longleftrightarrow> bit c n \<or> (n \<le> j \<and> k + (j - n) < length v \<and> v ! (k + (j - n)))"
proof (induction j arbitrary: k c n)
  case 0
  then show ?case by (auto simp: bit_or_iff bit_1_iff)
next
  case (Suc j)
  note IH = Suc.IH [OF Suc_leD [OF Suc.prems]] and one = bit_one_at [of "Suc j"]
  consider "n \<le> j" | "n = Suc j" | "Suc j < n" by linarith
  then show ?case
  proof cases
    case 1
    then have "Suc k + (j - n) = k + (Suc j - n)" by simp
    with 1 Suc.prems show ?thesis
      by (auto simp: IH bit_or_iff one simp del: no_push_simps)
  qed (use Suc.prems in \<open>auto simp: IH bit_or_iff one simp del: no_push_simps\<close>)
qed

definition mark_range :: "bool list \<Rightarrow> nat list \<Rightarrow> OutboundMessageState \<Rightarrow> OutboundMessageState" where
  "mark_range v = fold (\<lambda>k s. if k < length v \<and> v ! k then OutboundMessageState_markFragmentAckd (of_nat k) s else s)"

lemma mark_range_append: "mark_range v (ks @ ls) s = mark_range v ls (mark_range v ks s)"
  by (simp add: mark_range_def)

lemma mark_range_past: "\<forall>k \<in> set ks. length v \<le> k \<Longrightarrow> mark_range v ks s = s"
  by (induction ks) (auto simp: mark_range_def)

lemma mark_byte_range:
  assumes "i < 256" and c: "c = 0 \<or> c = push_bit 7 1"
  shows "mark_byte (of_nat i) (bitfield_byte v 6 (i * 7) c) s = mark_range v [i * 7..<i * 7 + 7] s"
proof -
  have bits: "bit (bitfield_byte v 6 (i * 7) c) (6 - j) \<longleftrightarrow> i * 7 + j < length v \<and> v ! (i * 7 + j)" if "j < 7" for j
    using that c by (auto simp: bit_bitfield_byte bit_one_at simp del: no_push_simps)
  have idx: "unat (of_nat i :: byte) = i" using assms(1) by (simp add: unat_of_nat_byte)
  have "[i * 7..<i * 7 + 7] = map (\<lambda>j. i * 7 + j) [0..<7]"
    using map_add_upt [of "i * 7" 7] by (simp only: add.commute)
  moreover have "fold (\<lambda>j s. if bit (bitfield_byte v 6 (i * 7) c) (6 - j)
        then OutboundMessageState_markFragmentAckd (of_nat (unat (of_nat i :: byte) * 7 + j)) s else s) [0..<7] s =
      fold (\<lambda>j s. if i * 7 + j < length v \<and> v ! (i * 7 + j)
        then OutboundMessageState_markFragmentAckd (of_nat (i * 7 + j)) s else s) [0..<7] s"
    by (rule fold_cong) (auto simp: bits idx)
  ultimately show ?thesis
    by (simp only: mark_byte_def mark_range_def fold_map comp_def)
qed

definition bitfield_at :: "bool list \<Rightarrow> nat \<Rightarrow> byte" where
  "bitfield_at v i = bitfield_byte v 6 (i * 7) (if i + 1 < (length v + 6) div 7 then push_bit 7 1 else 0)"

lemma bitfield_bytes_at: "bitfield_bytes v = map (bitfield_at v) [0..<(length v + 6) div 7]"
  by (simp add: bitfield_bytes_def bitfield_at_def Let_def)

lemma bitfield_continues: "bit (bitfield_at v i) 7 \<longleftrightarrow> i + 1 < (length v + 6) div 7"
  by (auto simp: bitfield_at_def bit_bitfield_byte bit_one_at simp del: no_push_simps)

lemma bitfield_loop_tail:
  assumes "i < n" and "n = (length v + 6) div 7" and "n \<le> 256"
    and "has_at buf p (map (bitfield_at v) [i..<n])"
  shows "bitfield_loop buf p (of_nat i) oms =
    Inr (map_option (mark_range v [i * 7..<n * 7]) oms, p + (n - i))"
  using assms
proof (induction "n - i" arbitrary: i p oms)
  case (Suc d)
  have here: "p < length buf" "buf ! p = bitfield_at v i"
    and rest: "has_at buf (Suc p) (map (bitfield_at v) [Suc i..<n])"
    using Suc.prems by (simp_all add: upt_conv_Cons has_at_Cons)
  have mark: "map_option (mark_byte (of_nat i) (bitfield_at v i)) oms =
      map_option (mark_range v [i * 7..<i * 7 + 7]) oms"
    using Suc.prems(1,3) by (cases oms) (auto simp: bitfield_at_def intro!: mark_byte_range)
  show ?case
  proof (cases "Suc i < n")
    case True
    have split: "[i * 7..<n * 7] = [i * 7..<i * 7 + 7] @ [Suc i * 7..<n * 7]"
    proof -
      have "i * 7 + 7 \<le> n * 7" using True by simp
      then show ?thesis using upt_add_eq_append [of "i * 7" "i * 7 + 7" "n * 7 - (i * 7 + 7)"]
        by (simp add: add.commute)
    qed
    have comp: "mark_range v [i * 7..<n * 7] s =
        mark_range v [Suc i * 7..<n * 7] (mark_range v [i * 7..<i * 7 + 7] s)" for s
      by (simp only: split mark_range_append)
    have "bitfield_loop buf (Suc p) (of_nat (Suc i)) (map_option (mark_range v [i * 7..<i * 7 + 7]) oms) =
        Inr (map_option (mark_range v [Suc i * 7..<n * 7]) (map_option (mark_range v [i * 7..<i * 7 + 7]) oms),
          Suc p + (n - Suc i))"
      using Suc.hyps(2) rest by (intro Suc.hyps(1)) (use True Suc.prems in auto)
    then have loop: "bitfield_loop buf (Suc p) (of_nat i + 1) (map_option (mark_range v [i * 7..<i * 7 + 7]) oms) =
        Inr (map_option (mark_range v [i * 7..<n * 7]) oms, p + (n - i))"
      using True by (cases oms) (simp_all add: comp [unfolded mult_Suc] add.commute)
    show ?thesis
      using here True Suc.prems(2)
      by (subst bitfield_loop.simps) (simp add: mark bitfield_continues Let_def loop)
  next
    case False
    then have n: "n = Suc i" using Suc.prems(1) by simp
    then show ?thesis
      using here False Suc.prems(2)
      by (subst bitfield_loop.simps) (simp add: mark bitfield_continues Let_def add.commute)
  qed
qed simp

lemma bitfield_loop_bytes:
  assumes "v \<noteq> []" and "length v \<le> 1792" and at: "has_at buf p (bitfield_bytes v)"
  shows "bitfield_loop buf p 0 oms =
    Inr (map_option (mark_range v [0..<length v]) oms, p + length (bitfield_bytes v))"
proof -
  define n where "n = (length v + 6) div 7"
  have n: "0 < n" "n \<le> 256" "length v \<le> n * 7"
    using assms(1,2) by (auto simp: n_def Suc_le_eq div_greater_zero_iff simp flip: length_greater_0_conv)
  have "mark_range v [0..<n * 7] s = mark_range v [0..<length v] s" for s
    using mark_range_append [of v "[0..<length v]" "[length v..<n * 7]" s]
      mark_range_past [of "[length v..<n * 7]" v] upt_add_eq_append [of 0 "length v" "n * 7 - length v"] n(3)
    by simp
  then have "mark_range v [0..<n * 7] = mark_range v [0..<length v]" by (rule ext)
  with bitfield_loop_tail [OF n(1) n_def n(2), of buf p oms] at show ?thesis
    by (simp add: bitfield_bytes_at n_def)
qed

subsection \<open>A whole data packet\<close>

definition apply_partial :: "u32 \<times> bool list \<Rightarrow> MessageTables \<Rightarrow> MessageTables" where
  "apply_partial = (\<lambda>(msgId, v) t.
     case smap_find (mt_omf t) msgId of
       None \<Rightarrow> t
     | Some oms \<Rightarrow>
         let oms = mark_range v [0..<length v] oms
         in if OutboundMessageState_allFragmentsAckd oms then omf_delState msgId t
            else t\<lparr>mt_omf := smap_put msgId oms (mt_omf t)\<rparr>)"

definition partials_wf :: "(u32 \<times> bool list) list \<Rightarrow> bool" where
  "partials_wf ms \<longleftrightarrow> length ms < 256 \<and> (\<forall>(msgId, v) \<in> set ms. v \<noteq> [] \<and> length v \<le> 1792)"

lemma ack_loop_ids:
  "has_at buf p (concat (map be32 ids)) \<Longrightarrow>
   ack_loop (length ids) buf p t = (fold omf_delState ids t, Inr (p + length (concat (map be32 ids))))"
proof (induction ids arbitrary: p t)
  case (Cons i ids)
  from Cons.prems have "parseUint32 buf p = Inr (i, p + 4)" by (auto intro: parseUint32_has_at)
  with Cons show ?case by (simp add: add.assoc)
qed simp

lemma partial_loop_ids:
  "\<forall>(msgId, v) \<in> set ms. v \<noteq> [] \<and> length v \<le> 1792 \<Longrightarrow>
   has_at buf p (concat (map (\<lambda>(msgId, v). be32 msgId @ bitfield_bytes v) ms)) \<Longrightarrow>
   partial_loop (length ms) buf p t =
     (fold apply_partial ms t, Inr (p + length (concat (map (\<lambda>(msgId, v). be32 msgId @ bitfield_bytes v) ms))))"
proof (induction ms arbitrary: p t)
  case (Cons m ms)
  obtain i v where m: "m = (i, v)" by (cases m)
  from Cons.prems have id: "parseUint32 buf p = Inr (i, p + 4)" by (auto simp: m intro: parseUint32_has_at)
  from Cons.prems have bits: "bitfield_loop buf (p + 4) 0 oms =
      Inr (map_option (mark_range v [0..<length v]) oms, p + 4 + length (bitfield_bytes v))" for oms
    by (intro bitfield_loop_bytes) (auto simp: m)
  show ?case
    using Cons.IH [of "p + 4 + length (bitfield_bytes v)"] Cons.prems
    by (simp add: m id bits apply_partial_def Let_def add.assoc split: option.split)
qed simp

definition data_flag :: "bool \<Rightarrow> u32 list \<Rightarrow> (u32 \<times> bool list) list \<Rightarrow> byte" where
  "data_flag w acks ms = (if w then push_bit 2 1 else 0) OR (if acks \<noteq> [] then push_bit 7 1 else 0) OR
     (if ms \<noteq> [] then push_bit 6 1 else 0)"

lemma data_flag_bits: "bit (data_flag w acks ms) 7 \<longleftrightarrow> acks \<noteq> []" "bit (data_flag w acks ms) 6 \<longleftrightarrow> ms \<noteq> []"
  by (auto simp: data_flag_def bit_or_iff bit_one_at simp del: no_push_simps)

lemma of_nat_byte_0: "n < 256 \<Longrightarrow> (of_nat n :: byte) = 0 \<longleftrightarrow> n = 0"
  by (auto dest: arg_cong [where f = unat] simp: unat_of_nat_byte)

lemma data_body_layout:
  assumes "length acks < 256" and "length ms < 256" and "fragments_bytes fs = Inr b"
  shows "data_body w acks ms fs = Inr ([data_flag w acks ms] @
     (if acks = [] then [] else of_nat (length acks) # concat (map be32 acks)) @
     (if ms = [] then [] else of_nat (length ms) # concat (map (\<lambda>(msgId, v). be32 msgId @ bitfield_bytes v) ms)) @
     [of_nat (length fs)] @ b)"
  using assms
  by (simp add: data_body_def complete_acks_def partial_acks_def data_flag_def of_nat_byte_0)

definition received_tables :: "u32 list \<Rightarrow> (u32 \<times> bool list) list \<Rightarrow> MessageTables \<Rightarrow> MessageTables" where
  "received_tables acks ms t = fold apply_partial ms (fold omf_delState acks t)"

lemma receive_body_has_at:
  "has_at buf p (n # b) \<Longrightarrow> receive_body junk rh buf p t = fragment_read_loop junk rh (unat n) buf (Suc p) t"
  by (simp add: receive_body_def pbind_def need_def next_byte_def has_at_Cons)

lemma receive_partial_has_at:
  assumes ms: "partials_wf ms" and flag: "bit flag 6 \<longleftrightarrow> ms \<noteq> []"
    and at: "has_at buf p ((if ms = [] then []
      else of_nat (length ms) # concat (map (\<lambda>(msgId, v). be32 msgId @ bitfield_bytes v) ms)) @ rest)"
  shows "\<exists>q. receive_partial junk rh flag buf p t = receive_body junk rh buf q (fold apply_partial ms t) \<and>
    has_at buf q rest"
proof (cases "ms = []")
  case True
  with at flag show ?thesis by (auto simp: receive_partial_def)
next
  case False
  have n: "unat (of_nat (length ms) :: byte) = length ms" using ms by (simp add: partials_wf_def unat_of_nat_byte)
  from at False have "next_byte buf p = Inr (of_nat (length ms), Suc p)"
    and fields: "has_at buf (Suc p) (concat (map (\<lambda>(msgId, v). be32 msgId @ bitfield_bytes v) ms))"
    and rest: "has_at buf (Suc p + length (concat (map (\<lambda>(msgId, v). be32 msgId @ bitfield_bytes v) ms))) rest"
    by (simp_all add: has_at_Cons next_byte_def)
  with partial_loop_ids [OF _ fields, of t] ms flag False n show ?thesis
    by (auto simp: receive_partial_def partials_wf_def)
qed

lemma receive_acks_has_at:
  assumes acks: "length acks < 256" and flag: "bit flag 7 \<longleftrightarrow> acks \<noteq> []"
    and at: "has_at buf p ((if acks = [] then [] else of_nat (length acks) # concat (map be32 acks)) @ rest)"
  shows "\<exists>q. receive_acks junk rh flag buf p t = receive_partial junk rh flag buf q (fold omf_delState acks t) \<and>
    has_at buf q rest"
proof (cases "acks = []")
  case True
  with at flag show ?thesis by (auto simp: receive_acks_def)
next
  case False
  have n: "unat (of_nat (length acks) :: byte) = length acks" using acks by (simp add: unat_of_nat_byte)
  have len: "length (concat (map be32 acks)) = length acks * 4" by (induction acks) auto
  from at False have cnt: "p < length buf" "buf ! p = of_nat (length acks)"
    and ids: "has_at buf (Suc p) (concat (map be32 acks))"
    and rest: "has_at buf (Suc p + length (concat (map be32 acks))) rest"
    by (simp_all add: has_at_Cons)
  have "Suc p + length acks * 4 \<le> length buf" using has_at_le [OF ids] len by simp
  with ack_loop_ids [OF ids, of t] flag False n cnt rest show ?thesis
    by (auto simp: receive_acks_def pbind_def need_ok next_byte_def preturn_def simp del: of_nat_unat)
qed

lemma receiveData_has_at:
  assumes acks: "length acks < 256" and ms: "partials_wf ms" and b: "fragments_bytes fs = Inr b"
    and n: "length fs < 256" and body: "data_body w acks ms fs = Inr body" and at: "has_at buf p body"
  shows "\<exists>q. receiveData junk rh buf p t =
      fragment_read_loop junk rh (length fs) buf q (received_tables acks ms t) \<and> has_at buf q b"
proof -
  let ?flag = "data_flag w acks ms"
  have "length ms < 256" using ms by (simp add: partials_wf_def)
  note layout = data_body_layout [OF acks this b, of w]
  let ?r2 = "[of_nat (length fs)] @ b"
  let ?r1 = "(if ms = [] then [] else of_nat (length ms) #
      concat (map (\<lambda>(msgId, v). be32 msgId @ bitfield_bytes v) ms)) @ ?r2"
  have "body = ?flag # (if acks = [] then [] else of_nat (length acks) # concat (map be32 acks)) @ ?r1"
    using body unfolding layout by simp
  with at have hd: "p < length buf" "buf ! p = ?flag"
    and at1: "has_at buf (Suc p) ((if acks = [] then [] else of_nat (length acks) # concat (map be32 acks)) @ ?r1)"
    by (simp_all only: has_at_Cons simp_thms)
  obtain q1 where 1: "receive_acks junk rh ?flag buf (Suc p) t =
      receive_partial junk rh ?flag buf q1 (fold omf_delState acks t)" and at2: "has_at buf q1 ?r1"
    using receive_acks_has_at [OF acks data_flag_bits(1) at1] by blast
  obtain q2 where 2: "receive_partial junk rh ?flag buf q1 (fold omf_delState acks t) =
      receive_body junk rh buf q2 (received_tables acks ms t)" and at3: "has_at buf q2 (of_nat (length fs) # b)"
    using receive_partial_has_at [OF ms data_flag_bits(2) at2] unfolding received_tables_def append.simps by blast
  have "receiveData junk rh buf p t = fragment_read_loop junk rh (length fs) buf (Suc q2) (received_tables acks ms t)"
    using hd n
    by (simp add: receiveData_def pbind_def need_def next_byte_def 1 2 receive_body_has_at [OF at3] unat_of_nat_byte)
  with at3 show ?thesis by (auto simp: has_at_Cons)
qed

subsection \<open>Inbound table lemmas\<close>

definition imf_state :: "u32 \<Rightarrow> MessageTables \<Rightarrow> InboundMessageState option" where
  "imf_state msgId t = map_option ce_state (imf_find msgId t)"

lemma find_insert_mid:
  "find P (xs @ c # ys) = (case find P xs of None \<Rightarrow> (if P c then Some c else find P ys) | Some d \<Rightarrow> Some d)"
  by (induction xs) auto

lemma find_app: "find P (xs @ ys) = (case find P xs of None \<Rightarrow> find P ys | Some d \<Rightarrow> Some d)"
  by (induction xs) auto

lemma imf_state_addState:
  assumes "imf_find msgId t = None"
  shows "imf_state m (imf_addState msgId rh s t) = (if m = msgId then Some s else imf_state m t)"
proof -
  let ?a = "takeWhile (\<lambda>d. ce_hash d \<le> rh) (mt_imf t)" and ?b = "dropWhile (\<lambda>d. ce_hash d \<le> rh) (mt_imf t)"
  have split: "find (\<lambda>c. ce_msgId c = m) (mt_imf t) =
      (case find (\<lambda>c. ce_msgId c = m) ?a of None \<Rightarrow> find (\<lambda>c. ce_msgId c = m) ?b | Some d \<Rightarrow> Some d)" for m
    using find_app [of "\<lambda>c. ce_msgId c = m" ?a ?b] by (simp only: takeWhile_dropWhile_id)
  show ?thesis
    using assms
    by (auto simp: imf_state_def imf_addState_def imf_insert_def imf_find_def find_insert_mid split split: option.splits)
qed

lemma find_map_state:
  "find (\<lambda>c. ce_msgId c = m) (map (\<lambda>d. if ce_msgId d = i then d\<lparr>ce_state := s\<rparr> else d) l) =
     map_option (\<lambda>d. if m = i then d\<lparr>ce_state := s\<rparr> else d) (find (\<lambda>c. ce_msgId c = m) l)"
  by (induction l) auto

text \<open>What a fragment does, in terms of the states of the table.\<close>

lemma acceptFragment_state:
  assumes "s0 = (case imf_state msgId t of None \<Rightarrow> InboundMessageState_make junk rh msgId | Some s \<Rightarrow> s)"
    and "InboundMessageState_addFragment n data isLast s0 = Inr s" and "checkAndPost msgId s = Inr out"
  shows "\<exists>t'. acceptFragment junk rh msgId n data isLast t = Inr (t', out) \<and> mt_omf t' = mt_omf t \<and>
    (\<forall>m. imf_state m t' = (if m = msgId then Some s else imf_state m t))"
proof (cases "imf_find msgId t")
  case None
  with assms show ?thesis
    by (intro exI [of _ "imf_addState msgId rh s t"])
      (simp add: acceptFragment_def imf_state_addState, simp add: imf_state_def imf_addState_def imf_insert_def)
next
  case (Some c)
  let ?t = "t\<lparr>mt_imf := map (\<lambda>d. if ce_msgId d = msgId then d\<lparr>ce_state := s\<rparr> else d) (mt_imf t)\<rparr>"
  have find: "imf_find m ?t = map_option (\<lambda>d. if m = msgId then d\<lparr>ce_state := s\<rparr> else d) (imf_find m t)" for m
    by (simp add: imf_find_def find_map_state)
  have "s0 = ce_state c" using assms(1) Some by (simp add: imf_state_def)
  then have "acceptFragment junk rh msgId n data isLast t = Inr (?t, out)"
    using assms(2,3) Some by (simp add: acceptFragment_def AddFragment_apply_def find)
  then show ?thesis
    using Some by (intro exI [of _ ?t]) (auto simp: imf_state_def find option.map_comp comp_def)
qed

lemma addFragment_hash:
  "InboundMessageState_addFragment n data isLast s = Inr t \<Longrightarrow> im_routerHash t = im_routerHash s"
  by (auto simp: InboundMessageState_addFragment_def Let_def inr_iff split: if_splits)

subsection \<open>What acknowledgements do to the outbound table\<close>

text \<open>The reference: fragment \<open>i\<close> is acknowledged if it was or if bit \<open>i\<close> says so.\<close>

definition acked :: "nat \<Rightarrow> bool list \<Rightarrow> OutboundMessageState \<Rightarrow> OutboundMessageState" where
  "acked k v oms = oms\<lparr>om_fragments := map (\<lambda>i. let (f, fl) = om_fragments oms ! i in
     (f, fl\<lparr>ff_ackd := ff_ackd fl \<or> (i < k \<and> i < length v \<and> v ! i)\<rparr>)) [0..<length (om_fragments oms)]\<rparr>"

lemma acked_0: "acked 0 v oms = oms"
  by (cases oms) (auto simp: acked_def Let_def case_prod_unfold intro!: nth_equalityI)

lemma apsnd_pair: "apsnd g x = (fst x, g (snd x))"
  by (cases x) simp

lemma acked_Suc:
  assumes "k < 256"
  shows "acked (Suc k) v oms =
    (if k < length v \<and> v ! k then OutboundMessageState_markFragmentAckd (of_nat k) (acked k v oms) else acked k v oms)"
proof -
  have k: "unat (of_nat k :: byte) = k" using assms by (simp add: unat_of_nat_byte)
  show ?thesis
  proof (cases "k < length v \<and> v ! k")
    case True
    with k show ?thesis
      by (auto simp: OutboundMessageState_markFragmentAckd_def set_flag_def acked_def Let_def case_prod_unfold
          less_Suc_eq nth_list_update apsnd_pair intro!: arg_cong [where f = "\<lambda>fs. oms\<lparr>om_fragments := fs\<rparr>"]
          nth_equalityI)
  next
    case False
    then have "(i < Suc k \<and> i < length v \<and> v ! i) = (i < k \<and> i < length v \<and> v ! i)" for i
      by (auto simp: less_Suc_eq)
    with False show ?thesis by (simp only: acked_def if_False)
  qed
qed

lemma mark_range_acked: "k \<le> 256 \<Longrightarrow> mark_range v [0..<k] oms = acked k v oms"
proof (induction k)
  case 0
  then show ?case by (simp add: acked_0 mark_range_def)
next
  case (Suc k)
  then show ?case by (simp add: mark_range_append acked_Suc) (simp add: mark_range_def)
qed

definition after_partial :: "bool list \<Rightarrow> OutboundMessageState \<Rightarrow> OutboundMessageState option" where
  "after_partial v oms =
     (let oms' = acked (length v) v oms
      in if OutboundMessageState_allFragmentsAckd oms' then None else Some oms')"

lemma find_apply_partial:
  "length v \<le> 256 \<Longrightarrow> smap_find (mt_omf (apply_partial (i, v) t)) m =
     (if m = i then Option.bind (smap_find (mt_omf t) i) (after_partial v) else smap_find (mt_omf t) m)"
  by (auto simp: apply_partial_def after_partial_def omf_delState_def smap_find_put smap_find_erase
      mark_range_acked Let_def split: option.split)

lemma find_fold_del:
  "smap_find (mt_omf (fold omf_delState acks t)) m = (if m \<in> set acks then None else smap_find (mt_omf t) m)"
  by (induction acks arbitrary: t) (auto simp: omf_delState_def smap_find_erase)

lemma find_fold_partial:
  "\<forall>(i, v) \<in> set ms. length v \<le> 256 \<Longrightarrow> distinct (map fst ms) \<Longrightarrow>
   smap_find (mt_omf (fold apply_partial ms t)) m =
     (case map_of ms m of None \<Rightarrow> smap_find (mt_omf t) m
      | Some v \<Rightarrow> Option.bind (smap_find (mt_omf t) m) (after_partial v))"
proof (induction ms arbitrary: t)
  case (Cons iv ms)
  obtain i v where iv: "iv = (i, v)" by (cases iv)
  show ?case
  proof (cases "m = i")
    case True
    have "map_of ms m = None" using Cons.prems(2) True by (auto simp: iv map_of_eq_None_iff)
    with True Cons show ?thesis by (simp add: iv find_apply_partial)
  next
    case False
    with Cons show ?thesis by (auto simp: iv find_apply_partial split: option.split)
  qed
qed simp

lemma imf_received_tables: "mt_imf (received_tables acks ms t) = mt_imf t"
proof -
  have "mt_imf (fold omf_delState acks t) = mt_imf t" for t
    by (induction acks arbitrary: t) (auto simp: omf_delState_def)
  moreover have "mt_imf (fold apply_partial ms t) = mt_imf t" for t
    by (induction ms arbitrary: t) (auto simp: apply_partial_def omf_delState_def Let_def split: option.splits)
  ultimately show ?thesis by (simp add: received_tables_def)
qed

subsection \<open>Delivery\<close>

text \<open>The table when the pieces in \<open>R\<close> of a message from \<open>rh\<close> have arrived.\<close>

definition collecting :: "bytes \<Rightarrow> u32 \<Rightarrow> bool \<Rightarrow> bytes list \<Rightarrow> nat set \<Rightarrow> MessageTables \<Rightarrow> bool" where
  "collecting rh msgId flagged ps R t \<longleftrightarrow>
     (case imf_state msgId t of
        None \<Rightarrow> R = {}
      | Some s \<Rightarrow> received flagged ps R s \<and> im_routerHash s = rh)"

definition piece :: "u32 \<Rightarrow> bool \<Rightarrow> bytes list \<Rightarrow> nat \<Rightarrow> SSUFragment" where
  "piece msgId flagged ps i =
     \<lparr>sf_msgId = msgId, sf_isLast = (flagged \<and> Suc i = length ps), sf_fragNum = of_nat i, sf_data = ps ! i\<rparr>"

definition posted :: "bytes \<Rightarrow> u32 \<Rightarrow> bool \<Rightarrow> bytes list \<Rightarrow> nat set \<Rightarrow> ssu_out list" where
  "posted rh msgId flagged ps R =
     (if flagged \<and> R = {..<length ps} then [Post_received rh msgId (concat ps)] else [])"

lemma checkAndPost_received:
  assumes "received flagged ps R s" and "R \<subseteq> {..<length ps}" and "concat ps \<noteq> []"
    and "length (concat ps) < 2 ^ 32"
  shows "checkAndPost msgId s = Inr (posted (im_routerHash s) msgId flagged ps R)"
proof -
  have "ps \<noteq> []" using assms(3) by auto
  note complete = received_complete_iff [OF assms(1,2) this]
  show ?thesis
  proof (cases "flagged \<and> R = {..<length ps}")
    case True
    with assms have "InboundMessageState_assemble s = Inr (concat ps)" by (auto intro: received_assemble)
    with True complete assms(3) show ?thesis by (simp add: checkAndPost_def posted_def)
  next
    case False
    with complete show ?thesis by (auto simp: checkAndPost_def posted_def)
  qed
qed

lemma collect_step:
  assumes t: "collecting rh msgId flagged ps R t" and R: "R \<subseteq> {..<length ps}" and i: "i < length ps"
    and n: "length ps \<le> 127" and data: "concat ps \<noteq> []" "length (concat ps) < 2 ^ 32"
    and wf: "SSUFragment_wf (piece msgId flagged ps i)"
    and at: "has_at buf p b" and b: "fragments_bytes [piece msgId flagged ps i] = Inr b"
  shows "\<exists>t' q. fragment_read_loop junk rh 1 buf p t = (t', posted rh msgId flagged ps (insert i R), Inr q) \<and>
    collecting rh msgId flagged ps (insert i R) t' \<and> mt_omf t' = mt_omf t \<and>
    (\<forall>m. m \<noteq> msgId \<longrightarrow> imf_state m t' = imf_state m t)"
proof -
  let ?f = "piece msgId flagged ps i"
  define s0 where "s0 = (case imf_state msgId t of None \<Rightarrow> InboundMessageState_make junk rh msgId | Some s \<Rightarrow> s)"
  have s0: "received flagged ps R s0" "im_routerHash s0 = rh"
    using t received_make [of flagged ps junk rh msgId]
    by (auto simp: collecting_def s0_def InboundMessageState_make_def split: option.splits)
  obtain s where s: "InboundMessageState_addFragment (of_nat i) (ps ! i) (flagged \<and> Suc i = length ps) s0 = Inr s"
    and rec: "received flagged ps (insert i R) s"
    using received_step [OF s0(1) R i] n by auto
  have hash: "im_routerHash s = rh" using addFragment_hash [OF s] s0(2) by simp
  have post: "checkAndPost msgId s = Inr (posted rh msgId flagged ps (insert i R))"
    using checkAndPost_received [OF rec _ data, of msgId] R i hash by simp
  obtain t' where t': "acceptFragment junk rh msgId (of_nat i) (ps ! i) (flagged \<and> Suc i = length ps) t =
      Inr (t', posted rh msgId flagged ps (insert i R))" "mt_omf t' = mt_omf t"
    "\<forall>m. imf_state m t' = (if m = msgId then Some s else imf_state m t)"
    using acceptFragment_state [OF s0_def s post] by blast
  obtain fb where "fragment_bytes ?f = Inr fb" "b = fb" using b by (auto simp: inr_iff)
  with read_fragment_has_at [OF wf] at
  have "read_fragment (length buf) buf p = Inr ((msgId, of_nat i, flagged \<and> Suc i = length ps, ps ! i), p + 7)"
    by (simp add: piece_def)
  with t' rec hash show ?thesis by (auto simp: collecting_def)
qed

text \<open>Decrypted data packets, read one after the other behind their five header bytes.\<close>

fun receive_packets :: "byte \<Rightarrow> bytes \<Rightarrow> bytes list \<Rightarrow> MessageTables \<Rightarrow> MessageTables \<times> ssu_out list" where
  "receive_packets junk rh [] t = (t, [])"
| "receive_packets junk rh (buf # bufs) t =
     (let (t, out, r) = receiveData junk rh buf 5 t; (t, out') = receive_packets junk rh bufs t
      in (t, out @ out'))"

lemma data_packet_read:
  assumes b: "fragments_bytes fs = Inr b" and n: "length fs < 256" and p: "buildData ts ep w acks ms fs = Inr p"
    and acks: "length acks < 256" and ms: "partials_wf ms"
  shows "\<exists>q. receiveData junk rh (pad16 (pk_data p)) 5 t =
      fragment_read_loop junk rh (length fs) (pad16 (pk_data p)) q (received_tables acks ms t) \<and>
    has_at (pad16 (pk_data p)) q b"
proof -
  obtain body where body: "data_body w acks ms fs = Inr body"
    and pd: "pk_data p = (push_bit 4 (payload_code DATA) # be32 ts) @ body"
    using p by (auto simp: buildData_def buildHeader_def Packet_make_def inr_iff Let_def)
  obtain pad where "pad16 (pk_data p) = pk_data p @ pad"
    by (metis append_take_drop_id pad16_prefix)
  then have "has_at (pad16 (pk_data p)) 5 body"
    using has_at_middle [of "push_bit 4 (payload_code DATA) # be32 ts" body pad] by (simp add: pd)
  from receiveData_has_at [OF acks ms b n body this, of junk rh t] show ?thesis .
qed

lemma receive_pieces:
  assumes "collecting rh msgId flagged ps R t" and "R \<subseteq> {..<length ps}" and "set js \<subseteq> {..<length ps}"
    and "length ps \<le> 127" and "concat ps \<noteq> []" and "length (concat ps) < 2 ^ 32"
    and "\<And>i. i < length ps \<Longrightarrow> SSUFragment_wf (piece msgId flagged ps i)"
    and "list_all2 (\<lambda>j p. \<exists>ts ep. buildData ts ep False [] [] [piece msgId flagged ps j] = Inr p) js pks"
  shows "\<exists>t'. receive_packets junk rh (map (\<lambda>p. pad16 (pk_data p)) pks) t =
      (t', concat (map (\<lambda>i. posted rh msgId flagged ps (R \<union> set (take (Suc i) js))) [0..<length js])) \<and>
    collecting rh msgId flagged ps (R \<union> set js) t' \<and> mt_omf t' = mt_omf t \<and>
    (\<forall>m. m \<noteq> msgId \<longrightarrow> imf_state m t' = imf_state m t)"
  using assms(1-3,8)
proof (induction js arbitrary: R t pks)
  case (Cons j js)
  obtain p pks' ts ep where pks: "pks = p # pks'" and p: "buildData ts ep False [] [] [piece msgId flagged ps j] = Inr p"
    and rest: "list_all2 (\<lambda>j p. \<exists>ts ep. buildData ts ep False [] [] [piece msgId flagged ps j] = Inr p) js pks'"
    using Cons.prems(4) by (auto simp: list_all2_Cons1)
  let ?buf = "pad16 (pk_data p)"
  have j: "j < length ps" using Cons.prems(3) by simp
  note wf = assms(7) [OF j]
  obtain b where b: "fragments_bytes [piece msgId flagged ps j] = Inr b" by (simp add: fragment_bytes_ok [OF wf])
  obtain q where "receiveData junk rh ?buf 5 t = fragment_read_loop junk rh 1 ?buf q t" "has_at ?buf q b"
    using data_packet_read [OF b _ p, of junk rh t] by (auto simp: partials_wf_def received_tables_def)
  with b collect_step [OF Cons.prems(1,2) j assms(4-6) wf, of ?buf q b junk]
  obtain t1 q' where t1: "receiveData junk rh ?buf 5 t = (t1, posted rh msgId flagged ps (insert j R), Inr q')"
    "collecting rh msgId flagged ps (insert j R) t1" "mt_omf t1 = mt_omf t"
    "\<forall>m. m \<noteq> msgId \<longrightarrow> imf_state m t1 = imf_state m t" by metis
  have "insert j R \<subseteq> {..<length ps}" and "set js \<subseteq> {..<length ps}" using Cons.prems(2,3) by auto
  from Cons.IH [OF t1(2) this rest] obtain t' where
    "receive_packets junk rh (map (\<lambda>p. pad16 (pk_data p)) pks') t1 =
      (t', concat (map (\<lambda>i. posted rh msgId flagged ps (insert j R \<union> set (take (Suc i) js))) [0..<length js]))"
    "collecting rh msgId flagged ps (insert j R \<union> set js) t'" "mt_omf t' = mt_omf t1"
    "\<forall>m. m \<noteq> msgId \<longrightarrow> imf_state m t' = imf_state m t1" by blast
  moreover have "[0..<length (j # js)] = 0 # map Suc [0..<length js]"
    by (simp only: list.size add_0_right add_Suc_right map_Suc_upt upt_conv_Cons zero_less_Suc)
  ultimately show ?case
    using t1 by (auto simp: pks comp_def)
qed simp

lemma posted_count:
  "concat (map (\<lambda>i. posted rh msgId flagged ps (f i)) is) =
     replicate (length (filter (\<lambda>i. flagged \<and> f i = {..<length ps}) is)) (Post_received rh msgId (concat ps))"
  by (induction "is") (auto simp: posted_def)

text \<open>The fragments of a message, each in a packet of its own, in any order and with repetitions.\<close>

lemma message_delivery:
  assumes data: "data \<noteq> []" "length data \<le> 127 * 1120"
    and frag: "OutboundMessageState_fragment (OutboundMessageState_make msgId data) = Inr out"
    and js: "set js \<subseteq> {..<length (om_fragments out)}"
    and pks: "list_all2 (\<lambda>j p. \<exists>ts ep. buildData ts ep False [] [] [fst (om_fragments out ! j)] = Inr p) js pks"
    and new: "imf_state msgId t = None"
  shows "\<exists>t'. receive_packets junk rh (map (\<lambda>p. pad16 (pk_data p)) pks) t =
      (t', replicate (length (filter (\<lambda>i. length data mod 1120 \<noteq> 0 \<and>
             set (take (Suc i) js) = {..<length (om_fragments out)}) [0..<length js]))
           (Post_received rh msgId data)) \<and>
    mt_omf t' = mt_omf t \<and> (\<forall>m. m \<noteq> msgId \<longrightarrow> imf_state m t' = imf_state m t)"
proof -
  let ?ps = "pieces data" and ?flagged = "length data mod 1120 \<noteq> 0"
  have out: "om_fragments out =
      map (\<lambda>i. (piece_fragment msgId (?ps ! i) i, FragmentFlags_make)) [0..<length ?ps]"
    using frag data by (auto simp: fragment_make)
  have n: "length ?ps \<le> 127" using data(2) by (simp add: length_pieces)
  have piece: "fst (om_fragments out ! i) = piece msgId ?flagged ?ps i" if "i < length ?ps" for i
    using that by (auto simp: out piece_def piece_fragment_def short_piece)
  have wf: "SSUFragment_wf (piece msgId ?flagged ?ps i)" if "i < length ?ps" for i
    using that n by (simp add: SSUFragment_wf_def piece_def unat_of_nat_byte) (simp add: pieces_def)
  have js': "set js \<subseteq> {..<length ?ps}" using js by (simp add: out)
  have "list_all2 (\<lambda>j p. \<exists>ts ep. buildData ts ep False [] [] [piece msgId ?flagged ?ps j] = Inr p) js pks"
    unfolding list_all2_conv_all_nth
  proof (intro conjI allI impI)
    show len: "length js = length pks" using pks by (rule list_all2_lengthD)
    fix i assume "i < length js"
    then have "js ! i < length ?ps" using js' by (meson lessThan_iff nth_mem subsetD)
    with pks \<open>i < length js\<close> show "\<exists>ts ep. buildData ts ep False [] [] [piece msgId ?flagged ?ps (js ! i)] = Inr (pks ! i)"
      by (simp only: list_all2_conv_all_nth piece [symmetric])
  qed
  moreover have "collecting rh msgId ?flagged ?ps {} t" using new by (simp add: collecting_def)
  ultimately obtain t' where "receive_packets junk rh (map (\<lambda>p. pad16 (pk_data p)) pks) t =
      (t', concat (map (\<lambda>i. posted rh msgId ?flagged ?ps ({} \<union> set (take (Suc i) js))) [0..<length js]))"
    "mt_omf t' = mt_omf t" "\<forall>m. m \<noteq> msgId \<longrightarrow> imf_state m t' = imf_state m t"
    using receive_pieces [OF _ empty_subsetI js' n, of rh msgId ?flagged t pks junk] wf data
    by (auto simp: concat_pieces)
  then show ?thesis unfolding posted_count concat_pieces by (simp add: out)
qed

subsection \<open>Properties\<close>

definition empty_tables :: MessageTables where
  "empty_tables = \<lparr>mt_omf = [], mt_imf = []\<rparr>"

text \<open>An acknowledgement packet arrives as it was meant: the messages acknowledged as complete
  are forgotten, in a partially acknowledged message exactly the fragments whose bits are set become
  acknowledged (and the message is forgotten once all are), every other outbound message and the
  inbound table stay as they were, and nothing is posted.\<close>

theorem ack_packet_applied:
  assumes p: "buildData ts ep w acks ms [] = Inr p" and acks: "length acks < 256" and ms: "partials_wf ms"
    and small: "\<forall>(i, v) \<in> set ms. length v \<le> 256" and keys: "distinct (map fst ms)"
  shows "\<exists>t' q. receiveData junk rh (pad16 (pk_data p)) 5 t = (t', [], Inr q) \<and> mt_imf t' = mt_imf t \<and>
    (\<forall>m. smap_find (mt_omf t') m =
       (if m \<in> set acks then None
        else case map_of ms m of None \<Rightarrow> smap_find (mt_omf t) m
             | Some v \<Rightarrow> Option.bind (smap_find (mt_omf t) m) (after_partial v)))"
proof -
  obtain q where "receiveData junk rh (pad16 (pk_data p)) 5 t = (received_tables acks ms t, [], Inr q)"
    using data_packet_read [OF _ _ p acks ms, of "[]" junk rh t] by auto
  moreover have "smap_find (mt_omf (received_tables acks ms t)) m =
      (if m \<in> set acks then None
       else case map_of ms m of None \<Rightarrow> smap_find (mt_omf t) m
            | Some v \<Rightarrow> Option.bind (smap_find (mt_omf t) m) (after_partial v))" for m
    by (simp add: received_tables_def find_fold_partial [OF small keys] find_fold_del split: option.split)
  ultimately show ?thesis by (simp add: imf_received_tables)
qed

theorem ack_packet_applied_witness:
  "let p = projr (buildData 1 sample_endpoint False [5] [(6, [True, False])] []);
       t = \<lparr>mt_omf = [(5, OutboundMessageState_make 5 [1])], mt_imf = []\<rparr>
   in \<exists>t' q. receiveData 0 [7] (pad16 (pk_data p)) 5 t = (t', [], Inr q) \<and> smap_find (mt_omf t') 5 = None"
proof -
  let ?p = "projr (buildData 1 sample_endpoint False [5] [(6, [True, False])] [])"
  have "buildData 1 sample_endpoint False [5] [(6, [True, False])] [] = Inr ?p"
    by (simp add: buildData_def data_body_def complete_acks_def partial_acks_def Let_def)
  from ack_packet_applied [OF this, of 0 "[7]" "\<lparr>mt_omf = [(5, OutboundMessageState_make 5 [1])], mt_imf = []\<rparr>"]
  show ?thesis by (auto simp: partials_wf_def Let_def)
qed

end
