(* ===== verification/SSU_Acks.thy ===== *)
theory SSU_Acks
  imports SSU_Data
begin

text \<open>
  \<open>AcknowledgementManager\<close>, the periodic acknowledgement run over the inbound table, and what the
  timers of the data phase guarantee: when the run returns at all, what it sends, and how often an
  unacknowledged message is retransmitted before it is given up.
\<close>

subsection \<open>The acknowledgement run\<close>

text \<open>The loop over the table from the iterator on: the entries it keeps, what it sends, and the
  exception it ends with. When the peer is gone \<open>continue\<close> starts the next round with the same
  iterator.\<close>

partial_function (option) flush_loop ::
  "ssu_env \<Rightarrow> PeerStateList \<Rightarrow> nat \<Rightarrow> ContainerEntry list \<Rightarrow>
   (ContainerEntry list \<times> ssu_out list \<times> cpp_error option) option" where
  "flush_loop env peers k rest =
     (case rest of
        [] \<Rightarrow> Some ([], [], None)
      | c # cs \<Rightarrow>
          if \<not> PeerStateList_peerExists_hash (ce_hash c) peers then flush_loop env peers k rest
          else
            let grp = takeWhile (\<lambda>d. ce_hash d = ce_hash c) rest;
                rest' = dropWhile (\<lambda>d. ce_hash d = ce_hash c) rest;
                complete = filter (\<lambda>d. InboundMessageState_allFragmentsReceived (ce_state d)) grp;
                kept = filter (\<lambda>d. \<not> InboundMessageState_allFragmentsReceived (ce_state d)) grp;
                partials = fold (\<lambda>d. smap_put (ce_msgId d) (InboundMessageState_getFragmentsReceived (ce_state d))) kept []
            in if complete \<noteq> [] \<or> partials \<noteq> []
               then case ebind (PeerStateList_getPeer_hash (ce_hash c) peers) (\<lambda>ps.
                         ebind (buildData (se_time env) (ps_endpoint ps) False (map ce_msgId complete) partials [])
                           (seal env k ps)) of
                      Inl err \<Rightarrow> Some (kept @ rest', [], Some err)
                    | Inr q \<Rightarrow>
                        Option.bind (flush_loop env peers (k + 1) rest') (\<lambda>(kept', out, err).
                        Some (kept @ kept', Send_packet q # out, err))
               else Option.bind (flush_loop env peers k rest') (\<lambda>(kept', out, err). Some (kept @ kept', out, err)))"

definition flushAckCallback ::
  "ssu_env \<Rightarrow> PeerStateList \<Rightarrow> MessageTables \<Rightarrow> (MessageTables \<times> ssu_out list \<times> cpp_error option) option" where
  "flushAckCallback env peers t =
     Option.bind (flush_loop env peers 0 (mt_imf t)) (\<lambda>(kept, out, err).
     Some (t\<lparr>mt_imf := kept\<rparr>, out @ (if err = None then [Arm_flush] else []), err))"

subsection \<open>Sealing never fails under a working environment\<close>

definition env_ok :: "ssu_env \<Rightarrow> bool" where
  "env_ok env \<longleftrightarrow> (\<forall>x. length (se_md5 env x) = 16) \<and> (\<forall>k. length (se_iv env k) = 16)"

definition keys_ok :: "PeerState \<Rightarrow> bool" where
  "keys_ok ps \<longleftrightarrow> length (ps_macKey ps) \<le> 64"

lemma seal_ok: "env_ok env \<Longrightarrow> keys_ok ps \<Longrightarrow> \<exists>q. seal env k ps p = Inr q"
  by (simp add: env_ok_def keys_ok_def seal_def encrypt_layout Let_def)

lemma buildData_no_fragments: "\<exists>p. buildData ts ep w acks ms [] = Inr p"
  by (simp add: buildData_def data_body_def Let_def case_prod_unfold)

subsection \<open>The run over the table\<close>

abbreviation complete_entry :: "ContainerEntry \<Rightarrow> bool" where
  "complete_entry d \<equiv> InboundMessageState_allFragmentsReceived (ce_state d)"

definition partials_of :: "ContainerEntry list \<Rightarrow> (u32 \<times> bool list) list" where
  "partials_of ds = fold (\<lambda>d. smap_put (ce_msgId d) (InboundMessageState_getFragmentsReceived (ce_state d)))
     (filter (\<lambda>d. \<not> complete_entry d) ds) []"

text \<open>The acknowledgement packet for the entries \<open>ds\<close> of one router.\<close>

definition acknowledges :: "ssu_env \<Rightarrow> PeerStateList \<Rightarrow> bytes \<Rightarrow> ContainerEntry list \<Rightarrow> ssu_out \<Rightarrow> bool" where
  "acknowledges env peers h ds out \<longleftrightarrow>
     (\<exists>k ps p q. out = Send_packet q \<and> PeerStateList_getPeer_hash h peers = Inr ps \<and>
        buildData (se_time env) (ps_endpoint ps) False (map ce_msgId (filter complete_entry ds)) (partials_of ds) [] = Inr p \<and>
        seal env k ps p = Inr q)"

lemma smap_put_not_Nil [simp]: "smap_put k v m \<noteq> []"
  by (cases m) auto

lemma fold_put_Nil: "fold (\<lambda>d. smap_put (f d) (g d)) ds m = [] \<longleftrightarrow> ds = [] \<and> m = []"
  by (induction ds arbitrary: m) auto

lemma flush_loop_group:
  assumes env: "env_ok env" and peer: "PeerStateList_getPeer_hash (ce_hash c) peers = Inr ps" and ks: "keys_ok ps"
  shows "\<exists>out. acknowledges env peers (ce_hash c) (takeWhile (\<lambda>d. ce_hash d = ce_hash c) (c # cs)) out \<and>
    flush_loop env peers k (c # cs) =
      Option.bind (flush_loop env peers (k + 1) (dropWhile (\<lambda>d. ce_hash d = ce_hash c) cs)) (\<lambda>(kept, outs, err).
      Some (filter (\<lambda>d. \<not> complete_entry d) (takeWhile (\<lambda>d. ce_hash d = ce_hash c) (c # cs)) @ kept, out # outs, err))"
proof -
  let ?grp = "takeWhile (\<lambda>d. ce_hash d = ce_hash c) (c # cs)"
  obtain p where p: "buildData (se_time env) (ps_endpoint ps) False (map ce_msgId (filter complete_entry ?grp))
      (partials_of ?grp) [] = Inr p"
    using buildData_no_fragments by blast
  obtain q where q: "seal env k ps p = Inr q" using seal_ok [OF env ks] by blast
  have ex: "PeerStateList_peerExists_hash (ce_hash c) peers"
    using peer by (auto simp: PeerStateList_peerExists_hash_def PeerStateList_getPeer_hash_def split: option.splits)
  have nonempty: "filter complete_entry ?grp \<noteq> [] \<or> partials_of ?grp \<noteq> []"
    unfolding partials_of_def fold_put_Nil by simp
  have "flush_loop env peers k (c # cs) =
      Option.bind (flush_loop env peers (k + 1) (dropWhile (\<lambda>d. ce_hash d = ce_hash c) cs)) (\<lambda>(kept, outs, err).
      Some (filter (\<lambda>d. \<not> complete_entry d) ?grp @ kept, Send_packet q # outs, err))"
    using ex nonempty peer p q
    by (subst flush_loop.simps) (simp add: partials_of_def [symmetric] Let_def del: takeWhile.simps)
  moreover have "acknowledges env peers (ce_hash c) ?grp (Send_packet q)"
    using peer p q by (auto simp: acknowledges_def)
  ultimately show ?thesis by blast
qed

lemma sorted_group:
  fixes key :: "'a \<Rightarrow> 'b::linorder"
  assumes "sorted (map key (c # cs))"
  shows "takeWhile (\<lambda>d. key d = key c) (c # cs) = filter (\<lambda>d. key d = key c) (c # cs)"
    and "d \<in> set (dropWhile (\<lambda>d. key d = key c) cs) \<Longrightarrow> key d \<noteq> key c"
proof -
  have later: "key d \<noteq> key c" if "d \<in> set (dropWhile (\<lambda>d. key d = key c) cs)" for d
    using that assms
  proof (induction cs)
    case (Cons x cs)
    then show ?case
    proof (cases "key x = key c")
      case False
      with Cons.prems have "key c < key x" by (simp add: less_le)
      moreover have "d \<in> set (x # cs)" using Cons.prems(1) False by simp
      then have "key x \<le> key d" using Cons.prems(2) by auto
      ultimately show ?thesis by simp
    next
      case True
      with Cons show ?thesis by simp
    qed
  qed simp
  then show "d \<in> set (dropWhile (\<lambda>d. key d = key c) cs) \<Longrightarrow> key d \<noteq> key c" .
  have "filter (\<lambda>d. key d = key c) cs =
      filter (\<lambda>d. key d = key c) (takeWhile (\<lambda>d. key d = key c) cs @ dropWhile (\<lambda>d. key d = key c) cs)"
    by (simp only: takeWhile_dropWhile_id)
  also have "\<dots> = takeWhile (\<lambda>d. key d = key c) cs"
  proof -
    have "filter (\<lambda>d. key d = key c) (dropWhile (\<lambda>d. key d = key c) cs) = []"
      using later by (intro filter_False) blast
    moreover have "filter (\<lambda>d. key d = key c) (takeWhile (\<lambda>d. key d = key c) cs) = takeWhile (\<lambda>d. key d = key c) cs"
      by (intro filter_True ballI) (drule set_takeWhileD, simp)
    ultimately show ?thesis by (simp only: filter_append append_Nil2)
  qed
  finally show "takeWhile (\<lambda>d. key d = key c) (c # cs) = filter (\<lambda>d. key d = key c) (c # cs)" by simp
qed

definition peers_known :: "PeerStateList \<Rightarrow> ContainerEntry list \<Rightarrow> bool" where
  "peers_known peers rest \<longleftrightarrow> (\<forall>c \<in> set rest. PeerStateList_peerExists_hash (ce_hash c) peers)"

lemma by_hash_member: "by_hash h peers = Some c \<Longrightarrow> c \<in> set peers"
  by (auto simp: by_hash_def find_Some_iff)

lemma peer_exists_get:
  "PeerStateList_peerExists_hash h peers \<Longrightarrow> \<forall>c \<in> set peers. keys_ok (pc_state c) \<Longrightarrow>
   \<exists>ps. PeerStateList_getPeer_hash h peers = Inr ps \<and> keys_ok ps"
  using by_hash_member by (fastforce simp: PeerStateList_peerExists_hash_def PeerStateList_getPeer_hash_def)

lemma flush_loop_all:
  assumes env: "env_ok env" and ks: "\<forall>c \<in> set peers. keys_ok (pc_state c)"
    and "peers_known peers rest" and "sorted (map ce_hash rest)"
  shows "\<exists>outs. flush_loop env peers k rest = Some (filter (\<lambda>d. \<not> complete_entry d) rest, outs, None) \<and>
    list_all2 (\<lambda>h out. acknowledges env peers h (filter (\<lambda>d. ce_hash d = h) rest) out)
      (remdups_adj (map ce_hash rest)) outs"
  using assms(3,4)
proof (induction "length rest" arbitrary: rest k rule: less_induct)
  case less
  show ?case
  proof (cases rest)
    case Nil
    then show ?thesis by (simp add: flush_loop.simps)
  next
    case (Cons c cs)
    let ?h = "ce_hash c"
    let ?grp = "takeWhile (\<lambda>d. ce_hash d = ?h) (c # cs)" and ?rest = "dropWhile (\<lambda>d. ce_hash d = ?h) cs"
    obtain ps where "PeerStateList_getPeer_hash ?h peers = Inr ps" "keys_ok ps"
      using peer_exists_get [OF _ ks] less.prems(1) Cons by (auto simp: peers_known_def)
    from flush_loop_group [OF env this] obtain out where ack: "acknowledges env peers ?h ?grp out"
      and step: "flush_loop env peers k (c # cs) = Option.bind (flush_loop env peers (k + 1) ?rest) (\<lambda>(kept, outs, err).
        Some (filter (\<lambda>d. \<not> complete_entry d) ?grp @ kept, out # outs, err))" by blast
    have whole: "c # cs = ?grp @ ?rest" by simp
    have srt: "sorted (map ce_hash (c # cs))" using less.prems(2) Cons by simp
    have "sorted (dropWhile (\<lambda>h. h = ?h) (map ce_hash cs))" using srt by (intro sorted_dropWhile) simp
    then have "sorted (map ce_hash ?rest)" by (simp add: dropWhile_map comp_def)
    moreover have "peers_known peers ?rest" 
      using less.prems(1) Cons by (auto simp: peers_known_def dest: set_dropWhileD)
    moreover have "length ?rest < length rest" using Cons length_dropWhile_le [of _ cs] by (simp add: le_imp_less_Suc)
    ultimately obtain outs where rec: "flush_loop env peers (k + 1) ?rest =
        Some (filter (\<lambda>d. \<not> complete_entry d) ?rest, outs, None)"
      and outs: "list_all2 (\<lambda>h out. acknowledges env peers h (filter (\<lambda>d. ce_hash d = h) ?rest) out)
        (remdups_adj (map ce_hash ?rest)) outs"
      using less.hyps [of ?rest "k + 1"] by blast
    have other: "filter (\<lambda>d. ce_hash d = h) (c # cs) = filter (\<lambda>d. ce_hash d = h) ?rest" if "h \<noteq> ?h" for h
    proof -
      have "filter (\<lambda>d. ce_hash d = h) ?grp = []" using that by (auto simp: filter_empty_conv dest: set_takeWhileD)
      then show ?thesis by (subst whole) (simp only: filter_append append_Nil)
    qed
    have tail: "list_all2 (\<lambda>h out. acknowledges env peers h (filter (\<lambda>d. ce_hash d = h) (c # cs)) out)
        (remdups_adj (map ce_hash ?rest)) outs"
    proof (rule list.rel_mono_strong [OF outs])
      fix h out
      assume "h \<in> set (remdups_adj (map ce_hash ?rest))"
      then obtain d where d: "d \<in> set ?rest" and h: "h = ce_hash d" by auto
      have ne: "h \<noteq> ?h" unfolding h by (rule sorted_group(2) [OF srt d])
      show "acknowledges env peers h (filter (\<lambda>d. ce_hash d = h) ?rest) out \<Longrightarrow>
          acknowledges env peers h (filter (\<lambda>d. ce_hash d = h) (c # cs)) out"
        unfolding other [OF ne] .
    qed
    have hashes: "remdups_adj (map ce_hash (c # cs)) = ?h # remdups_adj (map ce_hash ?rest)"
      by (simp add: remdups_adj_Cons' dropWhile_map comp_def)
    have kept: "filter (\<lambda>d. \<not> complete_entry d) (c # cs) =
        filter (\<lambda>d. \<not> complete_entry d) ?grp @ filter (\<lambda>d. \<not> complete_entry d) ?rest"
      by (subst whole) (simp only: filter_append)
    have "flush_loop env peers k (c # cs) =
        Some (filter (\<lambda>d. \<not> complete_entry d) (c # cs), out # outs, None)"
      by (simp only: step rec kept bind.simps prod.case)
    moreover have "acknowledges env peers ?h (filter (\<lambda>d. ce_hash d = ?h) (c # cs)) out"
      using ack sorted_group(1) [OF srt] by simp
    ultimately show ?thesis
      unfolding Cons hashes using tail by blast
  qed
qed

definition head_known :: "PeerStateList \<Rightarrow> ContainerEntry list \<Rightarrow> bool" where
  "head_known peers rest \<longleftrightarrow> rest = [] \<or> PeerStateList_peerExists_hash (ce_hash (hd rest)) peers"

lemma flush_loop_head:
  assumes "flush_loop env peers k rest = Some r"
  shows "head_known peers rest"
proof (rule flush_loop.raw_induct [where P = "\<lambda>env peers k rest r. head_known peers rest", OF _ assms], goal_cases)
  case (1 f env peers k rest r)
  show ?case
  proof (rule ccontr)
    assume n: "\<not> head_known peers rest"
    then obtain c cs where "rest = c # cs" and "\<not> PeerStateList_peerExists_hash (ce_hash c) peers"
      by (cases rest) (auto simp: head_known_def)
    with 1(2) have "f env peers k rest = Some r" by simp
    from 1(1) [OF this] n show False by blast
  qed
qed

lemma flush_loop_known:
  assumes env: "env_ok env" and ks: "\<forall>c \<in> set peers. keys_ok (pc_state c)"
    and "flush_loop env peers k rest = Some r"
  shows "peers_known peers rest"
  using assms(3)
proof (induction "length rest" arbitrary: rest k r rule: less_induct)
  case less
  show ?case
  proof (cases rest)
    case (Cons c cs)
    let ?rest = "dropWhile (\<lambda>d. ce_hash d = ce_hash c) cs"
    have ex: "PeerStateList_peerExists_hash (ce_hash c) peers"
      using flush_loop_head [OF less.prems] Cons by (simp add: head_known_def)
    from peer_exists_get [OF this ks] obtain ps where "PeerStateList_getPeer_hash (ce_hash c) peers = Inr ps" "keys_ok ps"
      by blast
    from flush_loop_group [OF env this, of cs k]
    obtain F where "flush_loop env peers k (c # cs) = Option.bind (flush_loop env peers (k + 1) ?rest) F" by blast
    then obtain r' where "flush_loop env peers (k + 1) ?rest = Some r'"
      using less.prems Cons by (cases "flush_loop env peers (k + 1) ?rest") auto
    moreover have "length ?rest < length rest" using Cons length_dropWhile_le [of _ cs] by (simp add: le_imp_less_Suc)
    ultimately have rest: "peers_known peers ?rest" using less.hyps by blast
    have "PeerStateList_peerExists_hash (ce_hash d) peers" if "d \<in> set cs" for d
    proof (cases "d \<in> set (takeWhile (\<lambda>d. ce_hash d = ce_hash c) cs)")
      case True
      then show ?thesis using ex by (auto dest!: set_takeWhileD)
    next
      case False
      have "set cs = set (takeWhile (\<lambda>d. ce_hash d = ce_hash c) cs) \<union> set ?rest"
        by (metis set_append takeWhile_dropWhile_id)
      with that False rest show ?thesis by (auto simp: peers_known_def)
    qed
    with ex Cons show ?thesis by (simp add: peers_known_def)
  qed (simp add: peers_known_def)
qed

lemma dropWhile_above:
  fixes f :: "'a \<Rightarrow> 'b::linorder"
  shows "sorted (map f l) \<Longrightarrow> d \<in> set (dropWhile (\<lambda>d. f d \<le> k) l) \<Longrightarrow> k \<le> f d"
proof (induction l)
  case (Cons x l)
  show ?case
  proof (cases "f x \<le> k")
    case False
    with Cons.prems have "d = x \<or> f x \<le> f d" by auto
    with False show ?thesis by auto
  qed (use Cons in auto)
qed simp

lemma imf_insert_sorted: "sorted (map ce_hash (mt_imf t)) \<Longrightarrow> sorted (map ce_hash (mt_imf (imf_insert c t)))"
proof (cases "imf_find (ce_msgId c) t = None")
  case True
  let ?P = "\<lambda>d. ce_hash d \<le> ce_hash c"
  assume srt: "sorted (map ce_hash (mt_imf t))"
  then have "sorted (takeWhile (\<lambda>h. h \<le> ce_hash c) (map ce_hash (mt_imf t)))"
    and "sorted (dropWhile (\<lambda>h. h \<le> ce_hash c) (map ce_hash (mt_imf t)))"
    by (auto intro: sorted_takeWhile sorted_dropWhile)
  moreover have "ce_hash c \<le> ce_hash d" if "d \<in> set (dropWhile ?P (mt_imf t))" for d
    by (rule dropWhile_above [OF srt that])
  moreover from this have "ce_hash x \<le> ce_hash d"
    if "x \<in> set (takeWhile ?P (mt_imf t))" "d \<in> set (dropWhile ?P (mt_imf t))" for x d
    using that by (meson order_trans set_takeWhileD)
  ultimately show ?thesis
    using True by (auto simp: imf_insert_def sorted_append takeWhile_map dropWhile_map comp_def dest: set_takeWhileD)
qed (simp add: imf_insert_def)

subsection \<open>Retransmission\<close>

text \<open>\<open>n\<close> expiries of the retransmission timer with no acknowledgement in between.\<close>

fun resend_run :: "(nat \<Rightarrow> ssu_env) \<Rightarrow> PeerState \<Rightarrow> u32 \<Rightarrow> nat \<Rightarrow> MessageTables \<Rightarrow> MessageTables \<times> ssu_out list" where
  "resend_run env ps msgId 0 t = (t, [])"
| "resend_run env ps msgId (Suc n) t =
     (let (t, out) = resend_run env ps msgId n t; (t, out', err) = omf_timerCallback (env n) False ps msgId t
      in (t, out @ out'))"

lemma find_unacked_sent:
  "map_option fst (find (\<lambda>fs. \<not> ff_ackd (snd fs)) (l[n := apsnd (ff_sent_update (\<lambda>_. True)) (l ! n)])) =
   map_option fst (find (\<lambda>fs. \<not> ff_ackd (snd fs)) l)"
proof (induction l arbitrary: n)
  case (Cons x l)
  show ?case
  proof (cases n)
    case 0
    then show ?thesis by (cases x) auto
  next
    case (Suc m)
    with Cons show ?thesis by simp
  qed
qed simp

lemma unacked_markSent [simp]:
  "OutboundMessageState_getNextUnackdFragment (OutboundMessageState_markFragmentSent k oms) =
   OutboundMessageState_getNextUnackdFragment oms"
  by (simp add: OutboundMessageState_getNextUnackdFragment_def OutboundMessageState_markFragmentSent_def
      set_flag_def Let_def find_unacked_sent)

lemma unacked_tries [simp]:
  "OutboundMessageState_getNextUnackdFragment (OutboundMessageState_incrementTries oms) =
   OutboundMessageState_getNextUnackdFragment oms"
  by (simp add: OutboundMessageState_getNextUnackdFragment_def OutboundMessageState_incrementTries_def)

lemma tries_simps [simp]:
  "om_tries (OutboundMessageState_markFragmentSent k oms) = om_tries oms"
  "om_tries (OutboundMessageState_incrementTries oms) = om_tries oms + 1"
  by (simp_all add: OutboundMessageState_markFragmentSent_def set_flag_def OutboundMessageState_incrementTries_def Let_def)

text \<open>The packet that carries fragment \<open>f\<close>, sealed for \<open>ps\<close>.\<close>

definition carries :: "ssu_env \<Rightarrow> PeerState \<Rightarrow> SSUFragment \<Rightarrow> Packet \<Rightarrow> bool" where
  "carries env ps f q \<longleftrightarrow>
     (\<exists>p. buildData (se_time env) (ps_endpoint ps) False [] [] [f] = Inr p \<and> seal env 0 ps p = Inr q)"

lemma send_fragment_ok:
  assumes "env_ok env" and "keys_ok ps" and "length (sf_data f) \<le> 16383"
  shows "\<exists>q. carries env ps f q \<and>
    send_fragment env ps f oms = Inr (OutboundMessageState_markFragmentSent (sf_fragNum f) oms, q)"
proof -
  obtain p where p: "buildData (se_time env) (ps_endpoint ps) False [] [] [f] = Inr p"
    using assms(3) by (simp add: buildData_def data_body_def complete_acks_def partial_acks_def fragment_bytes_def Let_def)
  obtain q where "seal env 0 ps p = Inr q" using seal_ok [OF assms(1,2)] by blast
  with p show ?thesis by (auto simp: carries_def send_fragment_def Let_def)
qed

lemma resend_step:
  assumes "env_ok env" and "keys_ok ps" and find: "smap_find (mt_omf t) msgId = Some oms"
    and f: "OutboundMessageState_getNextUnackdFragment oms = Some f" and size: "length (sf_data f) \<le> 16383"
    and tries: "unat (om_tries oms) \<le> 5"
  shows "\<exists>q t' oms'. carries env ps f q \<and>
    omf_timerCallback env False ps msgId t = (t', [Send_packet q, Arm_resend ps msgId], None) \<and>
    smap_find (mt_omf t') msgId = Some oms' \<and> OutboundMessageState_getNextUnackdFragment oms' = Some f \<and>
    unat (om_tries oms') = unat (om_tries oms) + 1 \<and> mt_imf t' = mt_imf t \<and>
    (\<forall>m. m \<noteq> msgId \<longrightarrow> smap_find (mt_omf t') m = smap_find (mt_omf t) m)"
proof -
  obtain q where q: "carries env ps f q"
    "send_fragment env ps f oms = Inr (OutboundMessageState_markFragmentSent (sf_fragNum f) oms, q)"
    using send_fragment_ok [OF assms(1,2) size] by blast
  let ?oms = "OutboundMessageState_incrementTries (OutboundMessageState_markFragmentSent (sf_fragNum f) oms)"
  have "\<not> 5 < om_tries oms" using tries by (simp add: word_less_nat_alt)
  then have "omf_timerCallback env False ps msgId t =
      (t\<lparr>mt_omf := smap_put msgId ?oms (mt_omf t)\<rparr>, [Send_packet q, Arm_resend ps msgId], None)"
    using find f q by (simp add: omf_timerCallback_def)
  moreover have "unat (om_tries oms + 1) = unat (om_tries oms) + 1"
    using tries by (simp add: unat_word_ariths)
  ultimately show ?thesis
    using q(1) f by (simp add: smap_find_put)
qed

lemma resend_give_up:
  assumes "smap_find (mt_omf t) msgId = Some oms" and "unat (om_tries oms) = 6"
  shows "omf_timerCallback env False ps msgId t = (omf_delState msgId t, [], None)"
  using assms by (simp add: omf_timerCallback_def word_less_nat_alt)

lemma resend_run_sends:
  assumes env: "\<And>i. env_ok (env i)" and ks: "keys_ok ps" and find: "smap_find (mt_omf t) msgId = Some oms"
    and f: "OutboundMessageState_getNextUnackdFragment oms = Some f" and size: "length (sf_data f) \<le> 16383"
    and tries: "om_tries oms = 0" and n: "n \<le> 6"
  shows "\<exists>qs t' oms'. resend_run env ps msgId n t =
      (t', concat (map (\<lambda>q. [Send_packet q, Arm_resend ps msgId]) qs)) \<and>
    length qs = n \<and> (\<forall>i < n. carries (env i) ps f (qs ! i)) \<and>
    smap_find (mt_omf t') msgId = Some oms' \<and> OutboundMessageState_getNextUnackdFragment oms' = Some f \<and>
    unat (om_tries oms') = n \<and> mt_imf t' = mt_imf t \<and>
    (\<forall>m. m \<noteq> msgId \<longrightarrow> smap_find (mt_omf t') m = smap_find (mt_omf t) m)"
  using n
proof (induction n)
  case 0
  with find f tries show ?case by simp
next
  case (Suc n)
  then obtain qs t1 oms1 where IH: "resend_run env ps msgId n t =
      (t1, concat (map (\<lambda>q. [Send_packet q, Arm_resend ps msgId]) qs))"
    "length qs = n" "\<forall>i < n. carries (env i) ps f (qs ! i)" "smap_find (mt_omf t1) msgId = Some oms1"
    "OutboundMessageState_getNextUnackdFragment oms1 = Some f" "unat (om_tries oms1) = n" "mt_imf t1 = mt_imf t"
    "\<forall>m. m \<noteq> msgId \<longrightarrow> smap_find (mt_omf t1) m = smap_find (mt_omf t) m"
    by auto
  have "unat (om_tries oms1) \<le> 5" using IH(6) Suc.prems by simp
  from resend_step [OF env ks IH(4,5) size this, of n] obtain q t2 oms2 where
    "carries (env n) ps f q" "omf_timerCallback (env n) False ps msgId t1 = (t2, [Send_packet q, Arm_resend ps msgId], None)"
    "smap_find (mt_omf t2) msgId = Some oms2" "OutboundMessageState_getNextUnackdFragment oms2 = Some f"
    "unat (om_tries oms2) = unat (om_tries oms1) + 1" "mt_imf t2 = mt_imf t1"
    "\<forall>m. m \<noteq> msgId \<longrightarrow> smap_find (mt_omf t2) m = smap_find (mt_omf t1) m" by blast
  with IH show ?case
    by (intro exI [of _ "qs @ [q]"] exI [of _ t2] exI [of _ oms2]) (auto simp: nth_append less_Suc_eq)
qed

subsection \<open>Properties\<close>

text \<open>C34. On a table kept in hash order, with sealing that works, the acknowledgement run returns if and
  only if every router in the table is still a peer; with one router missing it repeats the same
  round forever. When it returns it has removed exactly the completed messages, sent one packet per
  router, in hash order, that acknowledges its completed messages and reports the fragments received
  of the others, armed its timer again and thrown nothing.\<close>

theorem ack_run_returns:
  assumes env: "env_ok env" and ks: "\<forall>c \<in> set peers. keys_ok (pc_state c)"
    and srt: "sorted (map ce_hash (mt_imf t))"
  shows "((\<exists>r. flushAckCallback env peers t = Some r) \<longleftrightarrow> peers_known peers (mt_imf t)) \<and>
    (peers_known peers (mt_imf t) \<longrightarrow>
      (\<exists>outs. flushAckCallback env peers t =
         Some (t\<lparr>mt_imf := filter (\<lambda>d. \<not> complete_entry d) (mt_imf t)\<rparr>, outs @ [Arm_flush], None) \<and>
       list_all2 (\<lambda>h out. acknowledges env peers h (filter (\<lambda>d. ce_hash d = h) (mt_imf t)) out)
         (remdups_adj (map ce_hash (mt_imf t))) outs))"
proof -
  have "peers_known peers (mt_imf t)" if "flushAckCallback env peers t = Some r" for r
    using that flush_loop_known [OF env ks, of 0 "mt_imf t"]
    by (cases "flush_loop env peers 0 (mt_imf t)") (auto simp: flushAckCallback_def)
  moreover have "\<exists>outs. flushAckCallback env peers t =
         Some (t\<lparr>mt_imf := filter (\<lambda>d. \<not> complete_entry d) (mt_imf t)\<rparr>, outs @ [Arm_flush], None) \<and>
       list_all2 (\<lambda>h out. acknowledges env peers h (filter (\<lambda>d. ce_hash d = h) (mt_imf t)) out)
         (remdups_adj (map ce_hash (mt_imf t))) outs" if "peers_known peers (mt_imf t)"
    using flush_loop_all [OF env ks that srt, of 0] by (auto simp: flushAckCallback_def)
  ultimately show ?thesis by blast
qed

text \<open>C35. A message whose fragments are never acknowledged is retransmitted on each of the first
  six expiries of its timer, always its first unacknowledged fragment, and forgotten on the seventh;
  no other message is touched.\<close>

theorem retransmission_bounded:
  assumes env: "\<And>i. env_ok (env i)" and ks: "keys_ok ps" and find: "smap_find (mt_omf t) msgId = Some oms"
    and f: "OutboundMessageState_getNextUnackdFragment oms = Some f" and size: "length (sf_data f) \<le> 16383"
    and tries: "om_tries oms = 0"
  shows "\<exists>qs t'. resend_run env ps msgId 7 t =
      (t', concat (map (\<lambda>q. [Send_packet q, Arm_resend ps msgId]) qs)) \<and>
    length qs = 6 \<and> (\<forall>i < 6. carries (env i) ps f (qs ! i)) \<and>
    (\<forall>m. smap_find (mt_omf t') m = (if m = msgId then None else smap_find (mt_omf t) m)) \<and>
    mt_imf t' = mt_imf t"
proof -
  from resend_run_sends [where env = env and n = 6, OF assms] obtain qs t1 oms1 where run: "resend_run env ps msgId 6 t =
      (t1, concat (map (\<lambda>q. [Send_packet q, Arm_resend ps msgId]) qs))"
    and rest: "length qs = 6" "\<forall>i < 6. carries (env i) ps f (qs ! i)" "mt_imf t1 = mt_imf t"
    "\<forall>m. m \<noteq> msgId \<longrightarrow> smap_find (mt_omf t1) m = smap_find (mt_omf t) m"
    and last: "smap_find (mt_omf t1) msgId = Some oms1" "unat (om_tries oms1) = 6" by auto
  have "resend_run env ps msgId (Suc 6) t =
      (omf_delState msgId t1, concat (map (\<lambda>q. [Send_packet q, Arm_resend ps msgId]) qs))"
    by (simp only: resend_run.simps run resend_give_up [OF last] Let_def prod.case append_Nil2)
  with rest show ?thesis
    by (intro exI [of _ qs] exI [of _ "omf_delState msgId t1"]) (simp add: omf_delState_def smap_find_erase)
qed

definition sample_ssu_env :: ssu_env where
  "sample_ssu_env = \<lparr>se_aes = (\<lambda>k iv. rev), se_md5 = toy_md5, se_iv = (\<lambda>_. replicate 16 7), se_time = 1\<rparr>"

lemma sample_ssu_env_ok: "env_ok sample_ssu_env"
  by (simp add: env_ok_def sample_ssu_env_def)

lemma sample_peer_simps:
  "ps_routerHash sample_peer = [1, 1]" "ps_macKey sample_peer = [6]" "ps_endpoint sample_peer = sample_endpoint"
  by (simp_all add: sample_peer_def PeerState_make_def PeerState_setCurrentSessionKey_def PeerState_setCurrentMacKey_def)

lemma sample_keys_ok: "keys_ok sample_peer"
  by (simp add: keys_ok_def sample_peer_simps)

definition sample_tables :: MessageTables where
  "sample_tables = \<lparr>mt_omf = [(9, \<lparr>om_msgId = 9, om_data = [1, 2, 3],
     om_fragments = [(piece_fragment 9 [1, 2, 3] 0, FragmentFlags_make)], om_tries = 0\<rparr>)],
   mt_imf = [\<lparr>ce_msgId = 4, ce_hash = [1, 1], ce_state = InboundMessageState_make 0 [1, 1] 4\<rparr>]\<rparr>"

theorem ack_run_returns_witness:
  "flushAckCallback sample_ssu_env [] sample_tables = None \<and>
   (\<exists>outs. flushAckCallback sample_ssu_env [peer_container 0 sample_peer] sample_tables =
      Some (sample_tables, outs @ [Arm_flush], None))"
proof
  have srt: "sorted (map ce_hash (mt_imf sample_tables))" by (simp add: sample_tables_def)
  have "\<not> peers_known [] (mt_imf sample_tables)"
    by (simp add: peers_known_def sample_tables_def PeerStateList_peerExists_hash_def by_hash_def)
  with ack_run_returns [OF sample_ssu_env_ok _ srt, of "[]"]
  show "flushAckCallback sample_ssu_env [] sample_tables = None" by (auto simp: not_Some_eq [symmetric])
  have "peers_known [peer_container 0 sample_peer] (mt_imf sample_tables)"
    by (simp add: peers_known_def sample_tables_def PeerStateList_peerExists_hash_def by_hash_def sample_peer_simps)
  moreover have "filter (\<lambda>d. \<not> complete_entry d) (mt_imf sample_tables) = mt_imf sample_tables"
    by (simp add: sample_tables_def InboundMessageState_allFragmentsReceived_def InboundMessageState_make_def)
  ultimately show "\<exists>outs. flushAckCallback sample_ssu_env [peer_container 0 sample_peer] sample_tables =
      Some (sample_tables, outs @ [Arm_flush], None)"
    using ack_run_returns [OF sample_ssu_env_ok _ srt, of "[peer_container 0 sample_peer]"] sample_keys_ok
    by auto
qed

theorem retransmission_bounded_witness:
  "\<exists>qs t'. resend_run (\<lambda>_. sample_ssu_env) sample_peer 9 7 sample_tables =
      (t', concat (map (\<lambda>q. [Send_packet q, Arm_resend sample_peer 9]) qs)) \<and>
    length qs = 6 \<and> smap_find (mt_omf t') 9 = None"
proof -
  let ?oms = "\<lparr>om_msgId = 9, om_data = [1, 2, 3],
     om_fragments = [(piece_fragment 9 [1, 2, 3] 0, FragmentFlags_make)], om_tries = 0\<rparr>"
  have "smap_find (mt_omf sample_tables) 9 = Some ?oms" by (simp add: sample_tables_def smap_find_def)
  moreover have "OutboundMessageState_getNextUnackdFragment ?oms = Some (piece_fragment 9 [1, 2, 3] 0)"
    by (simp add: OutboundMessageState_getNextUnackdFragment_def FragmentFlags_make_def)
  moreover have "length (sf_data (piece_fragment 9 [1, 2, 3] 0)) \<le> 16383" by (simp add: piece_fragment_def)
  moreover have "om_tries ?oms = 0" by simp
  ultimately show ?thesis
    using retransmission_bounded [where env = "\<lambda>_. sample_ssu_env", OF sample_ssu_env_ok sample_keys_ok] by fastforce
qed

subsection \<open>Sending\<close>

text \<open>\<open>n\<close> runs of the send callback for one message, each with its own environment.\<close>

fun send_run :: "(nat \<Rightarrow> ssu_env) \<Rightarrow> PeerState \<Rightarrow> u32 \<Rightarrow> nat \<Rightarrow> MessageTables \<Rightarrow> MessageTables \<times> ssu_out list" where
  "send_run env ps msgId 0 t = (t, [])"
| "send_run env ps msgId (Suc n) t =
     (let (t, out) = send_run env ps msgId n t; (t, out', err) = omf_sendDataCallback (env n) ps msgId t
      in (t, out @ out'))"

text \<open>The state in which the first \<open>k\<close> fragments were sent.\<close>

definition sent_prefix :: "u32 \<Rightarrow> bytes \<Rightarrow> nat \<Rightarrow> OutboundMessageState" where
  "sent_prefix msgId data k = \<lparr>om_msgId = msgId, om_data = data,
     om_fragments = map (\<lambda>i. (piece_fragment msgId (pieces data ! i) i, \<lparr>ff_ackd = False, ff_sent = (i < k)\<rparr>))
       [0..<length (pieces data)], om_tries = 0\<rparr>"

lemma find_upt: "k < n \<Longrightarrow> (\<And>i. i < k \<Longrightarrow> \<not> P i) \<Longrightarrow> P k \<Longrightarrow> find P [0..<n] = Some k"
  by (auto simp: find_Some_iff)

lemma find_map_comp: "find P (map f l) = map_option f (find (P \<circ> f) l)"
  by (induction l) auto

lemma next_unsent:
  assumes "k < length (pieces data)"
  shows "OutboundMessageState_getNextFragment (sent_prefix msgId data k) =
    Inr (Some (piece_fragment msgId (pieces data ! k) k), sent_prefix msgId data k)"
proof -
  have "find (\<lambda>i. \<not> i < k) [0..<length (pieces data)] = Some k"
    using assms by (intro find_upt) auto
  with assms show ?thesis
    by (auto simp: OutboundMessageState_getNextFragment_def sent_prefix_def find_map_comp comp_def)
qed

lemma mark_sent_prefix:
  assumes "k < 256"
  shows "OutboundMessageState_markFragmentSent (of_nat k) (sent_prefix msgId data k) = sent_prefix msgId data (Suc k)"
proof -
  have k: "unat (of_nat k :: byte) = k" using assms by (simp add: unat_of_nat_byte)
  have "(map (\<lambda>i. (piece_fragment msgId (pieces data ! i) i, \<lparr>ff_ackd = False, ff_sent = (i < k)\<rparr>)) [0..<n])
      [k := (piece_fragment msgId (pieces data ! k) k, \<lparr>ff_ackd = False, ff_sent = True\<rparr>)] =
    map (\<lambda>i. (piece_fragment msgId (pieces data ! i) i, \<lparr>ff_ackd = False, ff_sent = (i < Suc k)\<rparr>)) [0..<n]" for n
  proof (rule nth_equalityI)
    fix i assume "i < length ((map (\<lambda>i. (piece_fragment msgId (pieces data ! i) i, \<lparr>ff_ackd = False, ff_sent = (i < k)\<rparr>)) [0..<n])
      [k := (piece_fragment msgId (pieces data ! k) k, \<lparr>ff_ackd = False, ff_sent = True\<rparr>)])"
    then show "(map (\<lambda>i. (piece_fragment msgId (pieces data ! i) i, \<lparr>ff_ackd = False, ff_sent = (i < k)\<rparr>)) [0..<n])
      [k := (piece_fragment msgId (pieces data ! k) k, \<lparr>ff_ackd = False, ff_sent = True\<rparr>)] ! i =
      map (\<lambda>i. (piece_fragment msgId (pieces data ! i) i, \<lparr>ff_ackd = False, ff_sent = (i < Suc k)\<rparr>)) [0..<n] ! i"
      by (cases "i = k") auto
  qed simp
  moreover have "sent_prefix msgId data (Suc k) = sent_prefix msgId data k" if "length (pieces data) \<le> k"
    using that by (simp add: sent_prefix_def)
  ultimately show ?thesis
    by (auto simp: OutboundMessageState_markFragmentSent_def set_flag_def k sent_prefix_def Let_def)
qed

lemma sent_prefix_0:
  "data \<noteq> [] \<Longrightarrow> length data \<le> 16383 * 127 \<Longrightarrow>
   OutboundMessageState_getNextFragment (OutboundMessageState_make msgId data) =
   OutboundMessageState_getNextFragment (sent_prefix msgId data 0)"
  using fragment_make [of data msgId] pieces_step [of data]
  by (auto simp: OutboundMessageState_getNextFragment_def sent_prefix_def FragmentFlags_make_def
      OutboundMessageState_make_def cong: map_cong)

lemma all_sent_prefix: "OutboundMessageState_allFragmentsSent (sent_prefix msgId data k) \<longleftrightarrow> length (pieces data) \<le> k"
  by (auto simp: OutboundMessageState_allFragmentsSent_def sent_prefix_def list_all_iff not_less [symmetric])

lemma piece_size: "k < length (pieces data) \<Longrightarrow> length (pieces data ! k) \<le> 1120"
  by (simp add: pieces_def)

lemma send_step:
  assumes "env_ok env" and "keys_ok ps" and k: "k < length (pieces data)" "k < 256"
    and find: "smap_find (mt_omf t) msgId = Some oms"
    and nxt: "OutboundMessageState_getNextFragment oms = OutboundMessageState_getNextFragment (sent_prefix msgId data k)"
  shows "\<exists>q. carries env ps (piece_fragment msgId (pieces data ! k) k) q \<and>
    omf_sendDataCallback env ps msgId t = (t\<lparr>mt_omf := smap_put msgId (sent_prefix msgId data (Suc k)) (mt_omf t)\<rparr>,
      Send_packet q # (if Suc k < length (pieces data) then [Post_sendData ps msgId] else []), None)"
proof -
  let ?f = "piece_fragment msgId (pieces data ! k) k"
  have "length (sf_data ?f) \<le> 16383" using piece_size [OF k(1)] by (simp add: piece_fragment_def)
  from send_fragment_ok [OF assms(1,2) this, of "sent_prefix msgId data k"]
  obtain q where q: "carries env ps ?f q"
    and "send_fragment env ps ?f (sent_prefix msgId data k) =
      Inr (OutboundMessageState_markFragmentSent (sf_fragNum ?f) (sent_prefix msgId data k), q)" by blast
  then have "send_fragment env ps ?f (sent_prefix msgId data k) = Inr (sent_prefix msgId data (Suc k), q)"
    using mark_sent_prefix [OF k(2), of msgId data] by (simp add: piece_fragment_def)
  with q find nxt next_unsent [OF k(1), of msgId] show ?thesis
    by (auto simp: omf_sendDataCallback_def all_sent_prefix)
qed

definition send_out :: "PeerState \<Rightarrow> u32 \<Rightarrow> nat \<Rightarrow> Packet list \<Rightarrow> nat \<Rightarrow> ssu_out list" where
  "send_out ps msgId n qs i = Send_packet (qs ! i) # (if Suc i < n then [Post_sendData ps msgId] else [])"

lemma send_run_sends:
  assumes env: "\<And>i. env_ok (env i)" and ks: "keys_ok ps" and data: "data \<noteq> []" "length data \<le> 256 * 1120"
    and start: "smap_find (mt_omf t) msgId = Some (OutboundMessageState_make msgId data)"
    and k: "k \<le> length (pieces data)"
  shows "\<exists>qs t' oms. send_run env ps msgId k t = (t', concat (map (send_out ps msgId (length (pieces data)) qs) [0..<k])) \<and>
    (\<forall>i < k. carries (env i) ps (piece_fragment msgId (pieces data ! i) i) (qs ! i)) \<and> length qs = k \<and>
    smap_find (mt_omf t') msgId = Some oms \<and> (0 < k \<longrightarrow> oms = sent_prefix msgId data k) \<and>
    OutboundMessageState_getNextFragment oms = OutboundMessageState_getNextFragment (sent_prefix msgId data k)"
  using k
proof (induction k)
  case 0
  show ?case using start sent_prefix_0 [of data msgId] data by auto
next
  case (Suc k)
  have count: "length (pieces data) \<le> 256" using data(2) by (simp add: length_pieces)
  from Suc obtain qs t2 oms where IH: "send_run env ps msgId k t =
      (t2, concat (map (send_out ps msgId (length (pieces data)) qs) [0..<k]))"
    "\<forall>i < k. carries (env i) ps (piece_fragment msgId (pieces data ! i) i) (qs ! i)" "length qs = k"
    "smap_find (mt_omf t2) msgId = Some oms"
    "OutboundMessageState_getNextFragment oms = OutboundMessageState_getNextFragment (sent_prefix msgId data k)"
    by auto
  let ?t = "t2\<lparr>mt_omf := smap_put msgId (sent_prefix msgId data (Suc k)) (mt_omf t2)\<rparr>"
  obtain q where q: "carries (env k) ps (piece_fragment msgId (pieces data ! k) k) q"
    "omf_sendDataCallback (env k) ps msgId t2 =
      (?t, Send_packet q # (if Suc k < length (pieces data) then [Post_sendData ps msgId] else []), None)"
    using send_step [OF env ks _ _ IH(4,5), of k] Suc.prems count by auto
  let ?F = "\<lambda>qs. send_out ps msgId (length (pieces data)) qs"
  have old: "map (?F (qs @ [q])) [0..<k] = map (?F qs) [0..<k]" using IH(3) by (auto simp: nth_append send_out_def)
  have "send_run env ps msgId (Suc k) t = (?t, concat (map (?F (qs @ [q])) [0..<Suc k]))"
    unfolding upt_Suc_append [OF le0] map_append old using IH(3)
    by (simp add: IH(1) q(2) send_out_def nth_append)
  moreover have "smap_find (mt_omf ?t) msgId = Some (sent_prefix msgId data (Suc k))"
    by (simp add: smap_find_put)
  ultimately show ?case
    using IH(2,3) q(1) by (intro exI [of _ "qs @ [q]"] exI [of _ ?t] exI [of _ "sent_prefix msgId data (Suc k)"])
      (auto simp: nth_append less_Suc_eq)
qed

text \<open>The callbacks for a new message of at most 256 fragments send every fragment exactly once, in
  order, one per callback, each posting the next callback until the last fragment is out and then
  none; an empty message is refused with an error by its callback.\<close>

theorem send_all_fragments:
  assumes env: "\<And>i. env_ok (env i)" and ks: "keys_ok ps" and data: "data \<noteq> []" "length data \<le> 256 * 1120"
    and new: "smap_find (mt_omf t) msgId = None" and n: "n = length (pieces data)"
  shows "\<exists>qs t'. send_run env ps msgId n (fst (omf_sendData ps msgId data t)) =
      (t', concat (map (send_out ps msgId n qs) [0..<n])) \<and>
    (\<forall>i < n. carries (env i) ps (piece_fragment msgId (pieces data ! i) i) (qs ! i)) \<and>
    smap_find (mt_omf t') msgId = Some (sent_prefix msgId data n) \<and>
    snd (omf_sendData ps msgId data t) = [Arm_resend ps msgId, Post_sendData ps msgId] \<and>
    snd (snd (omf_sendDataCallback (env 0) ps msgId (fst (omf_sendData ps msgId [] t)))) =
      Some (Runtime_error ''no ssu fragment when sending'')"
proof -
  have start: "smap_find (mt_omf (fst (omf_sendData ps msgId data t))) msgId = Some (OutboundMessageState_make msgId data)"
    using new by (simp add: omf_sendData_def smap_find_put)
  have "0 < n" using pieces_step [OF data(1)] by (simp add: n)
  with send_run_sends [where env = env and k = n, OF env ks data start] n
  obtain qs t' where "send_run env ps msgId n (fst (omf_sendData ps msgId data t)) =
      (t', concat (map (send_out ps msgId n qs) [0..<n]))"
    "\<forall>i < n. carries (env i) ps (piece_fragment msgId (pieces data ! i) i) (qs ! i)"
    "smap_find (mt_omf t') msgId = Some (sent_prefix msgId data n)" by auto
  moreover have "snd (snd (omf_sendDataCallback (env 0) ps msgId (fst (omf_sendData ps msgId [] t)))) =
      Some (Runtime_error ''no ssu fragment when sending'')"
    using new by (simp add: omf_sendData_def omf_sendDataCallback_def smap_find_put OutboundMessageState_make_def
        OutboundMessageState_getNextFragment_def OutboundMessageState_fragment_def ssu_fragment_loop.simps)
  ultimately show ?thesis using new by (auto simp: omf_sendData_def)
qed

theorem send_all_fragments_witness:
  "\<exists>qs t'. send_run (\<lambda>_. sample_ssu_env) sample_peer 5 1 (fst (omf_sendData sample_peer 5 [8, 8] empty_tables)) =
      (t', [Send_packet (qs ! 0)]) \<and> smap_find (mt_omf t') 5 = Some (sent_prefix 5 [8, 8] 1)"
proof -
  have n: "1 = length (pieces [8, 8])" by (simp add: pieces_step)
  have new: "smap_find (mt_omf empty_tables) 5 = None" by (simp add: empty_tables_def smap_find_def)
  show ?thesis
    using send_all_fragments [where env = "\<lambda>_. sample_ssu_env" and data = "[8, 8]",
        OF sample_ssu_env_ok sample_keys_ok _ _ new n]
    by (auto simp: send_out_def)
qed

end
