(* ===== verification/SSU_Establishment.thy ===== *)
theory SSU_Establishment
  imports SSU_Peers Router_Types
begin

text \<open>
  One session establishment: \<open>EstablishmentState\<close> with its Diffie-Hellman secret and signatures, the
  session packets of \<open>PacketBuilder\<close>, and the parsing members of \<open>PacketHandler\<close> for them. Botan's
  operations are the fields of \<open>crypto\<close>; a private key is the bytes the generator drew. What the
  clock and the generator return is an argument.
\<close>

record crypto =
  cr_aes_encrypt :: cipher
  cr_aes_decrypt :: cipher
  cr_md5 :: "bytes \<Rightarrow> bytes"
  cr_sha1 :: "bytes \<Rightarrow> bytes"
  cr_sha256 :: "bytes \<Rightarrow> bytes"
  cr_dh_public :: "bytes \<Rightarrow> bytes"
  cr_dh_agree :: "bytes \<Rightarrow> bytes \<Rightarrow> bytes result"
  cr_dsa_sign :: "bytes \<Rightarrow> bytes \<Rightarrow> bytes"
  cr_dsa_verify :: "bytes \<Rightarrow> bytes \<Rightarrow> bytes \<Rightarrow> bool"

definition identity_hash :: "crypto \<Rightarrow> RouterIdentity \<Rightarrow> bytes" where
  "identity_hash cr i = fst (RouterIdentity_getHash (cr_sha256 cr) i)"

subsection \<open>The state\<close>

datatype Direction = INBOUND | OUTBOUND

datatype State =
    UNKNOWN | REQUEST_SENT | REQUEST_RECEIVED | CREATED_SENT | CREATED_RECEIVED
  | CONFIRMED_SENT | CONFIRMED_RECEIVED | FAILURE

record EstablishmentState =
  es_state :: State
  es_direction :: Direction
  es_dsaKey :: bytes
  es_myIdentity :: RouterIdentity
  es_myEndpoint :: Endpoint
  es_iv :: bytes
  es_dhKey :: bytes
  es_dhSecret :: bytes
  es_sessionKey :: bytes
  es_macKey :: bytes
  es_theirIdentity :: "RouterIdentity option"
  es_theirEndpoint :: Endpoint
  es_theirDH :: bytes
  es_relayTag :: u32
  es_signatureTimestamp :: u32
  es_signature :: bytes

text \<open>The default endpoint is \<open>127.0.0.1:0\<close>; \<open>m_relayTag\<close> and \<open>m_signatureTimestamp\<close> have no
  initializer.\<close>

definition EstablishmentState_inbound ::
  "crypto \<Rightarrow> u32 \<Rightarrow> bytes \<Rightarrow> bytes \<Rightarrow> RouterIdentity \<Rightarrow> Endpoint \<Rightarrow> EstablishmentState" where
  "EstablishmentState_inbound cr junk dhKey dsaKey myIdentity ep =
     \<lparr>es_state = UNKNOWN, es_direction = INBOUND, es_dsaKey = dsaKey, es_myIdentity = myIdentity,
      es_myEndpoint = \<lparr>ep_addr = V4 [127, 0, 0, 1], ep_port = 0\<rparr>, es_iv = [], es_dhKey = dhKey, es_dhSecret = [],
      es_sessionKey = identity_hash cr myIdentity, es_macKey = identity_hash cr myIdentity,
      es_theirIdentity = None, es_theirEndpoint = ep, es_theirDH = [], es_relayTag = junk,
      es_signatureTimestamp = junk, es_signature = []\<rparr>"

definition EstablishmentState_outbound ::
  "crypto \<Rightarrow> u32 \<Rightarrow> bytes \<Rightarrow> bytes \<Rightarrow> RouterIdentity \<Rightarrow> Endpoint \<Rightarrow> RouterIdentity \<Rightarrow> EstablishmentState" where
  "EstablishmentState_outbound cr junk dhKey dsaKey myIdentity ep theirIdentity =
     \<lparr>es_state = UNKNOWN, es_direction = OUTBOUND, es_dsaKey = dsaKey, es_myIdentity = myIdentity,
      es_myEndpoint = \<lparr>ep_addr = V4 [127, 0, 0, 1], ep_port = 0\<rparr>, es_iv = [], es_dhKey = dhKey, es_dhSecret = [],
      es_sessionKey = identity_hash cr theirIdentity, es_macKey = identity_hash cr theirIdentity,
      es_theirIdentity = Some theirIdentity, es_theirEndpoint = ep, es_theirDH = [], es_relayTag = junk,
      es_signatureTimestamp = junk, es_signature = []\<rparr>"

definition getMyDH :: "crypto \<Rightarrow> EstablishmentState \<Rightarrow> bytes" where
  "getMyDH cr es = cr_dh_public cr (es_dhKey es)"

text \<open>A secret whose top bit is set gets a leading zero byte.\<close>

definition calculateDHSecret :: "crypto \<Rightarrow> EstablishmentState \<Rightarrow> EstablishmentState result" where
  "calculateDHSecret cr es =
     ebind (cr_dh_agree cr (es_dhKey es) (es_theirDH es)) (\<lambda>secret.
     ebind (require (secret \<noteq> []) Out_of_bounds) (\<lambda>_.
     Inr (es\<lparr>es_dhSecret := (if hd secret AND 0x80 \<noteq> 0 then 0 # secret else secret)\<rparr>)))"

definition endpoint_bytes :: "Endpoint \<Rightarrow> bytes" where
  "endpoint_bytes ep = Endpoint_getRawIP ep @ be16 (ep_port ep)"

text \<open>\<open>Botan::SymmetricKey(m_dhSecret.data(), 32)\<close> reads 32 bytes.\<close>

definition dh_key :: "EstablishmentState \<Rightarrow> bytes result" where
  "dh_key es = ebind (require (32 \<le> length (es_dhSecret es)) Out_of_bounds) (\<lambda>_. Inr (take 32 (es_dhSecret es)))"

definition creation_hash :: "crypto \<Rightarrow> u32 \<Rightarrow> EstablishmentState \<Rightarrow> bytes" where
  "creation_hash cr signedOn es =
     take 20 (cr_sha1 cr (es_theirDH es @ getMyDH cr es @ endpoint_bytes (es_theirEndpoint es) @
       endpoint_bytes (es_myEndpoint es) @ be32 (es_relayTag es) @ be32 signedOn))"

definition confirmation_hash :: "crypto \<Rightarrow> u32 \<Rightarrow> EstablishmentState \<Rightarrow> bytes" where
  "confirmation_hash cr signedOn es =
     take 20 (cr_sha1 cr (getMyDH cr es @ es_theirDH es @ endpoint_bytes (es_myEndpoint es) @
       endpoint_bytes (es_theirEndpoint es) @ be32 (es_relayTag es) @ be32 signedOn))"

text \<open>The signature is padded, and encrypted under a fresh initialization vector that the state keeps.\<close>

definition calculateCreationSignature ::
  "crypto \<Rightarrow> bytes \<Rightarrow> u32 \<Rightarrow> EstablishmentState \<Rightarrow> (bytes \<times> EstablishmentState) result" where
  "calculateCreationSignature cr iv signedOn es =
     (let signature = pad16 (cr_dsa_sign cr (es_dsaKey es) (creation_hash cr signedOn es)) in
      ebind (dh_key es) (\<lambda>key.
      Inr (cr_aes_encrypt cr key iv signature, es\<lparr>es_iv := iv\<rparr>)))"

definition calculateConfirmationSignature :: "crypto \<Rightarrow> u32 \<Rightarrow> EstablishmentState \<Rightarrow> bytes" where
  "calculateConfirmationSignature cr signedOn es =
     cr_dsa_sign cr (es_dsaKey es) (confirmation_hash cr signedOn es)"

text \<open>\<open>remaining() - 8\<close> wraps for fewer than 8 bytes: an allocation that fails.\<close>

definition verifyCreationSignature :: "crypto \<Rightarrow> EstablishmentState \<Rightarrow> bool result" where
  "verifyCreationSignature cr es =
     ebind (dh_key es) (\<lambda>key.
     let plain = cr_aes_decrypt cr key (es_iv es) (es_signature es) in
     ebind (require (8 \<le> length plain) Out_of_bounds) (\<lambda>_.
     case es_theirIdentity es of
       None \<Rightarrow> Inl Null_dereference
     | Some i \<Rightarrow>
         Inr (cr_dsa_verify cr (rid_signingKey i) (confirmation_hash cr (es_signatureTimestamp es) es)
           (take (length plain - 8) plain))))"

definition verifyConfirmationSignature :: "crypto \<Rightarrow> EstablishmentState \<Rightarrow> bool result" where
  "verifyConfirmationSignature cr es =
     (case es_theirIdentity es of
        None \<Rightarrow> Inl Null_dereference
      | Some i \<Rightarrow>
          Inr (cr_dsa_verify cr (rid_signingKey i) (creation_hash cr (es_signatureTimestamp es) es) (es_signature es)))"

subsection \<open>Session packets\<close>

definition endpoint_field :: "Endpoint \<Rightarrow> bytes" where
  "endpoint_field ep = of_nat (length (Endpoint_getRawIP ep)) # Endpoint_getRawIP ep @ be16 (ep_port ep)"

definition append_data :: "bytes \<Rightarrow> Packet \<Rightarrow> Packet" where
  "append_data d p = p\<lparr>pk_data := pk_data p @ d\<rparr>"

definition buildSessionRequest :: "crypto \<Rightarrow> u32 \<Rightarrow> EstablishmentState \<Rightarrow> Packet" where
  "buildSessionRequest cr ts es =
     append_data (getMyDH cr es @ endpoint_field (es_theirEndpoint es))
       (buildHeader ts (es_theirEndpoint es) (push_bit 4 (payload_code SESSION_REQUEST)))"

text \<open>\<open>ts\<close> is the time in the header, \<open>ts'\<close> the time signed.\<close>

definition buildSessionCreated ::
  "crypto \<Rightarrow> bytes \<Rightarrow> u32 \<Rightarrow> u32 \<Rightarrow> EstablishmentState \<Rightarrow> (Packet \<times> EstablishmentState) result" where
  "buildSessionCreated cr iv ts ts' es =
     ebind (calculateCreationSignature cr iv ts' es) (\<lambda>(signature, es').
     Inr (append_data (getMyDH cr es @ endpoint_field (es_theirEndpoint es) @ be32 (es_relayTag es) @ be32 ts' @ signature)
            (buildHeader ts (es_theirEndpoint es) (push_bit 4 (payload_code SESSION_CREATED))), es'))"

definition buildSessionConfirmed :: "crypto \<Rightarrow> u32 \<Rightarrow> u32 \<Rightarrow> EstablishmentState \<Rightarrow> Packet" where
  "buildSessionConfirmed cr ts ts' es =
     (let idBytes = RouterIdentity_serialize (es_myIdentity es)
      in append_data ([1] @ be16 (of_nat (length idBytes)) @ idBytes @ be32 ts' @ replicate 9 0 @
             calculateConfirmationSignature cr ts' es)
           (buildHeader ts (es_theirEndpoint es) (push_bit 4 (payload_code SESSION_CONFIRMED))))"

subsection \<open>Reading session packets\<close>

text \<open>The handlers mutate the state as they read; the reads are not checked against \<open>end\<close>. The result is
  the state, the effects on the rest of the transport in order, and the exception.\<close>

datatype es_effect =
    Es_send Packet
  | Es_post
  | Es_add_peer PeerState
  | Es_del_state Endpoint
  | Es_established bytes bool
  | Es_failure bytes

type_synonym es_result = "EstablishmentState \<times> es_effect list \<times> cpp_error option"

definition read_endpoint :: "byte \<Rightarrow> Endpoint parser" where
  "read_endpoint ipSize =
     pbind (next_bytes (unat ipSize)) (\<lambda>ip. pbind parseUint16 (\<lambda>port. preturn (Endpoint_of_bytes ip port)))"

definition handleSessionRequest :: "bytes \<Rightarrow> nat \<Rightarrow> EstablishmentState \<Rightarrow> es_result" where
  "handleSessionRequest buf p es =
     (case next_bytes 256 buf p of
        Inl err \<Rightarrow> (es, [], Some err)
      | Inr (dh, p) \<Rightarrow>
          (let es = es\<lparr>es_theirDH := dh\<rparr> in
           case next_byte buf p of
             Inl err \<Rightarrow> (es, [], Some err)
           | Inr (ipSize, p) \<Rightarrow>
               if ipSize \<noteq> 4 \<and> ipSize \<noteq> 16 then (es, [], None)
               else case read_endpoint ipSize buf p of
                 Inl err \<Rightarrow> (es, [], Some err)
               | Inr (ep, p) \<Rightarrow>
                   (es\<lparr>es_myEndpoint := ep, es_relayTag := 0, es_state := REQUEST_RECEIVED\<rparr>, [Es_post], None)))"

definition handleSessionCreated :: "bytes \<Rightarrow> nat \<Rightarrow> EstablishmentState \<Rightarrow> es_result" where
  "handleSessionCreated buf p es =
     (if es_state es \<noteq> REQUEST_SENT then (es, [], None)
      else case next_bytes 256 buf p of
        Inl err \<Rightarrow> (es, [], Some err)
      | Inr (dh, p) \<Rightarrow>
          (let es = es\<lparr>es_theirDH := dh\<rparr> in
           case next_byte buf p of
             Inl err \<Rightarrow> (es, [], Some err)
           | Inr (ipSize, p) \<Rightarrow>
               if ipSize \<noteq> 4 \<and> ipSize \<noteq> 16 then (es, [], None)
               else case read_endpoint ipSize buf p of
                 Inl err \<Rightarrow> (es, [], Some err)
               | Inr (ep, p) \<Rightarrow>
                   (let es = es\<lparr>es_myEndpoint := ep\<rparr> in
                    case parseUint32 buf p of
                      Inl err \<Rightarrow> (es, [], Some err)
                    | Inr (relayTag, p) \<Rightarrow>
                        (let es = es\<lparr>es_relayTag := relayTag\<rparr> in
                         case parseUint32 buf p of
                           Inl err \<Rightarrow> (es, [], Some err)
                         | Inr (ts, p) \<Rightarrow>
                             (let es = es\<lparr>es_signatureTimestamp := ts\<rparr> in
                              case next_bytes 48 buf p of
                                Inl err \<Rightarrow> (es, [], Some err)
                              | Inr (sig, p) \<Rightarrow>
                                  (es\<lparr>es_signature := sig, es_state := CREATED_RECEIVED\<rparr>, [Es_post], None))))))"

definition handleSessionConfirmed :: "bytes \<Rightarrow> nat \<Rightarrow> EstablishmentState \<Rightarrow> es_result" where
  "handleSessionConfirmed buf p es =
     (if es_state es \<noteq> CREATED_SENT then (es, [], None)
      else case pbind next_byte (\<lambda>info. pbind parseUint16 (\<lambda>size. RouterIdentity_parse (length buf))) buf p of
        Inl err \<Rightarrow> (es, [], Some err)
      | Inr (ri, p) \<Rightarrow>
          (let es = es\<lparr>es_theirIdentity := Some ri\<rparr> in
           case parseUint32 buf p of
             Inl err \<Rightarrow> (es, [], Some err)
           | Inr (ts, p) \<Rightarrow>
               (let es = es\<lparr>es_signatureTimestamp := ts\<rparr> in
                if length buf < 40 then (es, [], Some Out_of_bounds)
                else (es\<lparr>es_signature := drop (length buf - 40) buf, es_state := CONFIRMED_RECEIVED\<rparr>, [Es_post], None))))"

subsection \<open>The keys\<close>

text \<open>\<open>toSessionKey(dhSecret)\<close> and the copy of the 32 bytes behind it.\<close>

definition install_keys :: "bytes \<Rightarrow> EstablishmentState \<Rightarrow> EstablishmentState result" where
  "install_keys junk es =
     ebind (require (64 \<le> length (es_dhSecret es)) Out_of_bounds) (\<lambda>_.
     Inr (es\<lparr>es_sessionKey := toStaticByteArray 32 junk (es_dhSecret es),
             es_macKey := take 32 (drop 32 (es_dhSecret es))\<rparr>))"

definition established_peer :: "crypto \<Rightarrow> bytes \<Rightarrow> EstablishmentState \<Rightarrow> PeerState result" where
  "established_peer cr junk es =
     (case es_theirIdentity es of
        None \<Rightarrow> Inl Null_dereference
      | Some i \<Rightarrow>
          Inr (PeerState_setCurrentMacKey (es_macKey es) (PeerState_setCurrentSessionKey (es_sessionKey es)
            (PeerState_make junk (es_theirEndpoint es) (identity_hash cr i)))))"

subsection \<open>The steps of the establishment manager\<close>

record randomness =
  rn_iv :: bytes
  rn_sigiv :: bytes
  rn_time :: u32
  rn_time' :: u32
  rn_junk :: bytes

definition es_encrypt :: "crypto \<Rightarrow> bytes \<Rightarrow> EstablishmentState \<Rightarrow> Packet \<Rightarrow> Packet result" where
  "es_encrypt cr iv es p = Packet_encrypt (cr_aes_encrypt cr) (cr_md5 cr) iv (es_sessionKey es) (es_macKey es) p"

definition sendRequest :: "crypto \<Rightarrow> randomness \<Rightarrow> EstablishmentState \<Rightarrow> es_result" where
  "sendRequest cr rn es =
     (case es_encrypt cr (rn_iv rn) es (buildSessionRequest cr (rn_time rn) es) of
        Inl err \<Rightarrow> (es, [], Some err)
      | Inr q \<Rightarrow> (es\<lparr>es_state := REQUEST_SENT\<rparr>, [Es_send q, Es_post], None))"

definition processRequest :: "crypto \<Rightarrow> randomness \<Rightarrow> EstablishmentState \<Rightarrow> es_result" where
  "processRequest cr rn es =
     (case calculateDHSecret cr es of
        Inl err \<Rightarrow> (es, [], Some err)
      | Inr es \<Rightarrow>
          (case buildSessionCreated cr (rn_sigiv rn) (rn_time rn) (rn_time' rn) es of
             Inl err \<Rightarrow> (es, [], Some err)
           | Inr (p, es) \<Rightarrow>
               (case es_encrypt cr (es_iv es) es p of
                  Inl err \<Rightarrow> (es, [], Some err)
                | Inr q \<Rightarrow>
                    (case install_keys (rn_junk rn) es of
                       Inl err \<Rightarrow> (es, [], Some err)
                     | Inr es \<Rightarrow> (es\<lparr>es_state := CREATED_SENT\<rparr>, [Es_send q, Es_post], None)))))"

text \<open>A creation signature that does not verify leaves the state in \<open>FAILURE\<close> without posting it.\<close>

definition processCreated :: "crypto \<Rightarrow> randomness \<Rightarrow> EstablishmentState \<Rightarrow> es_result" where
  "processCreated cr rn es =
     (case calculateDHSecret cr es of
        Inl err \<Rightarrow> (es, [], Some err)
      | Inr es \<Rightarrow>
          (case verifyCreationSignature cr es of
             Inl err \<Rightarrow> (es, [], Some err)
           | Inr False \<Rightarrow> (es\<lparr>es_state := FAILURE\<rparr>, [], None)
           | Inr True \<Rightarrow>
               (case install_keys (rn_junk rn) es of
                  Inl err \<Rightarrow> (es, [], Some err)
                | Inr es \<Rightarrow>
                    (case established_peer cr (rn_junk rn) es of
                       Inl err \<Rightarrow> (es, [], Some err)
                     | Inr ps \<Rightarrow>
                         (case es_encrypt cr (rn_iv rn) es (buildSessionConfirmed cr (rn_time rn) (rn_time' rn) es) of
                            Inl err \<Rightarrow> (es, [Es_add_peer ps], Some err)
                          | Inr q \<Rightarrow>
                              (es\<lparr>es_state := CONFIRMED_SENT\<rparr>, [Es_add_peer ps, Es_send q, Es_post], None))))))"

definition processConfirmed :: "crypto \<Rightarrow> randomness \<Rightarrow> EstablishmentState \<Rightarrow> es_result" where
  "processConfirmed cr rn es =
     (case verifyConfirmationSignature cr es of
        Inl err \<Rightarrow> (es, [], Some err)
      | Inr False \<Rightarrow> (es\<lparr>es_state := FAILURE\<rparr>, [Es_post], None)
      | Inr True \<Rightarrow>
          (case established_peer cr (rn_junk rn) es of
             Inl err \<Rightarrow> (es, [], Some err)
           | Inr ps \<Rightarrow>
               (es, [Es_add_peer ps, Es_del_state (es_theirEndpoint es),
                     Es_established (ps_routerHash ps) (es_direction es = INBOUND)], None)))"

definition stateChanged :: "crypto \<Rightarrow> randomness \<Rightarrow> EstablishmentState \<Rightarrow> es_result" where
  "stateChanged cr rn es =
     (case es_state es of
        REQUEST_SENT \<Rightarrow> (es, [], None)
      | REQUEST_RECEIVED \<Rightarrow> processRequest cr rn es
      | CREATED_SENT \<Rightarrow> (es, [], None)
      | CREATED_RECEIVED \<Rightarrow> processCreated cr rn es
      | CONFIRMED_SENT \<Rightarrow>
          (case es_theirIdentity es of
             None \<Rightarrow> (es, [], Some Null_dereference)
           | Some i \<Rightarrow>
               (es, [Es_established (identity_hash cr i) (es_direction es = INBOUND), Es_del_state (es_theirEndpoint es)], None))
      | CONFIRMED_RECEIVED \<Rightarrow> processConfirmed cr rn es
      | _ \<Rightarrow>
          (if es_direction es = OUTBOUND
           then case es_theirIdentity es of
                  None \<Rightarrow> (es, [], Some Null_dereference)
                | Some i \<Rightarrow> (es, [Es_failure (identity_hash cr i), Es_del_state (es_theirEndpoint es)], None)
           else (es, [Es_del_state (es_theirEndpoint es)], None)))"

definition timeoutCallback :: "bool \<Rightarrow> EstablishmentState \<Rightarrow> es_result" where
  "timeoutCallback e es = (if e then (es, [], None) else (es\<lparr>es_state := FAILURE\<rparr>, [Es_post], None))"

text \<open>A packet for a session that is being established, and a session request: verified, decrypted, and
  dispatched on the payload type behind the five header bytes.\<close>

definition read_header :: "bytes \<Rightarrow> (byte \<times> nat) result" where
  "read_header data = pbind next_byte (\<lambda>flag. pbind (skip 4) (\<lambda>_. preturn (drop_bit 4 flag))) data 0"

definition handlePacket_establishing :: "crypto \<Rightarrow> Packet \<Rightarrow> EstablishmentState \<Rightarrow> es_result" where
  "handlePacket_establishing cr packet es =
     (case Packet_verify (cr_md5 cr) (es_macKey es) packet of
        Inl err \<Rightarrow> (es, [], Some err)
      | Inr False \<Rightarrow> (es, [], None)
      | Inr True \<Rightarrow>
          (let es = (if es_direction es = OUTBOUND then es\<lparr>es_iv := take 16 (drop 16 (pk_data packet))\<rparr> else es) in
           case Packet_decrypt (cr_aes_decrypt cr) (es_sessionKey es) packet of
             Inl err \<Rightarrow> (es, [], Some err)
           | Inr p \<Rightarrow>
               (case read_header (pk_data p) of
                  Inl err \<Rightarrow> (es, [], Some err)
                | Inr (ptype, pos) \<Rightarrow>
                    if ptype = payload_code SESSION_CREATED then handleSessionCreated (pk_data p) pos es
                    else if ptype = payload_code SESSION_CONFIRMED then handleSessionConfirmed (pk_data p) pos es
                    else if ptype = payload_code SESSION_DESTROY then (es\<lparr>es_state := FAILURE\<rparr>, [Es_post], None)
                    else (es, [], None))))"

text \<open>\<open>handlePacket(PacketPtr &p)\<close> up to the call of \<open>handleSessionRequest\<close>: the data and position it is
  given, or \<open>None\<close> for a packet that is dropped.\<close>

definition open_request :: "crypto \<Rightarrow> bytes \<Rightarrow> Packet \<Rightarrow> (bytes \<times> nat) option result" where
  "open_request cr inboundKey p =
     ebind (Packet_verify (cr_md5 cr) inboundKey p) (\<lambda>ok.
     if \<not> ok then Inr None
     else ebind (Packet_decrypt (cr_aes_decrypt cr) inboundKey p) (\<lambda>p.
          ebind (read_header (pk_data p)) (\<lambda>(ptype, pos).
          Inr (if ptype = payload_code SESSION_REQUEST then Some (pk_data p, pos) else None))))"

subsection \<open>Lemmas\<close>

lemma unat_ip_size: "Endpoint_wf ep \<Longrightarrow> unat (of_nat (length (Endpoint_getRawIP ep)) :: byte) = length (Endpoint_getRawIP ep)"
  using length_getRawIP [of ep] by (auto simp: unat_of_nat_byte)

lemma read_endpoint_has_at:
  assumes "Endpoint_wf ep" and "has_at buf p (Endpoint_getRawIP ep @ be16 (ep_port ep))"
  shows "read_endpoint (of_nat (length (Endpoint_getRawIP ep))) buf p =
    Inr (ep, p + length (Endpoint_getRawIP ep) + 2)"
  using assms Endpoint_raw_roundtrip [OF assms(1)]
  by (auto simp: read_endpoint_def pbind_def unat_ip_size next_bytes_has_at parseUint16_has_at preturn_def)

lemma ip_size_ok: "Endpoint_wf ep \<Longrightarrow> (of_nat (length (Endpoint_getRawIP ep)) :: byte) = 4 \<or>
    (of_nat (length (Endpoint_getRawIP ep)) :: byte) = 16"
  using length_getRawIP [of ep] by auto

lemma endpoint_field_has_at:
  assumes "has_at buf p (endpoint_field ep @ rest)"
  shows "next_byte buf p = Inr (of_nat (length (Endpoint_getRawIP ep)), Suc p)"
    and "has_at buf (Suc p) (Endpoint_getRawIP ep @ be16 (ep_port ep))"
    and "has_at buf (Suc p + length (Endpoint_getRawIP ep) + 2) rest"
  using assms by (auto simp: endpoint_field_def has_at_Cons next_byte_def add.assoc)

lemma handleSessionRequest_has_at:
  assumes "has_at buf p (dh @ endpoint_field ep @ rest)" and "length dh = 256" and ep: "Endpoint_wf ep"
  shows "handleSessionRequest buf p es =
    (es\<lparr>es_theirDH := dh, es_myEndpoint := ep, es_relayTag := 0, es_state := REQUEST_RECEIVED\<rparr>, [Es_post], None)"
proof -
  have dh: "next_bytes 256 buf p = Inr (dh, p + 256)" and at: "has_at buf (p + 256) (endpoint_field ep @ rest)"
    using assms(1,2) by (auto intro: next_bytes_has_at)
  note f = endpoint_field_has_at [OF at]
  show ?thesis
    using ip_size_ok [OF ep] read_endpoint_has_at [OF ep f(2)]
    by (auto simp: handleSessionRequest_def dh f(1))
qed

lemma handleSessionCreated_has_at:
  assumes "es_state es = REQUEST_SENT"
    and "has_at buf p (dh @ endpoint_field ep @ be32 rt @ be32 ts @ sig @ rest)"
    and "length dh = 256" and ep: "Endpoint_wf ep" and "length sig = 48"
  shows "handleSessionCreated buf p es =
    (es\<lparr>es_theirDH := dh, es_myEndpoint := ep, es_relayTag := rt, es_signatureTimestamp := ts, es_signature := sig,
        es_state := CREATED_RECEIVED\<rparr>, [Es_post], None)"
proof -
  have dh: "next_bytes 256 buf p = Inr (dh, p + 256)"
    and at: "has_at buf (p + 256) (endpoint_field ep @ be32 rt @ be32 ts @ sig @ rest)"
    using assms(2,3) by (auto intro: next_bytes_has_at)
  note f = endpoint_field_has_at [OF at]
  let ?q = "Suc (p + 256) + length (Endpoint_getRawIP ep) + 2"
  have "parseUint32 buf ?q = Inr (rt, ?q + 4)" "parseUint32 buf (?q + 4) = Inr (ts, ?q + 4 + 4)"
    "next_bytes 48 buf (?q + 4 + 4) = Inr (sig, ?q + 4 + 4 + 48)"
    using f(3) assms(5) by (auto simp: parseUint32_has_at next_bytes_has_at)
  with assms(1) ip_size_ok [OF ep] read_endpoint_has_at [OF ep f(2)] show ?thesis
    by (auto simp: handleSessionCreated_def dh f(1))
qed

lemma handleSessionConfirmed_has_at:
  assumes "es_state es = CREATED_SENT" and id: "RouterIdentity_wf i"
    and buf: "buf = hdr @ [info] @ be16 sz @ RouterIdentity_serialize i @ be32 ts @ pad @ sig" "length hdr = p" "length sig = 40"
  shows "handleSessionConfirmed buf p es =
    (es\<lparr>es_theirIdentity := Some i, es_signatureTimestamp := ts, es_signature := sig,
        es_state := CONFIRMED_RECEIVED\<rparr>, [Es_post], None)"
proof -
  have at: "has_at buf p ([info] @ be16 sz @ RouterIdentity_serialize i @ be32 ts @ pad @ sig)"
    unfolding buf(1) using has_at_middle [of hdr "[info] @ be16 sz @ RouterIdentity_serialize i @ be32 ts @ pad @ sig" "[]"] buf(2)
    by (simp only: append_Nil2)
  let ?q = "Suc p + 2" and ?r = "Suc p + 2 + length (RouterIdentity_serialize i)"
  have 1: "next_byte buf p = Inr (info, Suc p)" "parseUint16 buf (Suc p) = Inr (sz, ?q)"
    and ids: "has_at buf ?q (RouterIdentity_serialize i)" and ts: "parseUint32 buf ?r = Inr (ts, ?r + 4)"
    using at by (auto simp: has_at_Cons next_byte_def parseUint16_has_at parseUint32_has_at)
  have "RouterIdentity_parse (length buf) buf ?q = Inr (i, ?r)"
    using rident.par_ser [OF id ids, of "length buf"] has_at_le [OF ids] by simp
  moreover obtain pre where "buf = pre @ sig" using buf(1) by simp
  then have "drop (length buf - 40) buf = sig" and "\<not> length buf < 40" using buf(3) by simp_all
  ultimately show ?thesis
    using assms(1) 1 ts by (simp add: handleSessionConfirmed_def pbind_def)
qed

subsection \<open>The handshake\<close>

text \<open>What the handshake needs of the cryptographic library: AES undoes itself on whole blocks, digests
  and public values have their sizes, and both sides of a Diffie-Hellman exchange agree.\<close>

definition crypto_ok :: "crypto \<Rightarrow> bool" where
  "crypto_ok cr \<longleftrightarrow>
     (\<forall>x. length (cr_md5 cr x) = 16) \<and> (\<forall>x. length (cr_sha256 cr x) = 32) \<and>
     (\<forall>k iv x. length (cr_aes_encrypt cr k iv x) = length x) \<and>
     (\<forall>k iv x. length iv = 16 \<longrightarrow> 16 dvd length x \<longrightarrow> cr_aes_decrypt cr k iv (cr_aes_encrypt cr k iv x) = x) \<and>
     (\<forall>k. length (cr_dh_public cr k) = 256) \<and>
     (\<forall>a b. \<exists>s. cr_dh_agree cr a (cr_dh_public cr b) = Inr s \<and> cr_dh_agree cr b (cr_dh_public cr a) = Inr s \<and>
        64 \<le> length s)"

text \<open>A router: its identity and the private key whose signatures that identity verifies. The identity is
  as long as one with a null certificate modulo the cipher block, the case the nine padding bytes of
  a session confirmation are made for.\<close>

definition router_ok :: "crypto \<Rightarrow> bytes \<Rightarrow> RouterIdentity \<Rightarrow> bool" where
  "router_ok cr dsaKey i \<longleftrightarrow> RouterIdentity_wf i \<and> length (RouterIdentity_serialize i) mod 16 = 3 \<and>
     length (RouterIdentity_serialize i) < 65536 \<and>
     (\<forall>h. length (cr_dsa_sign cr dsaKey h) = 40 \<and> cr_dsa_verify cr (rid_signingKey i) h (cr_dsa_sign cr dsaKey h))"

lemma length_identity_hash: "crypto_ok cr \<Longrightarrow> RouterIdentity_wf i \<Longrightarrow> length (identity_hash cr i) = 32"
  by (simp add: crypto_ok_def identity_hash_def RouterIdentity_getHash_def RouterIdentity_wf_def Let_def)

text \<open>What a sealed packet is for the side that holds the same keys.\<close>

lemma es_encrypt_open:
  assumes cr: "crypto_ok cr" and iv: "length iv = 16" and mk: "length (es_macKey es) \<le> 64"
    and size: "length (pk_data p) < 70000"
  shows "\<exists>q. es_encrypt cr iv es p = Inr q \<and> take 16 (drop 16 (pk_data q)) = iv \<and>
    Packet_verify (cr_md5 cr) (es_macKey es) q = Inr True \<and>
    Packet_decrypt (cr_aes_decrypt cr) (es_sessionKey es) q = Inr (p\<lparr>pk_data := pad16 (pk_data p)\<rparr>)"
  using seal_roundtrip [of "cr_md5 cr" "cr_aes_encrypt cr" "cr_aes_decrypt cr" iv "es_macKey es" p "es_sessionKey es"]
    cr iv mk size
  by (auto simp: crypto_ok_def es_encrypt_def)

lemma read_header_has:
  assumes "pad16 (pk_data (append_data d (buildHeader ts ep flag))) = buf"
  shows "\<exists>pad. buf = (flag # be32 ts) @ d @ pad \<and> read_header buf = Inr (drop_bit 4 flag, 5) \<and>
    (16 dvd length d + 5 \<longrightarrow> pad = [])"
proof -
  let ?h = "flag # be32 ts"
  have data: "pk_data (append_data d (buildHeader ts ep flag)) = ?h @ d"
    by (simp add: append_data_def buildHeader_def Packet_make_def)
  obtain pad where buf: "buf = ?h @ d @ pad"
    using assms pad16_prefix [of "?h @ d"] unfolding data by (metis append.assoc append_take_drop_id)
  have "pad = []" if "16 dvd length d + 5"
  proof -
    have "pad16 (?h @ d) = ?h @ d" using that by (simp add: pad16_def Let_def dvd_eq_mod_eq_0 add.commute)
    then show ?thesis using assms buf unfolding data by simp
  qed
  moreover have "read_header buf = Inr (drop_bit 4 flag, 5)"
    unfolding buf by (simp add: read_header_def pbind_def next_byte_def skip_def preturn_def)
  ultimately show ?thesis using buf by blast
qed

definition agreed :: "crypto \<Rightarrow> bytes \<Rightarrow> bytes \<Rightarrow> bytes" where
  "agreed cr a b = (let s = projr (cr_dh_agree cr a (cr_dh_public cr b))
     in if hd s AND 0x80 \<noteq> 0 then 0 # s else s)"

lemma crypto_dh:
  assumes "crypto_ok cr"
  obtains s where "cr_dh_agree cr a (cr_dh_public cr b) = Inr s" "cr_dh_agree cr b (cr_dh_public cr a) = Inr s"
    "64 \<le> length s"
  using assms unfolding crypto_ok_def by blast

lemma agreed_sym: "crypto_ok cr \<Longrightarrow> agreed cr a b = agreed cr b a"
  by (rule crypto_dh [of cr a b]) (simp_all add: agreed_def)

lemma agreed_long: "crypto_ok cr \<Longrightarrow> 64 \<le> length (agreed cr a b)"
  by (rule crypto_dh [of cr a b]) (simp_all add: agreed_def Let_def)

lemma calculateDHSecret_agreed:
  assumes cr: "crypto_ok cr" and "es_theirDH es = cr_dh_public cr b"
  shows "calculateDHSecret cr es = Inr (es\<lparr>es_dhSecret := agreed cr (es_dhKey es) b\<rparr>)"
proof -
  obtain s where s: "cr_dh_agree cr (es_dhKey es) (cr_dh_public cr b) = Inr s" "64 \<le> length s"
    by (rule crypto_dh [OF cr])
  then have "s \<noteq> []" by auto
  with s assms(2) show ?thesis by (simp add: calculateDHSecret_def agreed_def Let_def)
qed

lemma length_endpoint_field: "Endpoint_wf ep \<Longrightarrow> length (endpoint_field ep) \<le> 19"
  using length_getRawIP [of ep] by (auto simp: endpoint_field_def)

lemma length_pk_append: "length (pk_data (append_data d (buildHeader ts ep flag))) = 5 + length d"
  by (simp add: append_data_def buildHeader_def Packet_make_def)

lemma has_at_header: "length h = 5 \<Longrightarrow> has_at (h @ d @ pad) 5 d"
  using has_at_middle [of h d pad] by simp

lemma payload_codes:
  "drop_bit 4 (push_bit 4 (payload_code SESSION_REQUEST)) = payload_code SESSION_REQUEST"
  "drop_bit 4 (push_bit 4 (payload_code SESSION_CREATED)) = payload_code SESSION_CREATED"
  "drop_bit 4 (push_bit 4 (payload_code SESSION_CONFIRMED)) = payload_code SESSION_CONFIRMED"
  by simp_all

lemma request_step:
  assumes cr: "crypto_ok cr" and idB: "RouterIdentity_wf idB" and iv: "length (rn_iv rn) = 16" and ep: "Endpoint_wf epB"
    and A: "eA = EstablishmentState_outbound cr jA dhA dsaA idA epB idB"
  shows "\<exists>q d. sendRequest cr rn eA = (eA\<lparr>es_state := REQUEST_SENT\<rparr>, [Es_send q, Es_post], None) \<and>
    open_request cr (identity_hash cr idB) q = Inr (Some (d, 5)) \<and>
    (\<forall>eB. handleSessionRequest d 5 eB = (eB\<lparr>es_theirDH := cr_dh_public cr dhA, es_myEndpoint := epB, es_relayTag := 0,
       es_state := REQUEST_RECEIVED\<rparr>, [Es_post], None))"
proof -
  let ?d = "cr_dh_public cr dhA @ endpoint_field epB"
  let ?f = "push_bit 4 (payload_code SESSION_REQUEST)"
  let ?p = "append_data ?d (buildHeader (rn_time rn) epB ?f)"
  have build: "buildSessionRequest cr (rn_time rn) eA = ?p"
    by (simp add: buildSessionRequest_def A EstablishmentState_outbound_def getMyDH_def)
  have keys: "es_sessionKey eA = identity_hash cr idB" "es_macKey eA = identity_hash cr idB"
    by (simp_all add: A EstablishmentState_outbound_def)
  have dh: "length (cr_dh_public cr dhA) = 256" using cr by (simp add: crypto_ok_def)
  have "length (pk_data ?p) < 70000"
    unfolding length_pk_append using length_endpoint_field [OF ep] dh by simp
  moreover have "length (es_macKey eA) \<le> 64" using length_identity_hash [OF cr idB] by (simp add: keys)
  ultimately obtain q where q: "es_encrypt cr (rn_iv rn) eA ?p = Inr q"
    "Packet_verify (cr_md5 cr) (identity_hash cr idB) q = Inr True"
    "Packet_decrypt (cr_aes_decrypt cr) (identity_hash cr idB) q = Inr (?p\<lparr>pk_data := pad16 (pk_data ?p)\<rparr>)"
    using es_encrypt_open [OF cr iv, of eA ?p] keys by auto
  obtain pad where buf: "pad16 (pk_data ?p) = (?f # be32 (rn_time rn)) @ ?d @ pad"
    and hdr: "read_header (pad16 (pk_data ?p)) = Inr (payload_code SESSION_REQUEST, 5)"
    using read_header_has [OF refl, of ?d "rn_time rn" epB ?f] unfolding payload_codes by blast
  have "has_at (pad16 (pk_data ?p)) 5 (cr_dh_public cr dhA @ endpoint_field epB @ pad)"
    unfolding buf using has_at_header [of "?f # be32 (rn_time rn)" "?d @ pad" "[]"] by simp
  from handleSessionRequest_has_at [OF this dh ep]
  have "\<forall>eB. handleSessionRequest (pad16 (pk_data ?p)) 5 eB = (eB\<lparr>es_theirDH := cr_dh_public cr dhA, es_myEndpoint := epB,
       es_relayTag := 0, es_state := REQUEST_RECEIVED\<rparr>, [Es_post], None)" by simp
  moreover have "open_request cr (identity_hash cr idB) q = Inr (Some (pad16 (pk_data ?p), 5))"
    using q(2,3) hdr by (simp add: open_request_def)
  moreover have "sendRequest cr rn eA = (eA\<lparr>es_state := REQUEST_SENT\<rparr>, [Es_send q, Es_post], None)"
    by (simp only: sendRequest_def build q(1) sum.case)
  ultimately show ?thesis by blast
qed

definition session_key :: "crypto \<Rightarrow> bytes \<Rightarrow> bytes \<Rightarrow> bytes" where
  "session_key cr a b = take 32 (agreed cr a b)"

definition mac_key :: "crypto \<Rightarrow> bytes \<Rightarrow> bytes \<Rightarrow> bytes" where
  "mac_key cr a b = take 32 (drop 32 (agreed cr a b))"

lemma install_agreed:
  assumes "crypto_ok cr" and "es_dhSecret es = agreed cr a b"
  shows "install_keys junk es = Inr (es\<lparr>es_sessionKey := session_key cr a b, es_macKey := mac_key cr a b\<rparr>)"
  using agreed_long [OF assms(1), of a b] assms(2)
  by (simp add: install_keys_def session_key_def mac_key_def toStaticByteArray_def)

lemma dh_key_agreed: "crypto_ok cr \<Longrightarrow> es_dhSecret es = agreed cr a b \<Longrightarrow> dh_key es = Inr (session_key cr a b)"
  using agreed_long [of cr a b] by (simp add: dh_key_def session_key_def)

definition creation_signature :: "crypto \<Rightarrow> bytes \<Rightarrow> u32 \<Rightarrow> bytes \<Rightarrow> EstablishmentState \<Rightarrow> bytes" where
  "creation_signature cr iv ts a es =
     cr_aes_encrypt cr (session_key cr (es_dhKey es) a) iv (pad16 (cr_dsa_sign cr (es_dsaKey es) (creation_hash cr ts es)))"

lemma created_step:
  assumes cr: "crypto_ok cr" and sign: "\<And>h. length (cr_dsa_sign cr (es_dsaKey eB) h) = 40"
    and iv: "length (rn_sigiv rn) = 16" and mk: "length (es_macKey eB) \<le> 64"
    and B: "es_state eB = REQUEST_RECEIVED" "es_theirDH eB = cr_dh_public cr a" "Endpoint_wf (es_theirEndpoint eB)"
    and A: "es_state eA = REQUEST_SENT" "es_direction eA = OUTBOUND" "es_macKey eA = es_macKey eB"
      "es_sessionKey eA = es_sessionKey eB"
  shows "\<exists>q. stateChanged cr rn eB = (eB\<lparr>es_dhSecret := agreed cr (es_dhKey eB) a, es_iv := rn_sigiv rn,
        es_sessionKey := session_key cr (es_dhKey eB) a, es_macKey := mac_key cr (es_dhKey eB) a, es_state := CREATED_SENT\<rparr>,
        [Es_send q, Es_post], None) \<and>
    handlePacket_establishing cr q eA = (eA\<lparr>es_iv := rn_sigiv rn, es_theirDH := cr_dh_public cr (es_dhKey eB),
        es_myEndpoint := es_theirEndpoint eB, es_relayTag := es_relayTag eB, es_signatureTimestamp := rn_time' rn,
        es_signature := creation_signature cr (rn_sigiv rn) (rn_time' rn) a eB, es_state := CREATED_RECEIVED\<rparr>,
        [Es_post], None)"
proof -
  let ?ep = "es_theirEndpoint eB" and ?rt = "es_relayTag eB" and ?ts = "rn_time' rn" and ?iv = "rn_sigiv rn"
  let ?dh = "cr_dh_public cr (es_dhKey eB)" and ?f = "push_bit 4 (payload_code SESSION_CREATED)"
  define sig where "sig = creation_signature cr ?iv ?ts a eB"
  let ?d = "?dh @ endpoint_field ?ep @ be32 ?rt @ be32 ?ts @ sig"
  let ?p = "append_data ?d (buildHeader (rn_time rn) ?ep ?f)"
  let ?e1 = "eB\<lparr>es_dhSecret := agreed cr (es_dhKey eB) a\<rparr>"
  let ?e2 = "eB\<lparr>es_dhSecret := agreed cr (es_dhKey eB) a, es_iv := ?iv\<rparr>"
  have dh: "length ?dh = 256" using cr by (simp add: crypto_ok_def)
  have sig: "length sig = 48"
    using cr sign by (simp add: sig_def creation_signature_def crypto_ok_def pad16_def)
  have build: "buildSessionCreated cr ?iv (rn_time rn) ?ts ?e1 = Inr (?p, ?e2)"
    using dh_key_agreed [OF cr, of ?e1 "es_dhKey eB" a]
    by (simp add: buildSessionCreated_def calculateCreationSignature_def creation_hash_def getMyDH_def sig_def
        creation_signature_def)
  have "length (pk_data ?p) < 70000"
    unfolding length_pk_append using length_endpoint_field [OF B(3)] dh sig by simp
  then obtain q where q: "es_encrypt cr ?iv ?e2 ?p = Inr q" "take 16 (drop 16 (pk_data q)) = ?iv"
    "Packet_verify (cr_md5 cr) (es_macKey eB) q = Inr True"
    "Packet_decrypt (cr_aes_decrypt cr) (es_sessionKey eB) q = Inr (?p\<lparr>pk_data := pad16 (pk_data ?p)\<rparr>)"
    using es_encrypt_open [OF cr iv, of ?e2 ?p] mk by auto
  obtain pad where buf: "pad16 (pk_data ?p) = (?f # be32 (rn_time rn)) @ ?d @ pad"
    and hdr: "read_header (pad16 (pk_data ?p)) = Inr (payload_code SESSION_CREATED, 5)"
    using read_header_has [OF refl, of ?d "rn_time rn" ?ep ?f] unfolding payload_codes by blast
  have at: "has_at (pad16 (pk_data ?p)) 5 (?dh @ endpoint_field ?ep @ be32 ?rt @ be32 ?ts @ sig @ pad)"
    unfolding buf using has_at_header [of "?f # be32 (rn_time rn)" "?d @ pad" "[]"] by simp
  have "stateChanged cr rn eB = (eB\<lparr>es_dhSecret := agreed cr (es_dhKey eB) a, es_iv := ?iv,
        es_sessionKey := session_key cr (es_dhKey eB) a, es_macKey := mac_key cr (es_dhKey eB) a, es_state := CREATED_SENT\<rparr>,
        [Es_send q, Es_post], None)"
    using build q(1) install_agreed [OF cr, of ?e2 "es_dhKey eB" a "rn_junk rn"]
    by (simp add: stateChanged_def B(1) processRequest_def calculateDHSecret_agreed [OF cr B(2)])
  moreover have "handlePacket_establishing cr q eA = (eA\<lparr>es_iv := ?iv, es_theirDH := ?dh,
        es_myEndpoint := ?ep, es_relayTag := ?rt, es_signatureTimestamp := ?ts,
        es_signature := sig, es_state := CREATED_RECEIVED\<rparr>, [Es_post], None)"
    using q(2-4) hdr handleSessionCreated_has_at [OF _ at dh B(3) sig, of "eA\<lparr>es_iv := ?iv\<rparr>"]
    by (simp add: handlePacket_establishing_def A)
  ultimately show ?thesis unfolding sig_def by blast
qed

lemma session_key_sym: "crypto_ok cr \<Longrightarrow> session_key cr a b = session_key cr b a" "crypto_ok cr \<Longrightarrow> mac_key cr a b = mac_key cr b a"
  using agreed_sym [of cr a b] by (simp_all add: session_key_def mac_key_def)

lemma length_mac_key: "length (mac_key cr a b) \<le> 64"
  by (simp add: mac_key_def)

lemma verify_creation:
  assumes cr: "crypto_ok cr" and "es_dhSecret es = agreed cr a b" and "length (es_iv es) = 16"
    and "es_signature es = cr_aes_encrypt cr (session_key cr a b) (es_iv es) (pad16 s)" and "length s = 40"
    and "es_theirIdentity es = Some i"
    and "cr_dsa_verify cr (rid_signingKey i) (confirmation_hash cr (es_signatureTimestamp es) es) s"
  shows "verifyCreationSignature cr es = Inr True"
proof -
  have pad: "pad16 s = s @ replicate 8 8" using assms(5) by (simp add: pad16_def)
  have "cr_aes_decrypt cr (session_key cr a b) (es_iv es) (es_signature es) = pad16 s"
    using cr assms(3,4) length_pad16 [of s] by (simp add: crypto_ok_def)
  then show ?thesis
    using assms(5-7) dh_key_agreed [OF cr assms(2)] by (simp add: verifyCreationSignature_def pad Let_def)
qed

definition peer_of :: "crypto \<Rightarrow> bytes \<Rightarrow> Endpoint \<Rightarrow> RouterIdentity \<Rightarrow> bytes \<Rightarrow> bytes \<Rightarrow> PeerState" where
  "peer_of cr junk ep i sk mk = PeerState_setCurrentMacKey mk (PeerState_setCurrentSessionKey sk
     (PeerState_make junk ep (identity_hash cr i)))"

lemma confirmed_step:
  assumes cr: "crypto_ok cr" and me: "router_ok cr (es_dsaKey eA) (es_myIdentity eA)" and iv: "length (rn_iv rn) = 16"
    and A: "es_state eA = CREATED_RECEIVED" "es_theirDH eA = cr_dh_public cr b" "es_theirIdentity eA = Some iB"
    and ok: "verifyCreationSignature cr (eA\<lparr>es_dhSecret := agreed cr (es_dhKey eA) b\<rparr>) = Inr True"
    and B: "es_state eB = CREATED_SENT" "es_direction eB = INBOUND" "es_macKey eB = mac_key cr (es_dhKey eA) b"
      "es_sessionKey eB = session_key cr (es_dhKey eA) b"
  shows "\<exists>q. stateChanged cr rn eA = (eA\<lparr>es_dhSecret := agreed cr (es_dhKey eA) b,
        es_sessionKey := session_key cr (es_dhKey eA) b, es_macKey := mac_key cr (es_dhKey eA) b, es_state := CONFIRMED_SENT\<rparr>,
        [Es_add_peer (peer_of cr (rn_junk rn) (es_theirEndpoint eA) iB (session_key cr (es_dhKey eA) b) (mac_key cr (es_dhKey eA) b)),
         Es_send q, Es_post], None) \<and>
    handlePacket_establishing cr q eB = (eB\<lparr>es_theirIdentity := Some (es_myIdentity eA), es_signatureTimestamp := rn_time' rn,
        es_signature := cr_dsa_sign cr (es_dsaKey eA) (confirmation_hash cr (rn_time' rn) eA),
        es_state := CONFIRMED_RECEIVED\<rparr>, [Es_post], None)"
proof -
  let ?sk = "session_key cr (es_dhKey eA) b" and ?mk = "mac_key cr (es_dhKey eA) b" and ?ts = "rn_time' rn"
  let ?e = "eA\<lparr>es_dhSecret := agreed cr (es_dhKey eA) b, es_sessionKey := ?sk, es_macKey := ?mk\<rparr>"
  let ?i = "es_myIdentity eA" and ?f = "push_bit 4 (payload_code SESSION_CONFIRMED)"
  let ?idb = "RouterIdentity_serialize ?i"
  define sig where "sig = cr_dsa_sign cr (es_dsaKey eA) (confirmation_hash cr ?ts eA)"
  have sig: "length sig = 40" using me by (simp add: sig_def router_ok_def)
  let ?d = "[1] @ be16 (of_nat (length ?idb)) @ ?idb @ be32 ?ts @ replicate 9 0 @ sig"
  let ?p = "append_data ?d (buildHeader (rn_time rn) (es_theirEndpoint eA) ?f)"
  have build: "buildSessionConfirmed cr (rn_time rn) ?ts ?e = ?p"
    by (simp add: buildSessionConfirmed_def calculateConfirmationSignature_def confirmation_hash_def getMyDH_def sig_def Let_def)
  have id: "RouterIdentity_wf ?i" "length ?idb mod 16 = 3" "length ?idb < 65536" using me by (simp_all add: router_ok_def)
  have len: "length ?d = 56 + length ?idb" using sig by simp
  have small: "length (pk_data ?p) < 70000"
    unfolding length_pk_append len using id(3) by simp
  obtain q where q: "es_encrypt cr (rn_iv rn) ?e ?p = Inr q" "Packet_verify (cr_md5 cr) ?mk q = Inr True"
    "Packet_decrypt (cr_aes_decrypt cr) ?sk q = Inr (?p\<lparr>pk_data := pad16 (pk_data ?p)\<rparr>)"
    using es_encrypt_open [OF cr iv _ small, of ?e] length_mac_key [of cr "es_dhKey eA" b] by auto
  have "16 dvd length ?d + 5" unfolding len using id(2) by presburger
  then have buf: "pad16 (pk_data ?p) = (?f # be32 (rn_time rn)) @ ?d"
    and hdr: "read_header (pad16 (pk_data ?p)) = Inr (payload_code SESSION_CONFIRMED, 5)"
    using read_header_has [OF refl, of ?d "rn_time rn" "es_theirEndpoint eA" ?f] unfolding payload_codes by auto
  have "stateChanged cr rn eA = (?e\<lparr>es_state := CONFIRMED_SENT\<rparr>,
        [Es_add_peer (peer_of cr (rn_junk rn) (es_theirEndpoint eA) iB ?sk ?mk), Es_send q, Es_post], None)"
    using ok build q(1) install_agreed [OF cr, of "eA\<lparr>es_dhSecret := agreed cr (es_dhKey eA) b\<rparr>" "es_dhKey eA" b "rn_junk rn"] A(3)
    by (simp add: stateChanged_def A(1) processCreated_def calculateDHSecret_agreed [OF cr A(2)] established_peer_def peer_of_def)
  moreover have "handlePacket_establishing cr q eB = (eB\<lparr>es_theirIdentity := Some ?i, es_signatureTimestamp := ?ts,
        es_signature := sig, es_state := CONFIRMED_RECEIVED\<rparr>, [Es_post], None)"
    using q(2,3) hdr handleSessionConfirmed_has_at [OF B(1) id(1) buf _ sig]
    by (simp add: handlePacket_establishing_def B)
  ultimately show ?thesis unfolding sig_def by auto
qed

lemma peer_of_simps [simp]:
  "ps_sessionKey (peer_of cr junk ep i sk mk) = sk" "ps_macKey (peer_of cr junk ep i sk mk) = mk"
  "ps_endpoint (peer_of cr junk ep i sk mk) = ep" "ps_routerHash (peer_of cr junk ep i sk mk) = identity_hash cr i"
  by (simp_all add: peer_of_def PeerState_make_def PeerState_setCurrentMacKey_def PeerState_setCurrentSessionKey_def)

text \<open>Two states that see the same exchange from its two ends, and sign and verify the same bytes.\<close>

definition mirrored :: "crypto \<Rightarrow> EstablishmentState \<Rightarrow> EstablishmentState \<Rightarrow> bool" where
  "mirrored cr eA eB \<longleftrightarrow>
     es_theirDH eA = getMyDH cr eB \<and> es_theirDH eB = getMyDH cr eA \<and>
     es_theirEndpoint eA = es_myEndpoint eB \<and> es_theirEndpoint eB = es_myEndpoint eA \<and>
     es_relayTag eA = es_relayTag eB"

lemma mirrored_hash: "mirrored cr eA eB \<Longrightarrow> confirmation_hash cr ts eA = creation_hash cr ts eB"
  by (simp add: mirrored_def confirmation_hash_def creation_hash_def)

lemma verify_answer:
  assumes cr: "crypto_ok cr" and idB: "router_ok cr (es_dsaKey eB) iB" and mir: "mirrored cr eA eB"
    and A: "es_theirIdentity eA = Some iB" "length (es_iv eA) = 16"
      "es_signature eA = creation_signature cr (es_iv eA) (es_signatureTimestamp eA) (es_dhKey eA) eB"
  shows "verifyCreationSignature cr (eA\<lparr>es_dhSecret := agreed cr (es_dhKey eA) (es_dhKey eB)\<rparr>) = Inr True"
proof -
  let ?v = "eA\<lparr>es_dhSecret := agreed cr (es_dhKey eA) (es_dhKey eB)\<rparr>" and ?ts = "es_signatureTimestamp eA"
  let ?s = "cr_dsa_sign cr (es_dsaKey eB) (creation_hash cr ?ts eB)"
  have "mirrored cr ?v eB" using mir by (simp add: mirrored_def getMyDH_def)
  then have "confirmation_hash cr ?ts ?v = creation_hash cr ?ts eB" by (rule mirrored_hash)
  then have "cr_dsa_verify cr (rid_signingKey iB) (confirmation_hash cr (es_signatureTimestamp ?v) ?v) ?s"
    using idB by (simp add: router_ok_def)
  moreover have "es_signature ?v = cr_aes_encrypt cr (session_key cr (es_dhKey eA) (es_dhKey eB)) (es_iv ?v) (pad16 ?s)"
    using A(3) session_key_sym(1) [OF cr, of "es_dhKey eA" "es_dhKey eB"] by (simp add: creation_signature_def)
  moreover have "length ?s = 40" using idB by (simp add: router_ok_def)
  ultimately show ?thesis
    using verify_creation [OF cr, of ?v "es_dhKey eA" "es_dhKey eB" ?s iB] A(1,2) by simp
qed

text \<open>The last step of the responder.\<close>

lemma finished_step:
  assumes "es_state es = CONFIRMED_RECEIVED" and "es_theirIdentity es = Some i"
    and "cr_dsa_verify cr (rid_signingKey i) (creation_hash cr (es_signatureTimestamp es) es) (es_signature es)"
  shows "stateChanged cr rn es = (es, [Es_add_peer (peer_of cr (rn_junk rn) (es_theirEndpoint es) i (es_sessionKey es) (es_macKey es)),
     Es_del_state (es_theirEndpoint es), Es_established (identity_hash cr i) (es_direction es = INBOUND)], None)"
  using assms
  by (simp add: stateChanged_def processConfirmed_def verifyConfirmationSignature_def established_peer_def)
    (simp add: peer_of_def PeerState_make_def PeerState_setCurrentMacKey_def PeerState_setCurrentSessionKey_def)

text \<open>The whole exchange between two routers that run this code: every packet one side seals is accepted by
  the other, both signatures verify, and the sides register each other with the same keys.\<close>

lemma handshake_run:
  assumes cr: "crypto_ok cr" and idA: "router_ok cr dsaA idA" and idB: "router_ok cr dsaB idB"
    and epA: "Endpoint_wf epA" and epB: "Endpoint_wf epB"
    and rn: "length (rn_iv r1) = 16" "length (rn_sigiv r2) = 16" "length (rn_iv r3) = 16"
    and A: "eA = EstablishmentState_outbound cr jA dhA dsaA idA epB idB"
    and B: "eB = EstablishmentState_inbound cr jB dhB dsaB idB epA"
  shows "\<exists>eA1 q1 d1 p1 eB1 eB2 q2 eA2 eA3 psA q3 eB3 psB.
    sendRequest cr r1 eA = (eA1, [Es_send q1, Es_post], None) \<and>
    open_request cr (identity_hash cr idB) q1 = Inr (Some (d1, p1)) \<and>
    handleSessionRequest d1 p1 eB = (eB1, [Es_post], None) \<and>
    stateChanged cr r2 eB1 = (eB2, [Es_send q2, Es_post], None) \<and>
    handlePacket_establishing cr q2 eA1 = (eA2, [Es_post], None) \<and>
    stateChanged cr r3 eA2 = (eA3, [Es_add_peer psA, Es_send q3, Es_post], None) \<and>
    stateChanged cr r5 eA3 = (eA3, [Es_established (identity_hash cr idB) False, Es_del_state epB], None) \<and>
    handlePacket_establishing cr q3 eB2 = (eB3, [Es_post], None) \<and>
    stateChanged cr r4 eB3 = (eB3, [Es_add_peer psB, Es_del_state epA, Es_established (identity_hash cr idA) True], None) \<and>
    ps_sessionKey psA = ps_sessionKey psB \<and> ps_macKey psA = ps_macKey psB \<and>
    ps_routerHash psA = identity_hash cr idB \<and> ps_endpoint psA = epB \<and>
    ps_routerHash psB = identity_hash cr idA \<and> ps_endpoint psB = epA"
proof -
  have wf: "RouterIdentity_wf idA" "RouterIdentity_wf idB" using idA idB by (auto simp: router_ok_def)
  define eA1 where "eA1 = eA\<lparr>es_state := REQUEST_SENT\<rparr>"
  define eB1 where "eB1 = eB\<lparr>es_theirDH := cr_dh_public cr dhA, es_myEndpoint := epB, es_relayTag := 0,
    es_state := REQUEST_RECEIVED\<rparr>"
  define eB2 where "eB2 = eB1\<lparr>es_dhSecret := agreed cr dhB dhA, es_iv := rn_sigiv r2,
    es_sessionKey := session_key cr dhB dhA, es_macKey := mac_key cr dhB dhA, es_state := CREATED_SENT\<rparr>"
  define sig where "sig = creation_signature cr (rn_sigiv r2) (rn_time' r2) dhA eB1"
  define eA2 where "eA2 = eA1\<lparr>es_iv := rn_sigiv r2, es_theirDH := cr_dh_public cr dhB, es_myEndpoint := epA,
    es_relayTag := 0, es_signatureTimestamp := rn_time' r2, es_signature := sig, es_state := CREATED_RECEIVED\<rparr>"
  define eA3 where "eA3 = eA2\<lparr>es_dhSecret := agreed cr dhA dhB, es_sessionKey := session_key cr dhA dhB,
    es_macKey := mac_key cr dhA dhB, es_state := CONFIRMED_SENT\<rparr>"
  define eB3 where "eB3 = eB2\<lparr>es_theirIdentity := Some idA, es_signatureTimestamp := rn_time' r3,
    es_signature := cr_dsa_sign cr dsaA (confirmation_hash cr (rn_time' r3) eA2), es_state := CONFIRMED_RECEIVED\<rparr>"
  let ?psA = "peer_of cr (rn_junk r3) epB idB (session_key cr dhA dhB) (mac_key cr dhA dhB)"
  let ?psB = "peer_of cr (rn_junk r4) epA idA (session_key cr dhB dhA) (mac_key cr dhB dhA)"
  note defs = A B EstablishmentState_outbound_def EstablishmentState_inbound_def eA1_def eB1_def eB2_def eA2_def eA3_def eB3_def
  obtain q1 d1 where 1: "sendRequest cr r1 eA = (eA1, [Es_send q1, Es_post], None)"
    "open_request cr (identity_hash cr idB) q1 = Inr (Some (d1, 5))"
    "handleSessionRequest d1 5 eB = (eB1, [Es_post], None)"
    using request_step [OF cr wf(2) rn(1) epB A] unfolding eA1_def eB1_def by blast
  have "length (es_macKey eB1) \<le> 64" using length_identity_hash [OF cr wf(2)] by (simp add: defs)
  moreover have "length (cr_dsa_sign cr (es_dsaKey eB1) h) = 40" for h using idB by (simp add: router_ok_def defs)
  ultimately obtain q2 where 2: "stateChanged cr r2 eB1 = (eB2, [Es_send q2, Es_post], None)"
    "handlePacket_establishing cr q2 eA1 = (eA2, [Es_post], None)"
    using created_step [OF cr _ rn(2), of eB1 dhA eA1] epA by (auto simp: sig_def defs)
  have "mirrored cr eA2 eB1" and mir: "mirrored cr eA2 eB3" by (simp_all add: mirrored_def getMyDH_def defs)
  then have "verifyCreationSignature cr (eA2\<lparr>es_dhSecret := agreed cr (es_dhKey eA2) (es_dhKey eB1)\<rparr>) = Inr True"
    by (intro verify_answer [OF cr, where iB = idB])
      (use idB rn(2) in \<open>simp_all add: eA2_def sig_def\<close>, simp_all add: defs)
  then obtain q3 where 3: "stateChanged cr r3 eA2 = (eA3, [Es_add_peer ?psA, Es_send q3, Es_post], None)"
    "handlePacket_establishing cr q3 eB2 = (eB3, [Es_post], None)"
    using confirmed_step [OF cr _ rn(3), of eA2 dhB idB eB2] idA session_key_sym [OF cr, of dhB dhA] by (auto simp: defs)
  have "es_signatureTimestamp eB3 = rn_time' r3"
    and "es_signature eB3 = cr_dsa_sign cr dsaA (confirmation_hash cr (rn_time' r3) eA2)" by (simp_all add: eB3_def)
  then have "cr_dsa_verify cr (rid_signingKey idA) (creation_hash cr (es_signatureTimestamp eB3) eB3) (es_signature eB3)"
    using idA by (simp only: mirrored_hash [OF mir] router_ok_def)
  then have "stateChanged cr r4 eB3 = (eB3, [Es_add_peer ?psB, Es_del_state epA, Es_established (identity_hash cr idA) True], None)"
    using finished_step [of eB3 idA cr r4] by (simp add: defs)
  moreover have "stateChanged cr r5 eA3 = (eA3, [Es_established (identity_hash cr idB) False, Es_del_state epB], None)"
    by (simp add: stateChanged_def defs)
  ultimately show ?thesis
    using 1 2 3 session_key_sym [OF cr, of dhA dhB] by (intro exI conjI) (assumption | simp only: peer_of_simps)+
qed

definition toy_crypto :: crypto where
  "toy_crypto = \<lparr>cr_aes_encrypt = (\<lambda>k iv. rev), cr_aes_decrypt = (\<lambda>k iv. rev), cr_md5 = toy_md5,
     cr_sha1 = take 20, cr_sha256 = (\<lambda>x. take 32 (x @ replicate 32 0)),
     cr_dh_public = (\<lambda>k. take 256 (k @ replicate 256 0)), cr_dh_agree = (\<lambda>a b. Inr (replicate 64 1)),
     cr_dsa_sign = (\<lambda>k h. take 40 (h @ replicate 40 0)),
     cr_dsa_verify = (\<lambda>pub h s. s = take 40 (h @ replicate 40 0))\<rparr>"

definition toy_identity :: "byte \<Rightarrow> RouterIdentity" where
  "toy_identity b = \<lparr>rid_encryptionKey = replicate 256 b, rid_signingKey = replicate 128 b,
     rid_certificate = Certificate_default, rid_hash = None\<rparr>"

definition toy_randomness :: randomness where
  "toy_randomness = \<lparr>rn_iv = replicate 16 3, rn_sigiv = replicate 16 4, rn_time = 5, rn_time' = 6, rn_junk = []\<rparr>"

lemma toy_crypto_ok: "crypto_ok toy_crypto"
  by (auto simp: crypto_ok_def toy_crypto_def min_def)

lemma toy_router_ok: "router_ok toy_crypto k (toy_identity b)"
  by (auto simp: router_ok_def RouterIdentity_wf_def toy_crypto_def toy_identity_def Certificate_default_def
      Certificate_wf_def RouterIdentity_serialize_def Certificate_serialize_def min_def)

lemma toy_endpoint_ok: "Endpoint_wf sample_endpoint"
  by (simp add: Endpoint_wf_def sample_endpoint_def Endpoint_of_bytes_def)

lemma toy_randomness_ok: "length (rn_iv toy_randomness) = 16" "length (rn_sigiv toy_randomness) = 16"
  by (simp_all add: toy_randomness_def)

end
