(* ===== verification/SSU_Context.thy ===== *)
theory SSU_Context
  imports SSU_Acks SSU_Establishment
begin

text \<open>
  The SSU transport as a whole: \<open>SSU::Context\<close> with the peer list, the message tables and the
  establishment states, the dispatch of \<open>PacketHandler::packetReceived\<close>, the tables of
  \<open>EstablishmentManager\<close> and the public operations of \<open>SSU\<close>. An \<open>EstablishmentStatePtr\<close> is an index
  into \<open>cx_states\<close>, which only grows: handlers that are still queued keep the state they hold alive. The
  handlers run one at a time on the service thread; what they queue is in their output.
\<close>

record Context =
  cx_accepting :: bool
  cx_peers :: PeerStateList
  cx_tables :: MessageTables
  cx_inboundKey :: bytes
  cx_privKey :: bytes
  cx_identity :: RouterIdentity
  cx_states :: "EstablishmentState list"
  cx_stateTable :: "Endpoint \<rightharpoonup> nat"
  cx_stateTimers :: "Endpoint \<rightharpoonup> nat option"

datatype cx_out =
    Cx_send Packet
  | Cx_data ssu_out
  | Cx_packet Packet
  | Cx_listen
  | Cx_post nat
  | Cx_wait nat
  | Cx_cancel nat
  | Cx_arm_peer bytes
  | Cx_established bytes bool
  | Cx_failure bytes
  | Cx_disconnected bytes
  | Cx_stop

type_synonym cx_result = "Context \<times> cx_out list \<times> cpp_error option"

text \<open>What one handler run takes from outside: the clock of the timers, the generator, and the contents of
  uninitialized members.\<close>

record entropy =
  en_now :: nat
  en_rn :: randomness
  en_dhKey :: bytes
  en_junk32 :: u32
  en_junk8 :: byte

definition Context_make :: "crypto \<Rightarrow> bytes \<Rightarrow> RouterIdentity \<Rightarrow> Context" where
  "Context_make cr privKey ri =
     \<lparr>cx_accepting = True, cx_peers = [], cx_tables = \<lparr>mt_omf = [], mt_imf = []\<rparr>,
      cx_inboundKey = identity_hash cr ri, cx_privKey = privKey, cx_identity = ri,
      cx_states = [], cx_stateTable = Map.empty, cx_stateTimers = Map.empty\<rparr>"

subsection \<open>The tables of the establishment manager\<close>

text \<open>\<open>m_stateTimers[ep]\<close> in the condition makes a null entry when there is none.\<close>

definition em_delState :: "Endpoint \<Rightarrow> Context \<Rightarrow> Context \<times> cx_out list" where
  "em_delState ep cx =
     (case cx_stateTimers cx ep of
        Some (Some i) \<Rightarrow>
          (cx\<lparr>cx_stateTimers := (cx_stateTimers cx)(ep := None), cx_stateTable := (cx_stateTable cx)(ep := None)\<rparr>,
           [Cx_cancel i])
      | _ \<Rightarrow>
          (cx\<lparr>cx_stateTimers := (cx_stateTimers cx)(ep \<mapsto> None), cx_stateTable := (cx_stateTable cx)(ep := None)\<rparr>, []))"

definition em_stateExists :: "Endpoint \<Rightarrow> Context \<Rightarrow> bool" where
  "em_stateExists ep cx \<longleftrightarrow> cx_stateTable cx ep \<noteq> None"

definition em_getState :: "Endpoint \<Rightarrow> Context \<Rightarrow> nat option" where
  "em_getState ep cx = cx_stateTable cx ep"

text \<open>What one step of an establishment does to the rest of the transport.\<close>

fun apply_effect :: "nat \<Rightarrow> nat \<Rightarrow> es_effect \<Rightarrow> Context \<Rightarrow> Context \<times> cx_out list" where
  "apply_effect now i (Es_send q) cx = (cx, [Cx_send q])"
| "apply_effect now i Es_post cx = (cx, [Cx_post i])"
| "apply_effect now i (Es_add_peer ps) cx =
     (cx\<lparr>cx_peers := PeerStateList_addPeer now ps (cx_peers cx)\<rparr>, [Cx_arm_peer (ps_routerHash ps)])"
| "apply_effect now i (Es_del_state ep) cx = em_delState ep cx"
| "apply_effect now i (Es_established rh inbound) cx = (cx, [Cx_established rh inbound])"
| "apply_effect now i (Es_failure rh) cx = (cx, [Cx_failure rh])"

fun apply_effects :: "nat \<Rightarrow> nat \<Rightarrow> es_effect list \<Rightarrow> Context \<Rightarrow> Context \<times> cx_out list" where
  "apply_effects now i [] cx = (cx, [])"
| "apply_effects now i (e # es) cx =
     (let (cx, out) = apply_effect now i e cx; (cx, out') = apply_effects now i es cx in (cx, out @ out'))"

definition on_state :: "nat \<Rightarrow> nat \<Rightarrow> (EstablishmentState \<Rightarrow> es_result) \<Rightarrow> Context \<Rightarrow> cx_result" where
  "on_state now i f cx =
     (if i < length (cx_states cx)
      then (let (es, effs, err) = f (cx_states cx ! i);
                (cx, out) = apply_effects now i effs (cx\<lparr>cx_states := (cx_states cx)[i := es]\<rparr>)
            in (cx, out, err))
      else (cx, [], Some Null_dereference))"

text \<open>Assigning \<open>m_stateTimers[ep]\<close> destroys, and so cancels, a timer that is there.\<close>

definition em_setTimer :: "Endpoint \<Rightarrow> nat \<Rightarrow> Context \<Rightarrow> Context \<times> cx_out list" where
  "em_setTimer ep i cx =
     (cx\<lparr>cx_stateTimers := (cx_stateTimers cx)(ep \<mapsto> Some i)\<rparr>,
      (case cx_stateTimers cx ep of Some (Some j) \<Rightarrow> [Cx_cancel j] | _ \<Rightarrow> []) @ [Cx_wait i])"

definition em_addState :: "Endpoint \<Rightarrow> EstablishmentState \<Rightarrow> Context \<Rightarrow> Context" where
  "em_addState ep es cx =
     cx\<lparr>cx_states := cx_states cx @ [es], cx_stateTable := (cx_stateTable cx)(ep \<mapsto> length (cx_states cx))\<rparr>"

definition em_createState_inbound :: "crypto \<Rightarrow> entropy \<Rightarrow> Endpoint \<Rightarrow> Context \<Rightarrow> Context \<times> cx_out list \<times> nat" where
  "em_createState_inbound cr en ep cx =
     (let i = length (cx_states cx);
          es = EstablishmentState_inbound cr (en_junk32 en) (en_dhKey en) (cx_privKey cx) (cx_identity cx) ep;
          (cx, out) = em_setTimer ep i (em_addState ep es cx)
      in (cx, out, i))"

definition em_createState_outbound :: "crypto \<Rightarrow> entropy \<Rightarrow> Endpoint \<Rightarrow> RouterIdentity \<Rightarrow> Context \<Rightarrow> cx_result" where
  "em_createState_outbound cr en ep ri cx =
     (let i = length (cx_states cx);
          es = EstablishmentState_outbound cr (en_junk32 en) (en_dhKey en) (cx_privKey cx) (cx_identity cx) ep ri
      in case on_state (en_now en) i (sendRequest cr (en_rn en)) (em_addState ep es cx) of
           (cx, out, Some err) \<Rightarrow> (cx, out, Some err)
         | (cx, out, None) \<Rightarrow> (let (cx, out') = em_setTimer ep i cx in (cx, out @ out', None)))"

definition em_stateChanged :: "crypto \<Rightarrow> entropy \<Rightarrow> nat \<Rightarrow> Context \<Rightarrow> cx_result" where
  "em_stateChanged cr en i = on_state (en_now en) i (stateChanged cr (en_rn en))"

definition em_timeoutCallback :: "entropy \<Rightarrow> bool \<Rightarrow> nat \<Rightarrow> Context \<Rightarrow> cx_result" where
  "em_timeoutCallback en e i = on_state (en_now en) i (timeoutCallback e)"

subsection \<open>Incoming packets\<close>

text \<open>\<open>receiveBuf\<close> holds 2048 bytes, of which the socket filled the first \<open>n\<close>.\<close>

definition Context_dataReceived :: "bool \<Rightarrow> Endpoint \<Rightarrow> bytes \<Rightarrow> nat \<Rightarrow> cx_out list" where
  "Context_dataReceived e senderEndpoint receiveBuf n =
     (if \<not> e \<and> n > 0
      then (if 48 \<le> n then [Cx_packet (Packet_make senderEndpoint (take n receiveBuf))] else []) @ [Cx_listen]
      else [])"

definition handlePacket_peer :: "crypto \<Rightarrow> entropy \<Rightarrow> Packet \<Rightarrow> PeerState \<Rightarrow> Context \<Rightarrow> cx_result" where
  "handlePacket_peer cr en packet ps cx =
     (case Packet_verify (cr_md5 cr) (ps_macKey ps) packet of
        Inl err \<Rightarrow> (cx, [], Some err)
      | Inr False \<Rightarrow> (cx, [], None)
      | Inr True \<Rightarrow>
          (case PeerStateList_resetPeerTimer (ps_routerHash ps) (cx_peers cx) of
             Inl err \<Rightarrow> (cx, [], Some err)
           | Inr peers \<Rightarrow>
               (let cx = cx\<lparr>cx_peers := peers\<rparr>; out = [Cx_arm_peer (ps_routerHash ps)] in
                case Packet_decrypt (cr_aes_decrypt cr) (ps_sessionKey ps) packet of
                  Inl err \<Rightarrow> (cx, out, Some err)
                | Inr p \<Rightarrow>
                    (case read_header (pk_data p) of
                       Inl err \<Rightarrow> (cx, out, Some err)
                     | Inr (ptype, pos) \<Rightarrow>
                         if ptype = payload_code DATA
                         then (let (t, out', r) = receiveData (en_junk8 en) (ps_routerHash ps) (pk_data p) pos (cx_tables cx)
                               in (cx\<lparr>cx_tables := t\<rparr>, out @ map Cx_data out',
                                   case r of Inl err \<Rightarrow> Some err | Inr _ \<Rightarrow> None))
                         else if ptype = payload_code SESSION_DESTROY
                         then (cx\<lparr>cx_peers := PeerStateList_delPeer (ps_endpoint ps) (cx_peers cx)\<rparr>,
                               out @ [Cx_disconnected (ps_routerHash ps)], None)
                         else (cx, out, None)))))"

definition handlePacket_new :: "crypto \<Rightarrow> entropy \<Rightarrow> Packet \<Rightarrow> Context \<Rightarrow> cx_result" where
  "handlePacket_new cr en p cx =
     (case open_request cr (cx_inboundKey cx) p of
        Inl err \<Rightarrow> (cx, [], Some err)
      | Inr None \<Rightarrow> (cx, [], None)
      | Inr (Some (data, pos)) \<Rightarrow>
          (let (cx, out, i) = em_createState_inbound cr en (pk_endpoint p) cx;
               (cx, out', err) = on_state (en_now en) i (handleSessionRequest data pos) cx
           in (cx, out @ out', err)))"

definition packetReceived :: "crypto \<Rightarrow> entropy \<Rightarrow> Packet \<Rightarrow> Context \<Rightarrow> cx_result" where
  "packetReceived cr en p cx =
     (let ep = pk_endpoint p in
      if PeerStateList_peerExists ep (cx_peers cx)
      then case PeerStateList_getPeer ep (cx_peers cx) of
             Inl err \<Rightarrow> (cx, [], Some err)
           | Inr ps \<Rightarrow> handlePacket_peer cr en p ps cx
      else if cx_accepting cx
      then case em_getState ep cx of
             Some i \<Rightarrow> on_state (en_now en) i (handlePacket_establishing cr p) cx
           | None \<Rightarrow> handlePacket_new cr en p cx
      else (cx, [], None))"

subsection \<open>The operations of the transport\<close>

text \<open>\<open>std::stoi\<close>: white space, a sign, and at least one digit; what follows the digits is ignored.\<close>

definition is_space :: "byte \<Rightarrow> bool" where
  "is_space c \<longleftrightarrow> c = 32 \<or> (9 \<le> c \<and> c \<le> 13)"

definition is_digit :: "byte \<Rightarrow> bool" where
  "is_digit c \<longleftrightarrow> 48 \<le> c \<and> c \<le> 57"

definition stoi :: "bytes \<Rightarrow> int result" where
  "stoi s =
     (let s = dropWhile is_space s;
          neg = (s \<noteq> [] \<and> hd s = 45);
          s = (if s \<noteq> [] \<and> (hd s = 45 \<or> hd s = 43) then tl s else s);
          digits = takeWhile is_digit s;
          v = fold (\<lambda>c v. 10 * v + (int (unat c) - 48)) digits 0;
          v = (if neg then - v else v)
      in if digits = [] then Inl (Invalid_argument ''stoi'')
         else if v < - (2 ^ 31) \<or> 2 ^ 31 \<le> v then Inl Out_of_range else Inr v)"

definition SSU_name :: bytes where "SSU_name = [0x53, 0x53, 0x55]"
definition host_name :: bytes where "host_name = [0x68, 0x6F, 0x73, 0x74]"
definition port_name :: bytes where "port_name = [0x70, 0x6F, 0x72, 0x74]"

text \<open>\<open>from_string\<close> is \<open>boost::asio::ip::address::from_string\<close>. An exception ends the loop and is logged.\<close>

fun connect_loop ::
  "(bytes \<Rightarrow> address result) \<Rightarrow> crypto \<Rightarrow> entropy \<Rightarrow> RouterIdentity \<Rightarrow> RouterAddress list \<Rightarrow> Context \<Rightarrow> Context \<times> cx_out list" where
  "connect_loop from_string cr en ident [] cx = (cx, [])"
| "connect_loop from_string cr en ident (a # as) cx =
     (if ra_transport a = SSU_name \<and> Mapping_getValue (ra_options a) host_name \<noteq> [] \<and>
         Mapping_getValue (ra_options a) port_name \<noteq> []
      then case ebind (stoi (Mapping_getValue (ra_options a) port_name)) (\<lambda>port.
                ebind (from_string (Mapping_getValue (ra_options a) host_name)) (\<lambda>addr.
                Inr \<lparr>ep_addr = addr, ep_port = of_int port\<rparr>)) of
             Inl err \<Rightarrow> (cx, [])
           | Inr ep \<Rightarrow>
               if em_stateExists ep cx \<or> PeerStateList_peerExists ep (cx_peers cx) then (cx, [])
               else (let (cx, out, err) = em_createState_outbound cr en ep ident cx in (cx, out))
      else connect_loop from_string cr en ident as cx)"

definition SSU_connect ::
  "(bytes \<Rightarrow> address result) \<Rightarrow> crypto \<Rightarrow> entropy \<Rightarrow> RouterInfo \<Rightarrow> Context \<Rightarrow> Context \<times> cx_out list" where
  "SSU_connect from_string cr en ri cx = connect_loop from_string cr en (ri_identity ri) (ri_addresses ri) cx"

definition SSU_send :: "bytes \<Rightarrow> u32 \<Rightarrow> bytes \<Rightarrow> Context \<Rightarrow> cx_result" where
  "SSU_send rh msgId data cx =
     (if PeerStateList_peerExists_hash rh (cx_peers cx)
      then case PeerStateList_getPeer_hash rh (cx_peers cx) of
             Inl err \<Rightarrow> (cx, [], Some err)
           | Inr ps \<Rightarrow> (let (t, out) = omf_sendData ps msgId data (cx_tables cx)
                        in (cx\<lparr>cx_tables := t\<rparr>, map Cx_data out, None))
      else (cx, [], None))"

definition destroy_packet :: "ssu_env \<Rightarrow> nat \<Rightarrow> PeerState \<Rightarrow> Packet result" where
  "destroy_packet env k ps = seal env k ps (buildSessionDestroyed (se_time env) (ps_endpoint ps))"

definition SSU_disconnect :: "ssu_env \<Rightarrow> bytes \<Rightarrow> Context \<Rightarrow> cx_result" where
  "SSU_disconnect env rh cx =
     (if PeerStateList_peerExists_hash rh (cx_peers cx)
      then case PeerStateList_getPeer_hash rh (cx_peers cx) of
             Inl err \<Rightarrow> (cx, [], Some err)
           | Inr ps \<Rightarrow>
               (case destroy_packet env 0 ps of
                  Inl err \<Rightarrow> (cx, [], Some err)
                | Inr q \<Rightarrow>
                    (cx\<lparr>cx_peers := PeerStateList_delPeer_hash rh (cx_peers cx)\<rparr>, [Cx_send q], None))
      else (cx, [], None))"

definition SSU_numPeers :: "Context \<Rightarrow> u32" where
  "SSU_numPeers cx = PeerStateList_numPeers (cx_peers cx)"

definition SSU_isConnected :: "bytes \<Rightarrow> Context \<Rightarrow> bool" where
  "SSU_isConnected rh cx = PeerStateList_peerExists_hash rh (cx_peers cx)"

definition SSU_gracefulShutdown :: "Context \<Rightarrow> Context" where
  "SSU_gracefulShutdown cx = cx\<lparr>cx_accepting := False\<rparr>"

fun shutdown_loop :: "ssu_env \<Rightarrow> nat \<Rightarrow> PeerStateList \<Rightarrow> cx_out list \<times> cpp_error option" where
  "shutdown_loop env k [] = ([Cx_stop], None)"
| "shutdown_loop env k (c # cs) =
     (case destroy_packet env k (pc_state c) of
        Inl err \<Rightarrow> ([], Some err)
      | Inr q \<Rightarrow> (let (out, err) = shutdown_loop env (Suc k) cs in (Cx_send q # out, err)))"

definition SSU_shutdown :: "ssu_env \<Rightarrow> Context \<Rightarrow> cx_out list \<times> cpp_error option" where
  "SSU_shutdown env cx = shutdown_loop env 0 (cx_peers cx)"

definition PeerStateList_timerCallback :: "ssu_env \<Rightarrow> bool \<Rightarrow> bytes \<Rightarrow> Context \<Rightarrow> cx_result" where
  "PeerStateList_timerCallback env e rh cx = (if e then (cx, [], None) else SSU_disconnect env rh cx)"

subsection \<open>The transport as a state machine\<close>

text \<open>Any handler may run next, with any clock and any draw of the generator; the handlers of the message
  tables are those of the data path.\<close>

inductive ssu_step :: "crypto \<Rightarrow> Context \<Rightarrow> cx_out list \<Rightarrow> Context \<Rightarrow> bool" for cr where
  step_packet: "packetReceived cr en p cx = (cx', out, err) \<Longrightarrow> ssu_step cr cx out cx'"
| step_changed: "em_stateChanged cr en i cx = (cx', out, err) \<Longrightarrow> ssu_step cr cx out cx'"
| step_timeout: "em_timeoutCallback en e i cx = (cx', out, err) \<Longrightarrow> ssu_step cr cx out cx'"
| step_peer_timer: "PeerStateList_timerCallback env e rh cx = (cx', out, err) \<Longrightarrow> ssu_step cr cx out cx'"
| step_connect: "SSU_connect from_string cr en ri cx = (cx', out) \<Longrightarrow> ssu_step cr cx out cx'"
| step_send: "SSU_send rh msgId data cx = (cx', out, err) \<Longrightarrow> ssu_step cr cx out cx'"
| step_disconnect: "SSU_disconnect env rh cx = (cx', out, err) \<Longrightarrow> ssu_step cr cx out cx'"
| step_graceful: "ssu_step cr cx [] (SSU_gracefulShutdown cx)"
| step_sendData: "omf_sendDataCallback env ps msgId (cx_tables cx) = (t, out, err) \<Longrightarrow>
    ssu_step cr cx (map Cx_data out) (cx\<lparr>cx_tables := t\<rparr>)"
| step_resend: "omf_timerCallback env e ps msgId (cx_tables cx) = (t, out, err) \<Longrightarrow>
    ssu_step cr cx (map Cx_data out) (cx\<lparr>cx_tables := t\<rparr>)"
| step_forget: "ssu_step cr cx [] (cx\<lparr>cx_tables := imf_timerCallback e msgId (cx_tables cx)\<rparr>)"
| step_flush: "flushAckCallback env (cx_peers cx) (cx_tables cx) = Some (t, out, err) \<Longrightarrow>
    ssu_step cr cx (map Cx_data out) (cx\<lparr>cx_tables := t\<rparr>)"

inductive ssu_reachable :: "crypto \<Rightarrow> bytes \<Rightarrow> RouterIdentity \<Rightarrow> Context \<Rightarrow> bool" for cr privKey ri where
  reach_init: "ssu_reachable cr privKey ri (Context_make cr privKey ri)"
| reach_step: "ssu_reachable cr privKey ri cx \<Longrightarrow> ssu_step cr cx out cx' \<Longrightarrow> ssu_reachable cr privKey ri cx'"

inductive_cases ssu_stepE: "ssu_step cr cx out cx'"

subsection \<open>What a step keeps\<close>

text \<open>The secret of a Diffie-Hellman exchange; the keys of a state are those of the exchange it holds.\<close>

definition exchange_secret :: "crypto \<Rightarrow> bytes \<Rightarrow> bytes \<Rightarrow> bytes result" where
  "exchange_secret cr k pub =
     ebind (cr_dh_agree cr k pub) (\<lambda>s. ebind (require (s \<noteq> []) Out_of_bounds) (\<lambda>_.
     Inr (if hd s AND 0x80 \<noteq> 0 then 0 # s else s)))"

definition keyed :: "crypto \<Rightarrow> EstablishmentState \<Rightarrow> bool" where
  "keyed cr es \<longleftrightarrow> (\<exists>s. exchange_secret cr (es_dhKey es) (es_theirDH es) = Inr s \<and> 64 \<le> length s \<and>
     es_sessionKey es = take 32 s \<and> es_macKey es = take 32 (drop 32 s))"

definition es_inv :: "crypto \<Rightarrow> EstablishmentState \<Rightarrow> bool" where
  "es_inv cr es \<longleftrightarrow> (es_state es = CREATED_SENT \<or> es_state es = CONFIRMED_RECEIVED \<longrightarrow> keyed cr es)"

text \<open>The router of a session signed the exchange that the keys of the session come from.\<close>

definition proven :: "crypto \<Rightarrow> PeerState \<Rightarrow> bool" where
  "proven cr ps \<longleftrightarrow> (\<exists>es i ts sig. ps_routerHash ps = identity_hash cr i \<and> ps_endpoint ps = es_theirEndpoint es \<and>
     ps_sessionKey ps = es_sessionKey es \<and> ps_macKey ps = es_macKey es \<and> keyed cr es \<and>
     (cr_dsa_verify cr (rid_signingKey i) (creation_hash cr ts es) sig \<or>
      cr_dsa_verify cr (rid_signingKey i) (confirmation_hash cr ts es) sig))"

text \<open>A step of one establishment that keeps its endpoint and direction, and registers only proven peers.\<close>

definition good_result :: "crypto \<Rightarrow> EstablishmentState \<Rightarrow> es_result \<Rightarrow> bool" where
  "good_result cr es r \<longleftrightarrow> es_inv cr (fst r) \<and> es_theirEndpoint (fst r) = es_theirEndpoint es \<and>
     (\<forall>ps. Es_add_peer ps \<in> set (fst (snd r)) \<longrightarrow> proven cr ps)"

lemma calculateDHSecret_Inr [inr_iff]:
  "calculateDHSecret cr es = Inr es' \<longleftrightarrow>
     (\<exists>s. exchange_secret cr (es_dhKey es) (es_theirDH es) = Inr s \<and> es' = es\<lparr>es_dhSecret := s\<rparr>)"
  by (cases "cr_dh_agree cr (es_dhKey es) (es_theirDH es)") (auto simp: calculateDHSecret_def exchange_secret_def inr_iff)

lemma install_keys_Inr [inr_iff]:
  "install_keys junk es = Inr es' \<longleftrightarrow> 64 \<le> length (es_dhSecret es) \<and>
     es' = es\<lparr>es_sessionKey := take 32 (es_dhSecret es), es_macKey := take 32 (drop 32 (es_dhSecret es))\<rparr>"
  by (auto simp: install_keys_def toStaticByteArray_def inr_iff)

lemma established_peer_Inr [inr_iff]:
  "established_peer cr junk es = Inr ps \<longleftrightarrow>
     (\<exists>i. es_theirIdentity es = Some i \<and> ps = peer_of cr junk (es_theirEndpoint es) i (es_sessionKey es) (es_macKey es))"
  by (auto simp: established_peer_def peer_of_def split: option.splits)

lemma good_resultI:
  "es_inv cr es' \<Longrightarrow> es_theirEndpoint es' = es_theirEndpoint es \<Longrightarrow>
     (\<And>ps. Es_add_peer ps \<in> set effs \<Longrightarrow> proven cr ps) \<Longrightarrow> good_result cr es (es', effs, err)"
  by (simp add: good_result_def)

lemma buildSessionCreated_keeps:
  "buildSessionCreated cr iv ts ts' es = Inr (p, es') \<Longrightarrow> es' = es\<lparr>es_iv := iv\<rparr>"
  by (auto simp: buildSessionCreated_def calculateCreationSignature_def inr_iff Let_def)

lemma processRequest_good:
  assumes "es_state es = REQUEST_RECEIVED"
  shows "good_result cr es (processRequest cr rn es)"
  using assms
  by (auto simp: processRequest_def good_result_def es_inv_def keyed_def inr_iff
      split: sum.splits dest!: buildSessionCreated_keeps)

lemma provenI:
  assumes "keyed cr es" and "\<exists>ts sig. cr_dsa_verify cr (rid_signingKey i) (creation_hash cr ts es) sig \<or>
      cr_dsa_verify cr (rid_signingKey i) (confirmation_hash cr ts es) sig"
  shows "proven cr (peer_of cr junk (es_theirEndpoint es) i (es_sessionKey es) (es_macKey es))"
  using assms unfolding proven_def peer_of_simps by blast

lemma verifyCreationSignature_Inr:
  "verifyCreationSignature cr es = Inr True \<Longrightarrow> es_theirIdentity es = Some i \<Longrightarrow>
     \<exists>s. cr_dsa_verify cr (rid_signingKey i) (confirmation_hash cr (es_signatureTimestamp es) es) s"
  by (auto simp: verifyCreationSignature_def inr_iff Let_def)

lemma hash_secret [simp]:
  "confirmation_hash cr ts (es\<lparr>es_dhSecret := s\<rparr>) = confirmation_hash cr ts es"
  "confirmation_hash cr ts (es\<lparr>es_sessionKey := s\<rparr>) = confirmation_hash cr ts es"
  "confirmation_hash cr ts (es\<lparr>es_macKey := s\<rparr>) = confirmation_hash cr ts es"
  by (simp_all add: confirmation_hash_def getMyDH_def)

lemma processCreated_good:
  assumes "es_state es = CREATED_RECEIVED"
  shows "good_result cr es (processCreated cr rn es)"
proof (cases "calculateDHSecret cr es")
  case (Inr e1)
  then obtain s where s: "exchange_secret cr (es_dhKey es) (es_theirDH es) = Inr s" and e1: "e1 = es\<lparr>es_dhSecret := s\<rparr>"
    by (auto simp: inr_iff)
  show ?thesis
  proof (cases "verifyCreationSignature cr e1 = Inr True \<and> 64 \<le> length s")
    case True
    define e2 where "e2 = e1\<lparr>es_sessionKey := take 32 s, es_macKey := take 32 (drop 32 s)\<rparr>"
    have "install_keys (rn_junk rn) e1 = Inr e2" using True by (simp add: inr_iff e2_def e1)
    moreover have "keyed cr e2" using True s by (simp add: keyed_def e2_def e1)
    then have "proven cr (peer_of cr j (es_theirEndpoint e2) i (es_sessionKey e2) (es_macKey e2))"
      if "es_theirIdentity e2 = Some i" for i j
      using verifyCreationSignature_Inr [of cr e1 i] True that by (intro provenI) (auto simp: e2_def e1)
    ultimately show ?thesis
      using True Inr assms
      by (auto simp: processCreated_def good_result_def es_inv_def established_peer_Inr e2_def e1 split: sum.splits bool.splits)
  qed (use Inr assms in \<open>auto simp: processCreated_def good_result_def es_inv_def e1 install_keys_Inr split: sum.splits bool.splits\<close>)
qed (use assms in \<open>simp add: processCreated_def good_result_def es_inv_def\<close>)

lemma processConfirmed_good:
  assumes "es_state es = CONFIRMED_RECEIVED" and "es_inv cr es"
  shows "good_result cr es (processConfirmed cr rn es)"
proof -
  have "keyed cr es" using assms by (simp add: es_inv_def)
  then have "proven cr (peer_of cr j (es_theirEndpoint es) i (es_sessionKey es) (es_macKey es))"
    if "verifyConfirmationSignature cr es = Inr True" "es_theirIdentity es = Some i" for i j
    using that by (intro provenI) (auto simp: verifyConfirmationSignature_def)
  then show ?thesis
    using assms
    by (auto simp: processConfirmed_def good_result_def es_inv_def established_peer_Inr split: sum.splits bool.splits)
qed

lemma stateChanged_good: "es_inv cr es \<Longrightarrow> good_result cr es (stateChanged cr rn es)"
  using processRequest_good [of es cr rn] processCreated_good [of es cr rn] processConfirmed_good [of es cr rn]
  by (auto simp: stateChanged_def good_result_def split: State.splits option.splits)

lemma es_inv_failure [simp]: "es_inv cr (es\<lparr>es_state := FAILURE\<rparr>)"
  by (simp add: es_inv_def)

lemma timeoutCallback_good: "es_inv cr es \<Longrightarrow> good_result cr es (timeoutCallback e es)"
  by (auto simp: timeoutCallback_def good_result_def)

lemma sendRequest_good: "es_state es = UNKNOWN \<Longrightarrow> good_result cr es (sendRequest cr rn es)"
  by (auto simp: sendRequest_def good_result_def es_inv_def split: sum.splits)

lemma handleSessionRequest_good: "es_state es = UNKNOWN \<Longrightarrow> good_result cr es (handleSessionRequest buf p es)"
  by (auto simp: handleSessionRequest_def good_result_def es_inv_def Let_def split: sum.splits prod.splits)

lemma handleSessionCreated_good: "es_inv cr es \<Longrightarrow> good_result cr es (handleSessionCreated buf p es)"
  by (auto simp: handleSessionCreated_def good_result_def es_inv_def Let_def split: sum.splits prod.splits)

lemma handleSessionConfirmed_good: "es_inv cr es \<Longrightarrow> good_result cr es (handleSessionConfirmed buf p es)"
  by (auto simp: handleSessionConfirmed_def good_result_def es_inv_def keyed_def Let_def split: sum.splits prod.splits)

lemma good_result_endpoint:
  "good_result cr es' r \<Longrightarrow> es_theirEndpoint es' = es_theirEndpoint es \<Longrightarrow> good_result cr es r"
  by (simp add: good_result_def)

lemma handlePacket_good:
  assumes "es_inv cr es"
  shows "good_result cr es (handlePacket_establishing cr p es)"
proof -
  define e where "e = (if es_direction es = OUTBOUND then es\<lparr>es_iv := take 16 (drop 16 (pk_data p))\<rparr> else es)"
  have e: "es_inv cr e" "es_theirEndpoint e = es_theirEndpoint es"
    using assms by (auto simp: e_def es_inv_def keyed_def)
  have good: "good_result cr es (es, [], err)" "good_result cr es (e, [], err)"
    "good_result cr es (e\<lparr>es_state := FAILURE\<rparr>, [Es_post], err)"
    "good_result cr es (handleSessionCreated buf pos e)" "good_result cr es (handleSessionConfirmed buf pos e)"
    for err buf pos
    using assms e good_result_endpoint [OF handleSessionCreated_good [OF e(1)] e(2)]
      good_result_endpoint [OF handleSessionConfirmed_good [OF e(1)] e(2)]
    by (auto intro: good_resultI)
  show ?thesis
    unfolding handlePacket_establishing_def e_def [symmetric] Let_def
    by (simp add: good split: sum.split prod.split bool.split)
qed

subsection \<open>The invariant of the transport\<close>

definition peers_proven :: "crypto \<Rightarrow> PeerStateList \<Rightarrow> bool" where
  "peers_proven cr l \<longleftrightarrow> peers_ok l \<and> (\<forall>c \<in> set l. proven cr (pc_state c))"

definition states_ok :: "crypto \<Rightarrow> Context \<Rightarrow> bool" where
  "states_ok cr cx \<longleftrightarrow> (\<forall>es \<in> set (cx_states cx). es_inv cr es) \<and>
     (\<forall>ep i. cx_stateTable cx ep = Some i \<longrightarrow> i < length (cx_states cx) \<and> es_theirEndpoint (cx_states cx ! i) = ep)"

definition ctx_inv :: "crypto \<Rightarrow> Context \<Rightarrow> bool" where
  "ctx_inv cr cx \<longleftrightarrow> peers_proven cr (cx_peers cx) \<and> states_ok cr cx"

text \<open>One transition keeps the invariant.\<close>

definition keeps :: "crypto \<Rightarrow> Context \<Rightarrow> Context \<Rightarrow> bool" where
  "keeps cr cx cx' \<longleftrightarrow> (ctx_inv cr cx \<longrightarrow> ctx_inv cr cx')"

lemma keeps_refl [simp]: "keeps cr cx cx"
  by (simp add: keeps_def)

lemma keeps_trans: "keeps cr cx cx' \<Longrightarrow> keeps cr cx' cx'' \<Longrightarrow> keeps cr cx cx''"
  by (auto simp: keeps_def)

lemma keeps_same:
  assumes "cx_peers cx' = cx_peers cx" "cx_states cx' = cx_states cx" "cx_stateTable cx' = cx_stateTable cx"
  shows "keeps cr cx cx'"
  using assms by (simp add: keeps_def ctx_inv_def states_ok_def)

lemma addPeer_proven:
  "peers_proven cr l \<Longrightarrow> proven cr ps \<Longrightarrow> peers_proven cr (PeerStateList_addPeer now ps l)"
  using addPeer_ok [of l now ps] by (auto simp: peers_proven_def addPeer_cases split: if_splits)

lemma keeps_add_peer: "proven cr ps \<Longrightarrow> keeps cr cx (cx\<lparr>cx_peers := PeerStateList_addPeer now ps (cx_peers cx)\<rparr>)"
  by (auto simp: keeps_def ctx_inv_def states_ok_def addPeer_proven)

lemma keeps_del_peer: "keeps cr cx (cx\<lparr>cx_peers := PeerStateList_delPeer_hash rh (cx_peers cx)\<rparr>)"
  by (auto simp: keeps_def ctx_inv_def states_ok_def peers_proven_def delPeer_hash_ok)
    (auto simp: PeerStateList_delPeer_hash_def)

lemma keeps_del_state: "keeps cr cx (fst (em_delState ep cx))"
  by (auto simp: em_delState_def keeps_def ctx_inv_def states_ok_def split: option.splits)

lemma keeps_effect:
  "(\<And>ps. e = Es_add_peer ps \<Longrightarrow> proven cr ps) \<Longrightarrow> keeps cr cx (fst (apply_effect now i e cx))"
  by (cases e) (auto intro: keeps_add_peer keeps_del_state)

lemma keeps_effects:
  "(\<And>ps. Es_add_peer ps \<in> set effs \<Longrightarrow> proven cr ps) \<Longrightarrow> keeps cr cx (fst (apply_effects now i effs cx))"
proof (induction effs arbitrary: cx)
  case (Cons e effs)
  then have "keeps cr cx (fst (apply_effect now i e cx))" by (intro keeps_effect) simp
  moreover have "keeps cr cx (fst (apply_effects now i effs cx))" for cx using Cons by simp
  ultimately show ?case by (auto simp: case_prod_unfold Let_def intro: keeps_trans)
qed simp

lemma keeps_on_state:
  assumes "i < length (cx_states cx) \<Longrightarrow> es_inv cr (cx_states cx ! i) \<Longrightarrow> good_result cr (cx_states cx ! i) (f (cx_states cx ! i))"
    and "on_state now i f cx = (cx', out, err)"
  shows "keeps cr cx cx'"
proof (cases "i < length (cx_states cx) \<and> ctx_inv cr cx")
  case True
  let ?es = "cx_states cx ! i"
  obtain es effs e where r: "f ?es = (es, effs, e)" by (metis prod_cases3)
  have "es_inv cr ?es" using True by (auto simp: ctx_inv_def states_ok_def)
  then have good: "good_result cr ?es (es, effs, e)" using assms(1) True r by simp
  have "keeps cr cx (cx\<lparr>cx_states := (cx_states cx)[i := es]\<rparr>)"
    using good True
    by (auto simp: keeps_def ctx_inv_def states_ok_def good_result_def nth_list_update
        dest!: subsetD [OF set_update_subset_insert])
  moreover have "cx' = fst (apply_effects now i effs (cx\<lparr>cx_states := (cx_states cx)[i := es]\<rparr>))"
    using assms(2) True r by (auto simp: on_state_def split: prod.splits)
  then have "keeps cr (cx\<lparr>cx_states := (cx_states cx)[i := es]\<rparr>) cx'"
    using good by (auto simp: good_result_def intro: keeps_effects)
  ultimately show ?thesis by (rule keeps_trans)
qed (use assms(2) in \<open>auto simp: on_state_def keeps_def split: if_splits\<close>)

lemma keeps_add_state:
  assumes "es_inv cr es" "es_theirEndpoint es = ep"
  shows "keeps cr cx (em_addState ep es cx)"
  using assms by (auto simp: keeps_def ctx_inv_def states_ok_def em_addState_def nth_append less_Suc_eq)

lemma keeps_set_timer: "keeps cr cx (fst (em_setTimer ep i cx))"
  by (auto simp: em_setTimer_def intro: keeps_same)

lemma new_state_good:
  "es_state (EstablishmentState_inbound cr junk dh priv ri ep) = UNKNOWN"
  "es_theirEndpoint (EstablishmentState_inbound cr junk dh priv ri ep) = ep"
  "es_state (EstablishmentState_outbound cr junk dh priv ri ep ti) = UNKNOWN"
  "es_theirEndpoint (EstablishmentState_outbound cr junk dh priv ri ep ti) = ep"
  by (simp_all add: EstablishmentState_inbound_def EstablishmentState_outbound_def)

lemma addState_nth: "cx_states (em_addState ep es cx) ! length (cx_states cx) = es"
  by (simp add: em_addState_def)

lemma keeps_createState_outbound:
  assumes "em_createState_outbound cr en ep ri cx = (cx', out, err)"
  shows "keeps cr cx cx'"
proof -
  let ?es = "EstablishmentState_outbound cr (en_junk32 en) (en_dhKey en) (cx_privKey cx) (cx_identity cx) ep ri"
  obtain c o1 e where s: "on_state (en_now en) (length (cx_states cx)) (sendRequest cr (en_rn en)) (em_addState ep ?es cx) = (c, o1, e)"
    by (metis prod_cases3)
  have "keeps cr cx (em_addState ep ?es cx)"
    by (intro keeps_add_state) (simp_all add: es_inv_def new_state_good)
  also have "keeps cr (em_addState ep ?es cx) c"
    by (rule keeps_on_state [OF _ s]) (simp add: addState_nth sendRequest_good new_state_good)
  finally (keeps_trans) have "keeps cr cx c" .
  then show ?thesis
    using assms s keeps_set_timer [of cr c ep "length (cx_states cx)"]
    by (auto simp: em_createState_outbound_def Let_def split: option.splits prod.splits intro: keeps_trans)
qed

lemma keeps_new:
  assumes "handlePacket_new cr en p cx = (cx', out, err)"
  shows "keeps cr cx cx'"
proof (cases "\<exists>data pos. open_request cr (cx_inboundKey cx) p = Inr (Some (data, pos))")
  case True
  then obtain data pos where o: "open_request cr (cx_inboundKey cx) p = Inr (Some (data, pos))" by blast
  let ?es = "EstablishmentState_inbound cr (en_junk32 en) (en_dhKey en) (cx_privKey cx) (cx_identity cx) (pk_endpoint p)"
  let ?c = "em_addState (pk_endpoint p) ?es cx" and ?n = "length (cx_states cx)"
  let ?d = "fst (em_setTimer (pk_endpoint p) ?n ?c)"
  obtain o1 where s: "on_state (en_now en) ?n (handleSessionRequest data pos) ?d = (cx', o1, err)"
    using assms o by (auto simp: handlePacket_new_def em_createState_inbound_def Let_def split: prod.splits)
  have "keeps cr cx ?c"
    by (intro keeps_add_state) (simp_all add: es_inv_def new_state_good)
  also have "keeps cr ?c ?d" by (rule keeps_set_timer)
  finally (keeps_trans) have "keeps cr cx ?d" .
  moreover have "cx_states ?d ! ?n = ?es" by (simp add: em_setTimer_def addState_nth)
  then have "keeps cr ?d cx'"
    by (intro keeps_on_state [OF _ s]) (simp add: handleSessionRequest_good new_state_good)
  ultimately show ?thesis by (rule keeps_trans)
qed (use assms in \<open>auto simp: handlePacket_new_def split: sum.splits option.splits\<close>)

lemma keeps_reset:
  assumes "PeerStateList_resetPeerTimer rh (cx_peers cx) = Inr l"
  shows "keeps cr cx (cx\<lparr>cx_peers := l\<rparr>)"
  using assms resetPeerTimer_ok [OF _ assms]
  by (auto simp: keeps_def ctx_inv_def peers_proven_def states_ok_def PeerStateList_resetPeerTimer_def split: option.splits)

lemma delPeer_as_hash:
  assumes "peers_ok l" and "c \<in> set l"
  shows "PeerStateList_delPeer (pc_endpoint c) l = PeerStateList_delPeer_hash (pc_hash c) l"
proof -
  have "pc_endpoint d = pc_endpoint c \<longleftrightarrow> pc_hash d = pc_hash c" if "d \<in> set l" for d
    using assms that by (auto simp: peers_ok_def distinct_map dest: inj_onD)
  then show ?thesis by (auto simp: PeerStateList_delPeer_def PeerStateList_delPeer_hash_def intro!: filter_cong)
qed

lemma keeps_del_endpoint:
  assumes "c \<in> set (cx_peers cx)"
  shows "keeps cr cx (cx\<lparr>cx_peers := PeerStateList_delPeer (pc_endpoint c) (cx_peers cx)\<rparr>)"
proof (cases "ctx_inv cr cx")
  case True
  then have "peers_ok (cx_peers cx)" by (simp add: ctx_inv_def peers_proven_def)
  then show ?thesis using keeps_del_peer [of cr cx "pc_hash c"] by (simp add: delPeer_as_hash [OF _ assms])
qed (simp add: keeps_def)

lemma reset_as_map:
  assumes "PeerStateList_resetPeerTimer rh l = Inr l'"
  shows "\<exists>f. l' = map f l \<and> (\<forall>d. pc_state (f d) = pc_state d)"
  using assms
  by (intro exI [of _ "\<lambda>c. if pc_hash c = rh then c\<lparr>pc_timer := pc_timer c + 20 * 60\<rparr> else c"])
    (auto simp: PeerStateList_resetPeerTimer_def split: option.splits)

lemma reset_keeps_state:
  assumes "PeerStateList_resetPeerTimer rh l = Inr l'" "c \<in> set l"
  shows "\<exists>c' \<in> set l'. pc_state c' = pc_state c"
  using reset_as_map [OF assms(1)] assms(2) by auto

lemma keeps_peer:
  assumes r: "handlePacket_peer cr en p ps cx = (cx', out, err)" and c: "c \<in> set (cx_peers cx)" "pc_state c = ps"
  shows "keeps cr cx cx'"
proof (cases "PeerStateList_resetPeerTimer (ps_routerHash ps) (cx_peers cx)")
  case (Inr l)
  let ?cx = "cx\<lparr>cx_peers := l\<rparr>"
  have reset: "keeps cr cx ?cx" by (rule keeps_reset [OF Inr])
  obtain d where "d \<in> set l" "pc_state d = ps" using reset_keeps_state [OF Inr c(1)] c(2) by auto
  then have del: "keeps cr ?cx (?cx\<lparr>cx_peers := PeerStateList_delPeer (ps_endpoint ps) l\<rparr>)"
    using keeps_del_endpoint [of d ?cx cr] by (simp add: pc_endpoint_def)
  have tables: "keeps cr ?cx (?cx\<lparr>cx_tables := t\<rparr>)" for t by (rule keeps_same) simp_all
  have "cx' = cx \<or> cx' = ?cx \<or> (\<exists>t. cx' = ?cx\<lparr>cx_tables := t\<rparr>) \<or>
      cx' = ?cx\<lparr>cx_peers := PeerStateList_delPeer (ps_endpoint ps) l\<rparr>"
    using r Inr
    by (auto simp: handlePacket_peer_def Let_def split: sum.splits bool.splits prod.splits if_splits)
  then show ?thesis using keeps_trans [OF reset del] keeps_trans [OF reset tables] reset by auto
qed (use r in \<open>auto simp: handlePacket_peer_def split: sum.splits bool.splits\<close>)

lemma keeps_packetReceived:
  assumes r: "packetReceived cr en p cx = (cx', out, err)"
  shows "keeps cr cx cx'"
proof (cases "by_endpoint (pk_endpoint p) (cx_peers cx)")
  case None
  then show ?thesis
    using r keeps_new [of cr en p cx cx' out err] keeps_on_state [of _ cx cr "handlePacket_establishing cr p" _ cx' out err]
      handlePacket_good
    by (auto simp: packetReceived_def PeerStateList_peerExists_def em_getState_def Let_def
        split: if_splits option.splits)
next
  case (Some c)
  then have c: "c \<in> set (cx_peers cx)" by (auto simp: by_endpoint_def find_Some_iff)
  have "handlePacket_peer cr en p (pc_state c) cx = (cx', out, err)"
    using r Some by (simp add: packetReceived_def PeerStateList_peerExists_def PeerStateList_getPeer_def Let_def)
  then show ?thesis by (rule keeps_peer [OF _ c refl])
qed

lemma keeps_connect_loop:
  "connect_loop from_string cr en ident as cx = (cx', out) \<Longrightarrow> keeps cr cx cx'"
  by (induction as)
    (auto simp: em_stateExists_def split: if_splits sum.splits prod.splits intro: keeps_createState_outbound)

lemma keeps_disconnect: "SSU_disconnect env rh cx = (cx', out, err) \<Longrightarrow> keeps cr cx cx'"
  by (auto simp: SSU_disconnect_def split: if_splits sum.splits intro: keeps_del_peer)

lemma keeps_send: "SSU_send rh msgId data cx = (cx', out, err) \<Longrightarrow> keeps cr cx cx'"
  by (auto simp: SSU_send_def split: if_splits sum.splits prod.splits intro: keeps_same)

lemma keeps_tables: "keeps cr cx (cx\<lparr>cx_tables := t\<rparr>)"
  by (rule keeps_same) simp_all

lemma keeps_step: "ssu_step cr cx out cx' \<Longrightarrow> keeps cr cx cx'"
proof (induction rule: ssu_step.induct)
  case (step_changed en i cx cx' out err)
  then show ?case unfolding em_stateChanged_def by (rule keeps_on_state [rotated]) (rule stateChanged_good)
next
  case (step_timeout en e i cx cx' out err)
  then show ?case unfolding em_timeoutCallback_def by (rule keeps_on_state [rotated]) (rule timeoutCallback_good)
qed (auto simp: SSU_connect_def SSU_gracefulShutdown_def PeerStateList_timerCallback_def split: if_splits
    intro: keeps_packetReceived keeps_connect_loop keeps_disconnect keeps_send keeps_tables keeps_same)

lemma reachable_inv: "ssu_reachable cr privKey ri cx \<Longrightarrow> ctx_inv cr cx"
proof (induction rule: ssu_reachable.induct)
  case reach_init
  show ?case by (simp add: Context_make_def ctx_inv_def peers_proven_def peers_ok_def states_ok_def)
next
  case (reach_step cx out cx')
  then show ?case using keeps_step [of cr cx out cx'] by (simp add: keeps_def)
qed

subsection \<open>A message through the transport\<close>

text \<open>The packets of a list, received one after the other; what the data path queues.\<close>

fun receive_run :: "crypto \<Rightarrow> entropy \<Rightarrow> Packet list \<Rightarrow> Context \<Rightarrow> Context \<times> cx_out list" where
  "receive_run cr en [] cx = (cx, [])"
| "receive_run cr en (p # ps) cx =
     (let (cx, out, err) = packetReceived cr en p cx; (cx, out') = receive_run cr en ps cx in (cx, out @ out'))"

fun data_outs :: "cx_out list \<Rightarrow> ssu_out list" where
  "data_outs [] = []"
| "data_outs (Cx_data r # outs) = r # data_outs outs"
| "data_outs (_ # outs) = data_outs outs"

lemma data_outs_append [simp]: "data_outs (a @ b) = data_outs a @ data_outs b"
  by (induction a rule: data_outs.induct) auto

lemma data_outs_map [simp]: "data_outs (map Cx_data outs) = outs"
  by (induction outs) auto

definition peer_at :: "Endpoint \<Rightarrow> Context \<Rightarrow> PeerState option" where
  "peer_at ep cx = map_option pc_state (by_endpoint ep (cx_peers cx))"

lemma by_endpoint_map_state:
  assumes "\<And>d. pc_state (f d) = pc_state d"
  shows "map_option pc_state (by_endpoint ep (map f l)) = map_option pc_state (by_endpoint ep l)"
proof -
  have "pc_endpoint (f d) = pc_endpoint d" for d by (simp add: pc_endpoint_def assms)
  then show ?thesis by (induction l) (auto simp: by_endpoint_def assms)
qed

text \<open>A packet that opens under the keys of the peer at its endpoint to the plain text \<open>buf\<close>.\<close>

definition opens :: "crypto \<Rightarrow> Endpoint \<Rightarrow> PeerState \<Rightarrow> Packet \<Rightarrow> bytes \<Rightarrow> bool" where
  "opens cr ep ps q buf \<longleftrightarrow> pk_endpoint q = ep \<and> Packet_verify (cr_md5 cr) (ps_macKey ps) q = Inr True \<and>
     (\<exists>p. Packet_decrypt (cr_aes_decrypt cr) (ps_sessionKey ps) q = Inr p \<and> pk_data p = buf)"

lemma peer_data_packet:
  assumes "peer_at ep cx = Some ps" and "opens cr ep ps q buf" and "read_header buf = Inr (payload_code DATA, 5)"
    and "receiveData (en_junk8 en) (ps_routerHash ps) buf 5 (cx_tables cx) = (t, out, r)"
  shows "\<exists>cx' err. packetReceived cr en q cx = (cx', Cx_arm_peer (ps_routerHash ps) # map Cx_data out, err) \<and>
    peer_at ep cx' = Some ps \<and> cx_tables cx' = t"
proof -
  obtain c where c: "by_endpoint ep (cx_peers cx) = Some c" "pc_state c = ps"
    using assms(1) by (auto simp: peer_at_def)
  then have "c \<in> set (cx_peers cx)" by (auto simp: by_endpoint_def find_Some_iff)
  then obtain l where l: "PeerStateList_resetPeerTimer (ps_routerHash ps) (cx_peers cx) = Inr l"
    using c(2) by (cases "by_hash (ps_routerHash ps) (cx_peers cx)")
      (auto simp: PeerStateList_resetPeerTimer_def by_hash_None pc_hash_def image_iff)
  obtain f where "l = map f (cx_peers cx)" "\<And>d. pc_state (f d) = pc_state d" using reset_as_map [OF l] by blast
  then have "peer_at ep (cx\<lparr>cx_peers := l, cx_tables := t\<rparr>) = Some ps"
    using c by (simp add: peer_at_def by_endpoint_map_state)
  moreover have "packetReceived cr en q cx = handlePacket_peer cr en q ps cx"
    using assms(2) c
    by (simp add: packetReceived_def PeerStateList_peerExists_def PeerStateList_getPeer_def opens_def Let_def)
  ultimately show ?thesis
    using assms(2-4) l by (auto simp: handlePacket_peer_def opens_def Let_def)
qed

lemma receive_run_data:
  assumes "peer_at ep cx = Some ps" and "list_all2 (opens cr ep ps) qs bufs"
    and "\<forall>buf \<in> set bufs. read_header buf = Inr (payload_code DATA, 5)"
  shows "\<exists>cx' outs. receive_run cr en qs cx = (cx', outs) \<and>
    receive_packets (en_junk8 en) (ps_routerHash ps) bufs (cx_tables cx) = (cx_tables cx', data_outs outs)"
  using assms
proof (induction qs arbitrary: bufs cx)
  case (Cons q qs)
  then obtain buf bufs' where bufs: "bufs = buf # bufs'" and q: "opens cr ep ps q buf"
    and rest: "list_all2 (opens cr ep ps) qs bufs'" by (auto simp: list_all2_Cons1)
  obtain t out r where recv: "receiveData (en_junk8 en) (ps_routerHash ps) buf 5 (cx_tables cx) = (t, out, r)"
    by (metis prod_cases3)
  obtain cx1 err where step: "packetReceived cr en q cx = (cx1, Cx_arm_peer (ps_routerHash ps) # map Cx_data out, err)"
    "peer_at ep cx1 = Some ps" "cx_tables cx1 = t"
    using peer_data_packet [OF Cons.prems(1) q _ recv] Cons.prems(3) bufs by auto
  obtain cx2 outs where "receive_run cr en qs cx1 = (cx2, outs)"
    "receive_packets (en_junk8 en) (ps_routerHash ps) bufs' (cx_tables cx1) = (cx_tables cx2, data_outs outs)"
    using Cons.IH [OF step(2) rest] Cons.prems(3) bufs by auto
  then show ?case using step recv bufs by simp
qed simp

definition env_for :: "crypto \<Rightarrow> ssu_env \<Rightarrow> bool" where
  "env_for cr env \<longleftrightarrow> se_aes env = cr_aes_encrypt cr \<and> se_md5 env = cr_md5 cr \<and> (\<forall>k. length (se_iv env k) = 16)"

lemma env_for_ok: "crypto_ok cr \<Longrightarrow> env_for cr env \<Longrightarrow> env_ok env"
  by (simp add: env_for_def env_ok_def crypto_ok_def)

lemma one_fragment_packet:
  assumes "buildData ts ep False [] [] [f] = Inr p" and "length (sf_data f) \<le> 16383"
  shows "length (pk_data p) < 70000" and "read_header (pad16 (pk_data p)) = Inr (payload_code DATA, 5)"
proof -
  obtain d where d: "p = append_data d (buildHeader ts ep (push_bit 4 (payload_code DATA)))" "length d < 60000"
    using assms
    by (auto simp: buildData_def data_body_def fragment_bytes_def complete_acks_def partial_acks_def append_data_def
        inr_iff Let_def)
  then show "length (pk_data p) < 70000" by (simp add: length_pk_append)
  show "read_header (pad16 (pk_data p)) = Inr (payload_code DATA, 5)"
    using read_header_has [OF refl, of d ts ep "push_bit 4 (payload_code DATA)"] unfolding d(1) by auto
qed

lemma readdressed:
  "Packet_verify md5 mk (Packet_make ep (pk_data q)) = Packet_verify md5 mk q"
  "Packet_decrypt aes sk q = Inr p \<Longrightarrow>
     \<exists>p'. Packet_decrypt aes sk (Packet_make ep (pk_data q)) = Inr p' \<and> pk_data p' = pk_data p"
  by (auto simp: Packet_make_def Packet_verify_def Packet_decrypt_def Let_def inr_iff)

lemma carries_opens:
  assumes cr: "crypto_ok cr" and env: "env_for cr env" and c: "carries env ps f q" and f: "length (sf_data f) \<le> 16383"
    and keys: "ps_sessionKey ps' = ps_sessionKey ps" "ps_macKey ps' = ps_macKey ps" "keys_ok ps"
  shows "\<exists>p. buildData (se_time env) (ps_endpoint ps) False [] [] [f] = Inr p \<and>
    opens cr ep ps' (Packet_make ep (pk_data q)) (pad16 (pk_data p)) \<and>
    read_header (pad16 (pk_data p)) = Inr (payload_code DATA, 5)"
proof -
  obtain p where p: "buildData (se_time env) (ps_endpoint ps) False [] [] [f] = Inr p" "seal env 0 ps p = Inr q"
    using c by (auto simp: carries_def)
  note size = one_fragment_packet [OF p(1) f]
  have "Packet_verify (cr_md5 cr) (ps_macKey ps) q = Inr True \<and>
      Packet_decrypt (cr_aes_decrypt cr) (ps_sessionKey ps) q = Inr (p\<lparr>pk_data := pad16 (pk_data p)\<rparr>)"
    using seal_roundtrip [of "cr_md5 cr" "cr_aes_encrypt cr" "cr_aes_decrypt cr" "se_iv env 0" "ps_macKey ps" p "ps_sessionKey ps"]
      cr env keys(3) size(1) p(2)
    by (auto simp: crypto_ok_def env_for_def keys_ok_def seal_def)
  then have "opens cr ep ps' (Packet_make ep (pk_data q)) (pad16 (pk_data p))"
    using keys(1,2) readdressed(2) [of _ _ q "p\<lparr>pk_data := pad16 (pk_data p)\<rparr>" ep]
    by (simp add: opens_def readdressed(1)) (simp add: Packet_make_def)
  then show ?thesis using p(1) size(2) by blast
qed

lemma SSU_send_new:
  assumes "PeerStateList_getPeer_hash rh (cx_peers cx) = Inr ps" and "smap_find (mt_omf (cx_tables cx)) msgId = None"
  shows "\<exists>cx'. SSU_send rh msgId data cx =
      (cx', [Cx_data (Arm_resend ps msgId), Cx_data (Post_sendData ps msgId)], None) \<and>
    smap_find (mt_omf (cx_tables cx')) msgId = Some (OutboundMessageState_make msgId data)"
  using assms
  by (auto simp: SSU_send_def omf_sendData_def PeerStateList_getPeer_hash_def PeerStateList_peerExists_hash_def
      smap_find_put split: option.splits)

subsection \<open>A session through the transport\<close>

definition deliver :: "Endpoint \<Rightarrow> Packet \<Rightarrow> Packet" where
  "deliver ep q = Packet_make ep (pk_data q)"

definition holds :: "Context \<Rightarrow> nat \<Rightarrow> EstablishmentState \<Rightarrow> bool" where
  "holds cx i es \<longleftrightarrow> i < length (cx_states cx) \<and> cx_states cx ! i = es"

definition waits :: "Context \<Rightarrow> Endpoint \<Rightarrow> nat \<Rightarrow> EstablishmentState \<Rightarrow> bool" where
  "waits cx ep i es \<longleftrightarrow> holds cx i es \<and> cx_accepting cx \<and> \<not> PeerStateList_peerExists ep (cx_peers cx) \<and>
     cx_stateTable cx ep = Some i \<and> peers_ok (cx_peers cx)"

definition with_state :: "nat \<Rightarrow> EstablishmentState \<Rightarrow> Context \<Rightarrow> Context" where
  "with_state i es cx = cx\<lparr>cx_states := (cx_states cx)[i := es]\<rparr>"

lemma on_state_holds:
  assumes "holds cx i es" and "f es = (es', effs, err)"
  shows "on_state now i f cx =
    (fst (apply_effects now i effs (with_state i es' cx)), snd (apply_effects now i effs (with_state i es' cx)), err)"
  using assms by (simp add: on_state_def holds_def with_state_def case_prod_unfold Let_def)

lemma holds_with_state: "holds cx i es \<Longrightarrow> holds (with_state i es' cx) i es'"
  by (simp add: holds_def with_state_def)

lemma waits_with_state: "waits cx ep i es \<Longrightarrow> waits (with_state i es' cx) ep i es'"
  by (simp add: waits_def holds_def with_state_def)

lemma waits_holds: "waits cx ep i es \<Longrightarrow> holds cx i es"
  by (simp add: waits_def)

lemma deliver_verify [simp]: "Packet_verify md5 mk (deliver ep q) = Packet_verify md5 mk q"
  by (simp add: deliver_def readdressed)

lemma deliver_endpoint [simp]: "pk_endpoint (deliver ep q) = ep"
  by (simp add: deliver_def Packet_make_def)

lemma deliver_decrypt:
  "Packet_decrypt aes sk (deliver ep q) =
     (case Packet_decrypt aes sk q of Inl err \<Rightarrow> Inl err | Inr p \<Rightarrow> Inr (p\<lparr>pk_endpoint := ep\<rparr>))"
  by (cases "32 \<le> length (pk_data q)") (simp_all add: deliver_def Packet_make_def Packet_decrypt_def require_def Let_def)

lemma handlePacket_deliver: "handlePacket_establishing cr (deliver ep q) es = handlePacket_establishing cr q es"
proof -
  have "pk_data (deliver ep q) = pk_data q" by (simp add: deliver_def Packet_make_def)
  then show ?thesis
    by (simp add: handlePacket_establishing_def deliver_decrypt Let_def split: sum.split bool.split)
qed

lemma open_request_deliver: "open_request cr k (deliver ep q) = open_request cr k q"
proof (cases "Packet_verify (cr_md5 cr) k q")
  case (Inr ok)
  then show ?thesis
    by (cases "Packet_decrypt (cr_aes_decrypt cr) k q") (auto simp: open_request_def deliver_decrypt cong: if_cong)
qed (simp add: open_request_def)

lemma packet_waits:
  "waits cx ep i es \<Longrightarrow> packetReceived cr en (deliver ep q) cx = on_state (en_now en) i (handlePacket_establishing cr q) cx"
proof -
  have "handlePacket_establishing cr (deliver ep q) = handlePacket_establishing cr q"
    by (simp add: fun_eq_iff handlePacket_deliver)
  then show "waits cx ep i es \<Longrightarrow> ?thesis"
    by (simp add: packetReceived_def waits_def em_getState_def Let_def)
qed

lemma waits_new:
  assumes "cx_accepting cx" "\<not> PeerStateList_peerExists ep (cx_peers cx)" "peers_ok (cx_peers cx)"
  shows "waits (em_addState ep es cx) ep (length (cx_states cx)) es"
  using assms by (simp add: waits_def holds_def em_addState_def)

lemma waits_timer: "waits cx ep i es \<Longrightarrow> waits (fst (em_setTimer ep' j cx)) ep i es"
  by (simp add: waits_def holds_def em_setTimer_def)

lemma peer_at_addPeer:
  assumes "waits cx ep i es" and "ps_endpoint ps = ep"
  shows "peer_at ep (cx\<lparr>cx_peers := PeerStateList_addPeer now ps (cx_peers cx)\<rparr>) = Some ps"
    and "SSU_isConnected (ps_routerHash ps) (cx\<lparr>cx_peers := PeerStateList_addPeer now ps (cx_peers cx)\<rparr>)"
proof -
  let ?l = "cx_peers cx" and ?l' = "PeerStateList_addPeer now ps (cx_peers cx)"
  have ok: "peers_ok ?l" and "\<not> endpoint_taken ps ?l"
    using assms by (force simp: waits_def PeerStateList_peerExists_def by_endpoint_None endpoint_taken_def)+
  then have "peer_container now ps \<in> set ?l'" by (rule addPeer_in)
  then have "by_endpoint ep ?l' = Some (peer_container now ps)" "by_hash (ps_routerHash ps) ?l' = Some (peer_container now ps)"
    using addPeer_ok [OF ok] assms(2) by (simp_all add: by_endpoint_Some by_hash_Some)
  then show "peer_at ep (cx\<lparr>cx_peers := ?l'\<rparr>) = Some ps" "SSU_isConnected (ps_routerHash ps) (cx\<lparr>cx_peers := ?l'\<rparr>)"
    by (simp_all add: peer_at_def SSU_isConnected_def PeerStateList_peerExists_hash_def)
qed

text \<open>The steps that change more than the state.\<close>

lemma session_request:
  assumes "cx_accepting cx" "peers_ok (cx_peers cx)" "\<not> PeerStateList_peerExists ep (cx_peers cx)"
    and "i = length (cx_states cx)"
    and "sendRequest cr (en_rn en) (EstablishmentState_outbound cr (en_junk32 en) (en_dhKey en) (cx_privKey cx) (cx_identity cx) ep ri) =
      (es, [Es_send q, Es_post], None)"
  shows "\<exists>cx' out. em_createState_outbound cr en ep ri cx = (cx', out, None) \<and> Cx_send q \<in> set out \<and> waits cx' ep i es"
proof -
  let ?e = "EstablishmentState_outbound cr (en_junk32 en) (en_dhKey en) (cx_privKey cx) (cx_identity cx) ep ri"
  have w: "waits (em_addState ep ?e cx) ep i ?e" using waits_new assms(1-4) by simp
  have "waits (fst (em_setTimer ep i (with_state i es (em_addState ep ?e cx)))) ep i es"
    by (intro waits_timer waits_with_state [OF w])
  then show ?thesis
    using on_state_holds [where f = "sendRequest cr (en_rn en)", OF waits_holds [OF w] assms(5)] assms(4)
    by (simp add: em_createState_outbound_def case_prod_unfold Let_def)
qed

lemma session_requested:
  assumes "cx_accepting cx" "peers_ok (cx_peers cx)" "\<not> PeerStateList_peerExists ep (cx_peers cx)" "cx_stateTable cx ep = None"
    and "j = length (cx_states cx)" and "cx_inboundKey cx = k" "open_request cr k q = Inr (Some (d, p))"
    and "handleSessionRequest d p (EstablishmentState_inbound cr (en_junk32 en) (en_dhKey en) (cx_privKey cx) (cx_identity cx) ep) =
      (es, [Es_post], None)"
  shows "\<exists>cx' out. packetReceived cr en (deliver ep q) cx = (cx', out, None) \<and> Cx_post j \<in> set out \<and> waits cx' ep j es"
proof -
  let ?e = "EstablishmentState_inbound cr (en_junk32 en) (en_dhKey en) (cx_privKey cx) (cx_identity cx) ep"
  have w: "waits (fst (em_setTimer ep j (em_addState ep ?e cx))) ep j ?e"
    using waits_new [of cx ep ?e] assms(1-5) by (intro waits_timer) simp
  show ?thesis
    using on_state_holds [where f = "handleSessionRequest d p", OF waits_holds [OF w] assms(8)] waits_with_state [OF w, of es] assms(1,3-7)
    by (simp add: packetReceived_def handlePacket_new_def em_createState_inbound_def em_getState_def open_request_deliver
        case_prod_unfold Let_def)
qed

lemma peer_at_delState [simp]: "peer_at ep (fst (em_delState ep' cx)) = peer_at ep cx"
  "SSU_isConnected rh (fst (em_delState ep' cx)) = SSU_isConnected rh cx"
  by (simp_all add: em_delState_def peer_at_def SSU_isConnected_def split: option.split)

lemma session_confirm:
  assumes w: "waits cx ep i es" and ps: "ps_endpoint ps = ep"
    and "stateChanged cr (en_rn en) es = (es', [Es_add_peer ps, Es_send q, Es_post], None)"
    and "stateChanged cr (en_rn en') es' = (es', [Es_established rh False, Es_del_state ep], None)"
  shows "\<exists>cx1 out cx2 out'. em_stateChanged cr en i cx = (cx1, out, None) \<and> Cx_send q \<in> set out \<and> Cx_post i \<in> set out \<and>
    em_stateChanged cr en' i cx1 = (cx2, out', None) \<and> Cx_established rh False \<in> set out' \<and>
    SSU_isConnected (ps_routerHash ps) cx2 \<and> peer_at ep cx2 = Some ps"
proof -
  let ?c = "with_state i es' cx"
  let ?c1 = "?c\<lparr>cx_peers := PeerStateList_addPeer (en_now en) ps (cx_peers ?c)\<rparr>"
  have w': "waits ?c ep i es'" by (rule waits_with_state [OF w])
  note p = peer_at_addPeer [OF w' ps, of "en_now en"]
  have h: "holds ?c1 i es'" using waits_holds [OF w'] by (simp add: holds_def)
  then have "with_state i es' ?c1 = ?c1" by (simp add: holds_def with_state_def list_update_same_conv)
  with p show ?thesis
    using on_state_holds [where f = "stateChanged cr (en_rn en)", OF waits_holds [OF w] assms(3)] on_state_holds [where f = "stateChanged cr (en_rn en')", OF h assms(4)]
    by (simp add: em_stateChanged_def case_prod_unfold Let_def)
qed

lemma session_confirmed:
  assumes w: "waits cx ep i es" and ps: "ps_endpoint ps = ep"
    and "stateChanged cr (en_rn en) es = (es, [Es_add_peer ps, Es_del_state ep, Es_established rh True], None)"
  shows "\<exists>cx1 out. em_stateChanged cr en i cx = (cx1, out, None) \<and> Cx_established rh True \<in> set out \<and>
    SSU_isConnected (ps_routerHash ps) cx1 \<and> peer_at ep cx1 = Some ps"
  using on_state_holds [where f = "stateChanged cr (en_rn en)", OF waits_holds [OF w] assms(3)] peer_at_addPeer [OF waits_with_state [OF w, of es] ps]
  by (simp add: em_stateChanged_def case_prod_unfold Let_def)

lemma session_run:
  assumes cr: "crypto_ok cr" and idA: "router_ok cr (cx_privKey cxA) (cx_identity cxA)"
    and idB: "router_ok cr (cx_privKey cxB) (cx_identity cxB)" and ep: "Endpoint_wf epA" "Endpoint_wf epB"
    and keyB: "cx_inboundKey cxB = identity_hash cr (cx_identity cxB)"
    and A: "cx_accepting cxA" "peers_ok (cx_peers cxA)" "\<not> PeerStateList_peerExists epB (cx_peers cxA)"
    and B: "cx_accepting cxB" "peers_ok (cx_peers cxB)" "\<not> PeerStateList_peerExists epA (cx_peers cxB)"
      "cx_stateTable cxB epA = None"
    and rn: "length (rn_iv (en_rn a1)) = 16" "length (rn_sigiv (en_rn b2)) = 16" "length (rn_iv (en_rn a3)) = 16"
    and i: "i = length (cx_states cxA)" and j: "j = length (cx_states cxB)"
  shows "\<exists>cA1 o1 cB1 p1 cB2 p2 cA2 o2 cA3 o3 cA4 o4 cB3 p3 cB4 p4 q1 q2 q3 psA psB.
    em_createState_outbound cr a1 epB (cx_identity cxB) cxA = (cA1, o1, None) \<and> Cx_send q1 \<in> set o1 \<and>
    packetReceived cr b1 (deliver epA q1) cxB = (cB1, p1, None) \<and> Cx_post j \<in> set p1 \<and>
    em_stateChanged cr b2 j cB1 = (cB2, p2, None) \<and> Cx_send q2 \<in> set p2 \<and>
    packetReceived cr a2 (deliver epB q2) cA1 = (cA2, o2, None) \<and> Cx_post i \<in> set o2 \<and>
    em_stateChanged cr a3 i cA2 = (cA3, o3, None) \<and> Cx_send q3 \<in> set o3 \<and> Cx_post i \<in> set o3 \<and>
    em_stateChanged cr a4 i cA3 = (cA4, o4, None) \<and>
    packetReceived cr b3 (deliver epA q3) cB2 = (cB3, p3, None) \<and> Cx_post j \<in> set p3 \<and>
    em_stateChanged cr b4 j cB3 = (cB4, p4, None) \<and>
    Cx_established (identity_hash cr (cx_identity cxB)) False \<in> set o4 \<and>
    Cx_established (identity_hash cr (cx_identity cxA)) True \<in> set p4 \<and>
    SSU_isConnected (identity_hash cr (cx_identity cxB)) cA4 \<and> peer_at epB cA4 = Some psA \<and>
    SSU_isConnected (identity_hash cr (cx_identity cxA)) cB4 \<and> peer_at epA cB4 = Some psB \<and>
    ps_sessionKey psA = ps_sessionKey psB \<and> ps_macKey psA = ps_macKey psB"
proof -
  let ?eA = "EstablishmentState_outbound cr (en_junk32 a1) (en_dhKey a1) (cx_privKey cxA) (cx_identity cxA) epB (cx_identity cxB)"
  let ?eB = "EstablishmentState_inbound cr (en_junk32 b1) (en_dhKey b1) (cx_privKey cxB) (cx_identity cxB) epA"
  from handshake_run [OF cr idA idB ep rn refl refl, of "en_junk32 a1" "en_dhKey a1" "en_junk32 b1" "en_dhKey b1" "en_rn a4" "en_rn b4"]
  obtain eA1 q1 d1 p1 eB1 eB2 q2 eA2 eA3 psA q3 eB3 psB where
    h1: "sendRequest cr (en_rn a1) ?eA = (eA1, [Es_send q1, Es_post], None)"
    and h2: "open_request cr (identity_hash cr (cx_identity cxB)) q1 = Inr (Some (d1, p1))"
      "handleSessionRequest d1 p1 ?eB = (eB1, [Es_post], None)"
    and h3: "stateChanged cr (en_rn b2) eB1 = (eB2, [Es_send q2, Es_post], None)"
    and h4: "handlePacket_establishing cr q2 eA1 = (eA2, [Es_post], None)"
    and h5: "stateChanged cr (en_rn a3) eA2 = (eA3, [Es_add_peer psA, Es_send q3, Es_post], None)"
    and h6: "stateChanged cr (en_rn a4) eA3 = (eA3, [Es_established (identity_hash cr (cx_identity cxB)) False, Es_del_state epB], None)"
    and h7: "handlePacket_establishing cr q3 eB2 = (eB3, [Es_post], None)"
    and h8: "stateChanged cr (en_rn b4) eB3 = (eB3, [Es_add_peer psB, Es_del_state epA,
        Es_established (identity_hash cr (cx_identity cxA)) True], None)"
    and ps: "ps_sessionKey psA = ps_sessionKey psB" "ps_macKey psA = ps_macKey psB"
      "ps_routerHash psA = identity_hash cr (cx_identity cxB)" "ps_endpoint psA = epB"
      "ps_routerHash psB = identity_hash cr (cx_identity cxA)" "ps_endpoint psB = epA"
    by (elim exE conjE) (rule that; assumption)
  obtain cA1 o1 where s1: "em_createState_outbound cr a1 epB (cx_identity cxB) cxA = (cA1, o1, None)"
    "Cx_send q1 \<in> set o1" "waits cA1 epB i eA1"
    using session_request [OF A i h1] by blast
  obtain cB1 p1 where s2: "packetReceived cr b1 (deliver epA q1) cxB = (cB1, p1, None)" "Cx_post j \<in> set p1"
    "waits cB1 epA j eB1"
    using session_requested [OF B j keyB h2] by blast
  let ?cB2 = "with_state j eB2 cB1" and ?cA2 = "with_state i eA2 cA1" and ?cB3 = "with_state j eB3 (with_state j eB2 cB1)"
  have s3: "em_stateChanged cr b2 j cB1 = (?cB2, [Cx_send q2, Cx_post j], None)" "waits ?cB2 epA j eB2"
    using on_state_holds [where f = "stateChanged cr (en_rn b2)", OF waits_holds [OF s2(3)] h3] waits_with_state [OF s2(3)] by (simp_all add: em_stateChanged_def)
  have s4: "packetReceived cr a2 (deliver epB q2) cA1 = (?cA2, [Cx_post i], None)" "waits ?cA2 epB i eA2"
    using on_state_holds [where f = "handlePacket_establishing cr q2", OF waits_holds [OF s1(3)] h4] packet_waits [OF s1(3)] waits_with_state [OF s1(3)] by simp_all
  have s7: "packetReceived cr b3 (deliver epA q3) ?cB2 = (?cB3, [Cx_post j], None)" "waits ?cB3 epA j eB3"
    using on_state_holds [where f = "handlePacket_establishing cr q3", OF waits_holds [OF s3(2)] h7] packet_waits [OF s3(2)] waits_with_state [OF s3(2)] by simp_all
  obtain cA3 o3 cA4 o4 where s5: "em_stateChanged cr a3 i ?cA2 = (cA3, o3, None)" "Cx_send q3 \<in> set o3" "Cx_post i \<in> set o3"
    "em_stateChanged cr a4 i cA3 = (cA4, o4, None)" "Cx_established (identity_hash cr (cx_identity cxB)) False \<in> set o4"
    "SSU_isConnected (ps_routerHash psA) cA4" "peer_at epB cA4 = Some psA"
    using session_confirm [OF s4(2) ps(4) h5 h6] by blast
  obtain cB4 p4 where s8: "em_stateChanged cr b4 j ?cB3 = (cB4, p4, None)"
    "Cx_established (identity_hash cr (cx_identity cxA)) True \<in> set p4"
    "SSU_isConnected (ps_routerHash psB) cB4" "peer_at epA cB4 = Some psB"
    using session_confirmed [OF s7(2) ps(6) h8] by blast
  have m: "Cx_send q2 \<in> set [Cx_send q2, Cx_post j]" "Cx_post i \<in> set [Cx_post i]" "Cx_post j \<in> set [Cx_post j]"
    by simp_all
  show ?thesis
    by (intro exI conjI) (rule s1 s2 s3 s4 s5 [unfolded ps(3)] s7 s8 [unfolded ps(5)] ps(1,2) m)+
qed

subsection \<open>Properties\<close>

text \<open>C3. A message of at most 127 fragments handed to the transport of one router, with the packets of
  its fragments reaching the transport of a router that holds the same session keys, whatever packets
  get through, in whatever order and however often. If its length is not a multiple of 1120, the receiver
  announces exactly the message, under the hash of the sender's session, when the last missing fragment
  arrives and once more for every later duplicate, and nothing before. If it is a multiple of 1120, the
  message is never announced.\<close>

theorem ssu_end_to_end:
  assumes cr: "crypto_ok cr" and env: "\<And>i. env_for cr (env i)"
    and A: "PeerStateList_getPeer_hash rhB (cx_peers cxA) = Inr psB" "smap_find (mt_omf (cx_tables cxA)) msgId = None"
    and B: "peer_at epA cxB = Some psA" "imf_state msgId (cx_tables cxB) = None"
    and keys: "ps_sessionKey psA = ps_sessionKey psB" "ps_macKey psA = ps_macKey psB" "keys_ok psB"
    and data: "data \<noteq> []" "length data \<le> 127 * 1120" and n: "n = length (pieces data)" and js: "set js \<subseteq> {..<n}"
  shows "\<exists>cxA' qs t'. SSU_send rhB msgId data cxA =
      (cxA', [Cx_data (Arm_resend psB msgId), Cx_data (Post_sendData psB msgId)], None) \<and>
    send_run env psB msgId n (cx_tables cxA') = (t', concat (map (send_out psB msgId n qs) [0..<n])) \<and>
    data_outs (snd (receive_run cr en (map (\<lambda>j. Packet_make epA (pk_data (qs ! j))) js) cxB)) =
      replicate (length (filter (\<lambda>i. length data mod 1120 \<noteq> 0 \<and> set (take (Suc i) js) = {..<n}) [0..<length js]))
        (Post_received (ps_routerHash psA) msgId data)"
proof -
  obtain cxA' where send: "SSU_send rhB msgId data cxA =
      (cxA', [Cx_data (Arm_resend psB msgId), Cx_data (Post_sendData psB msgId)], None)"
    and start: "smap_find (mt_omf (cx_tables cxA')) msgId = Some (OutboundMessageState_make msgId data)"
    using SSU_send_new [OF A] by blast
  obtain qs t' where run: "send_run env psB msgId n (cx_tables cxA') = (t', concat (map (send_out psB msgId n qs) [0..<n]))"
    and qs: "\<And>i. i < n \<Longrightarrow> carries (env i) psB (piece_fragment msgId (pieces data ! i) i) (qs ! i)"
    using send_run_sends [where env = env, OF env_for_ok [OF cr env] keys(3) data(1) _ start order_refl] data(2) n by auto
  let ?f = "\<lambda>j. piece_fragment msgId (pieces data ! j) j"
  have size: "length (sf_data (?f j)) \<le> 16383" if "j < n" for j
    using that by (simp add: piece_fragment_def n pieces_def)
  have "\<forall>j \<in> set js. \<exists>p. buildData (se_time (env j)) (ps_endpoint psB) False [] [] [?f j] = Inr p \<and>
      opens cr epA psA (Packet_make epA (pk_data (qs ! j))) (pad16 (pk_data p)) \<and>
      read_header (pad16 (pk_data p)) = Inr (payload_code DATA, 5)"
    using carries_opens [OF cr env qs size keys] js by auto
  then obtain pk where pk: "\<And>j. j \<in> set js \<Longrightarrow> buildData (se_time (env j)) (ps_endpoint psB) False [] [] [?f j] = Inr (pk j)"
    "\<And>j. j \<in> set js \<Longrightarrow> opens cr epA psA (Packet_make epA (pk_data (qs ! j))) (pad16 (pk_data (pk j)))"
    "\<And>j. j \<in> set js \<Longrightarrow> read_header (pad16 (pk_data (pk j))) = Inr (payload_code DATA, 5)"
    by metis
  let ?bufs = "map (\<lambda>p. pad16 (pk_data p)) (map pk js)"
  obtain out where out: "OutboundMessageState_fragment (OutboundMessageState_make msgId data) = Inr out"
    "om_fragments out = map (\<lambda>i. (?f i, FragmentFlags_make)) [0..<n]"
    using data(2) n by (auto simp: fragment_make)
  have "list_all2 (\<lambda>j p. \<exists>ts ep. buildData ts ep False [] [] [fst (om_fragments out ! j)] = Inr p) js (map pk js)"
    unfolding list_all2_map2 list_all2_same using pk(1) js by (fastforce simp: out(2))
  then have "snd (receive_packets (en_junk8 en) (ps_routerHash psA) ?bufs (cx_tables cxB)) =
      replicate (length (filter (\<lambda>i. length data mod 1120 \<noteq> 0 \<and> set (take (Suc i) js) = {..<n}) [0..<length js]))
        (Post_received (ps_routerHash psA) msgId data)"
    using message_delivery [OF data out(1) _ _ B(2), of js "map pk js" "en_junk8 en" "ps_routerHash psA"] js
    by (auto simp: out(2))
  moreover have "list_all2 (opens cr epA psA) (map (\<lambda>j. Packet_make epA (pk_data (qs ! j))) js) ?bufs"
    using pk(2) by (simp add: list_all2_map1 list_all2_map2 list_all2_same)
  from receive_run_data [OF B(1) this, of en] pk(3)
  have "data_outs (snd (receive_run cr en (map (\<lambda>j. Packet_make epA (pk_data (qs ! j))) js) cxB)) =
      snd (receive_packets (en_junk8 en) (ps_routerHash psA) ?bufs (cx_tables cxB))" by auto
  ultimately show ?thesis using send run by (intro exI conjI) auto
qed

text \<open>C1. One transport opens a session with another, and the network carries each packet to the other
  side: the request, the creation and the confirmation are accepted as they arrive, and after the
  queued handlers have run both sides have announced the session and hold it, each under the router
  hash of the other, at the other's endpoint, with the same session key and the same MAC key.\<close>

theorem ssu_connects:
  assumes cr: "crypto_ok cr" and idA: "router_ok cr (cx_privKey cxA) (cx_identity cxA)"
    and idB: "router_ok cr (cx_privKey cxB) (cx_identity cxB)" and ep: "Endpoint_wf epA" "Endpoint_wf epB"
    and keyB: "cx_inboundKey cxB = identity_hash cr (cx_identity cxB)"
    and A: "cx_accepting cxA" "peers_ok (cx_peers cxA)" "\<not> PeerStateList_peerExists epB (cx_peers cxA)"
    and B: "cx_accepting cxB" "peers_ok (cx_peers cxB)" "\<not> PeerStateList_peerExists epA (cx_peers cxB)"
      "cx_stateTable cxB epA = None"
    and rn: "length (rn_iv (en_rn a1)) = 16" "length (rn_sigiv (en_rn b2)) = 16" "length (rn_iv (en_rn a3)) = 16"
    and i: "i = length (cx_states cxA)" and j: "j = length (cx_states cxB)"
  shows "\<exists>cA1 o1 cB1 p1 cB2 p2 cA2 o2 cA3 o3 cA4 o4 cB3 p3 cB4 p4 q1 q2 q3 psA psB.
    em_createState_outbound cr a1 epB (cx_identity cxB) cxA = (cA1, o1, None) \<and> Cx_send q1 \<in> set o1 \<and>
    packetReceived cr b1 (deliver epA q1) cxB = (cB1, p1, None) \<and> Cx_post j \<in> set p1 \<and>
    em_stateChanged cr b2 j cB1 = (cB2, p2, None) \<and> Cx_send q2 \<in> set p2 \<and>
    packetReceived cr a2 (deliver epB q2) cA1 = (cA2, o2, None) \<and> Cx_post i \<in> set o2 \<and>
    em_stateChanged cr a3 i cA2 = (cA3, o3, None) \<and> Cx_send q3 \<in> set o3 \<and> Cx_post i \<in> set o3 \<and>
    em_stateChanged cr a4 i cA3 = (cA4, o4, None) \<and>
    packetReceived cr b3 (deliver epA q3) cB2 = (cB3, p3, None) \<and> Cx_post j \<in> set p3 \<and>
    em_stateChanged cr b4 j cB3 = (cB4, p4, None) \<and>
    Cx_established (identity_hash cr (cx_identity cxB)) False \<in> set o4 \<and>
    Cx_established (identity_hash cr (cx_identity cxA)) True \<in> set p4 \<and>
    SSU_isConnected (identity_hash cr (cx_identity cxB)) cA4 \<and> peer_at epB cA4 = Some psA \<and>
    SSU_isConnected (identity_hash cr (cx_identity cxA)) cB4 \<and> peer_at epA cB4 = Some psB \<and>
    ps_sessionKey psA = ps_sessionKey psB \<and> ps_macKey psA = ps_macKey psB"
  by (rule session_run [OF assms])

text \<open>C2. In every state the transport can reach, whatever packets arrive and in whatever order the
  handlers run: each session it holds is filed under its own hash, and the router with that hash
  signed the Diffie-Hellman exchange from which the keys of that session were derived; no two
  sessions share a hash or an endpoint; and each entry of the establishment table points to a state
  for that endpoint.\<close>

theorem authenticated_peers:
  assumes "ssu_reachable cr privKey ri cx"
  shows "peers_ok (cx_peers cx) \<and>
    (\<forall>rh ps. PeerStateList_getPeer_hash rh (cx_peers cx) = Inr ps \<longrightarrow> ps_routerHash ps = rh \<and> proven cr ps) \<and>
    (\<forall>ep i. cx_stateTable cx ep = Some i \<longrightarrow>
       i < length (cx_states cx) \<and> es_theirEndpoint (cx_states cx ! i) = ep)"
proof -
  have inv: "ctx_inv cr cx" by (rule reachable_inv [OF assms])
  then have ok: "peers_ok (cx_peers cx)" by (simp add: ctx_inv_def peers_proven_def)
  have "ps_routerHash ps = rh \<and> proven cr ps" if "PeerStateList_getPeer_hash rh (cx_peers cx) = Inr ps" for rh ps
    using that inv
    by (auto simp: PeerStateList_getPeer_hash_def ctx_inv_def peers_proven_def by_hash_Some pc_hash_def split: option.splits)
  with inv ok show ?thesis by (auto simp: ctx_inv_def states_ok_def)
qed

subsection \<open>Instances\<close>

definition sample_entropy :: entropy where
  "sample_entropy = \<lparr>en_now = 0, en_rn = toy_randomness, en_dhKey = [1], en_junk32 = 0, en_junk8 = 0\<rparr>"

definition sample_context :: "byte \<Rightarrow> Context" where
  "sample_context b = Context_make toy_crypto [b] (toy_identity b)"

lemma sample_context_simps [simp]:
  "cx_privKey (sample_context b) = [b]" "cx_identity (sample_context b) = toy_identity b"
  "cx_inboundKey (sample_context b) = identity_hash toy_crypto (toy_identity b)" "cx_accepting (sample_context b)"
  "cx_peers (sample_context b) = []" "cx_states (sample_context b) = []" "cx_stateTable (sample_context b) ep = None"
  "cx_tables (sample_context b) = empty_tables"
  by (simp_all add: sample_context_def Context_make_def empty_tables_def)

lemma no_peers [simp]: "peers_ok []" "\<not> PeerStateList_peerExists ep []"
  by (simp_all add: peers_ok_def PeerStateList_peerExists_def by_endpoint_def)

lemma sample_entropy_ok: "length (rn_iv (en_rn sample_entropy)) = 16" "length (rn_sigiv (en_rn sample_entropy)) = 16"
  by (simp_all add: sample_entropy_def toy_randomness_ok)

theorem ssu_connects_witness:
  "\<exists>cA1 o1 q1 cB1 p1. em_createState_outbound toy_crypto sample_entropy sample_endpoint (toy_identity 9) (sample_context 7) =
      (cA1, o1, None) \<and> Cx_send q1 \<in> set o1 \<and>
    packetReceived toy_crypto sample_entropy (deliver sample_endpoint q1) (sample_context 9) = (cB1, p1, None) \<and>
    Cx_post 0 \<in> set p1"
  using ssu_connects [where cr = toy_crypto and cxA = "sample_context 7" and cxB = "sample_context 9" and epA = sample_endpoint
      and epB = sample_endpoint and ?a1.0 = sample_entropy and ?b1.0 = sample_entropy and ?b2.0 = sample_entropy
      and ?a3.0 = sample_entropy and i = 0 and j = 0]
  by (simp add: toy_crypto_ok toy_router_ok toy_endpoint_ok sample_entropy_ok) blast

lemma sample_env_for: "env_for toy_crypto sample_ssu_env"
  by (simp add: env_for_def toy_crypto_def sample_ssu_env_def)

theorem ssu_end_to_end_witness:
  "let cx = (sample_context 7)\<lparr>cx_peers := [peer_container 0 sample_peer]\<rparr>
   in \<exists>cx' qs t'. SSU_send [1, 1] 5 [8, 8] cx =
        (cx', [Cx_data (Arm_resend sample_peer 5), Cx_data (Post_sendData sample_peer 5)], None) \<and>
      send_run (\<lambda>_. sample_ssu_env) sample_peer 5 1 (cx_tables cx') = (t', [Send_packet (qs ! 0)]) \<and>
      data_outs (snd (receive_run toy_crypto sample_entropy [Packet_make sample_endpoint (pk_data (qs ! 0))] cx)) =
        [Post_received [1, 1] 5 [8, 8]]"
proof -
  let ?cx = "(sample_context 7)\<lparr>cx_peers := [peer_container 0 sample_peer]\<rparr>"
  have n: "1 = length (pieces [8, 8])" by (simp add: pieces_step)
  have peer: "PeerStateList_getPeer_hash [1, 1] (cx_peers ?cx) = Inr sample_peer" "peer_at sample_endpoint ?cx = Some sample_peer"
    by (simp_all add: PeerStateList_getPeer_hash_def by_hash_def peer_at_def by_endpoint_def sample_peer_simps)
  have new: "smap_find (mt_omf (cx_tables ?cx)) 5 = None" "imf_state 5 (cx_tables ?cx) = None"
    by (simp_all add: empty_tables_def smap_find_def imf_state_def imf_find_def)
  show ?thesis
    using ssu_end_to_end [where env = "\<lambda>_. sample_ssu_env" and data = "[8, 8]" and js = "[0]" and en = sample_entropy,
        OF toy_crypto_ok sample_env_for peer(1) new(1) peer(2) new(2) refl refl sample_keys_ok _ _ n]
    by (auto simp: send_out_def sample_peer_simps lessThan_Suc Let_def simp del: receive_run.simps send_run.simps)
qed

text \<open>A reachable transport with a session.\<close>

lemma sample_reachable:
  "\<exists>cx. ssu_reachable toy_crypto [9] (toy_identity 9) cx \<and> SSU_isConnected (identity_hash toy_crypto (toy_identity 7)) cx"
proof -
  have init: "ssu_reachable toy_crypto [9] (toy_identity 9) (sample_context 9)"
    unfolding sample_context_def by (rule reach_init)
  obtain q1 cB1 p1 cB2 p2 q3 cB3 p3 cB4 p4 where
    "packetReceived toy_crypto sample_entropy (deliver sample_endpoint q1) (sample_context 9) = (cB1, p1, None)"
    "em_stateChanged toy_crypto sample_entropy 0 cB1 = (cB2, p2, None)"
    "packetReceived toy_crypto sample_entropy (deliver sample_endpoint q3) cB2 = (cB3, p3, None)"
    "em_stateChanged toy_crypto sample_entropy 0 cB3 = (cB4, p4, None)"
    and conn: "SSU_isConnected (identity_hash toy_crypto (toy_identity 7)) cB4"
    using session_run [where cr = toy_crypto and cxA = "sample_context 7" and cxB = "sample_context 9" and epA = sample_endpoint
        and epB = sample_endpoint and ?a1.0 = sample_entropy and ?b1.0 = sample_entropy and ?b2.0 = sample_entropy
        and ?b3.0 = sample_entropy and ?b4.0 = sample_entropy and ?a3.0 = sample_entropy and ?a2.0 = sample_entropy
        and ?a4.0 = sample_entropy and i = 0 and j = 0]
    by (simp add: toy_crypto_ok toy_router_ok toy_endpoint_ok sample_entropy_ok) (elim exE conjE, rule that; assumption)
  then have "ssu_step toy_crypto (sample_context 9) p1 cB1" "ssu_step toy_crypto cB1 p2 cB2"
    "ssu_step toy_crypto cB2 p3 cB3" "ssu_step toy_crypto cB3 p4 cB4"
    by (auto intro: step_packet step_changed)
  from reach_step [OF reach_step [OF reach_step [OF reach_step [OF init this(1)] this(2)] this(3)] this(4)] conn
  show ?thesis by blast
qed

theorem authenticated_peers_witness:
  "\<exists>(cx :: Context) ps. PeerStateList_getPeer_hash (identity_hash toy_crypto (toy_identity 7)) (cx_peers cx) = Inr ps \<and> proven toy_crypto ps"
proof -
  obtain cx where cx: "ssu_reachable toy_crypto [9] (toy_identity 9) cx"
    "SSU_isConnected (identity_hash toy_crypto (toy_identity 7)) cx" using sample_reachable by blast
  then obtain ps where "PeerStateList_getPeer_hash (identity_hash toy_crypto (toy_identity 7)) (cx_peers cx) = Inr ps"
    by (auto simp: SSU_isConnected_def PeerStateList_peerExists_hash_def PeerStateList_getPeer_hash_def)
  moreover from this have "proven toy_crypto ps" using authenticated_peers [OF cx(1)] by simp
  ultimately show ?thesis by blast
qed

end
