(* ===== verification/Fragments.thy ===== *)
theory Fragments
  imports I2NP Crypto_Util "HOL-Library.Multiset"
begin

text \<open>
  Tunnel fragments: \<open>Fragment\<close> with its two subclasses \<open>FirstFragment\<close> and \<open>FollowOnFragment\<close>
  (extensible records), the splitting of a message by \<open>Fragment::fragmentMessage\<close>, the parser,
  and the reassembly state \<open>FragmentState\<close>.
\<close>

subsection \<open>The classes\<close>

record Fragment =
  fr_msgId :: u32
  fr_payload :: bytes

datatype DeliveryMode = LOCAL | TUNNEL | ROUTER

fun DeliveryMode_code :: "DeliveryMode \<Rightarrow> byte" where
  "DeliveryMode_code LOCAL = 0"
| "DeliveryMode_code TUNNEL = 1"
| "DeliveryMode_code ROUTER = 2"

record FirstFragment = Fragment +
  ff_mode :: DeliveryMode
  ff_fragmented :: bool
  ff_tunnelId :: u32
  ff_toHash :: bytes

record FollowOnFragment = Fragment +
  fo_fragNum :: byte
  fo_isLast :: bool

datatype AnyFragment = First FirstFragment | FollowOn FollowOnFragment

definition Fragment_setMsgId :: "u32 \<Rightarrow> 'a Fragment_scheme \<Rightarrow> 'a Fragment_scheme" where
  "Fragment_setMsgId i f = f\<lparr>fr_msgId := i\<rparr>"

text \<open>A default-constructed first fragment; the tunnel id and the hash are uninitialised.\<close>

definition FirstFragment_default :: "u32 \<Rightarrow> bytes \<Rightarrow> FirstFragment" where
  "FirstFragment_default junkT junkH =
     \<lparr>fr_msgId = 0, fr_payload = [], ff_mode = LOCAL, ff_fragmented = False, ff_tunnelId = junkT,
      ff_toHash = junkH\<rparr>"

definition FirstFragment_setFragmented :: "bool \<Rightarrow> FirstFragment \<Rightarrow> FirstFragment" where
  "FirstFragment_setFragmented b f = f\<lparr>ff_fragmented := b\<rparr>"

definition FirstFragment_headerSize :: "FirstFragment \<Rightarrow> nat result" where
  "FirstFragment_headerSize f =
     (case ff_mode f of
        LOCAL \<Rightarrow> Inr (if \<not> ff_fragmented f then 3 else 7)
      | TUNNEL \<Rightarrow> Inr (if \<not> ff_fragmented f then 39 else 43)
      | ROUTER \<Rightarrow> Inl (Logic_error ''Unimplemented FirstFragment delivery mode''))"

definition FollowOnFragment_headerSize :: "FollowOnFragment \<Rightarrow> nat" where
  "FollowOnFragment_headerSize f = 7"

text \<open>\<open>setPayload\<close> for a given \<open>headerSize()\<close>; the second component is the advanced \<open>begin\<close>.\<close>

definition Fragment_setPayload ::
  "nat \<Rightarrow> bytes \<Rightarrow> nat \<Rightarrow> 'a Fragment_scheme \<Rightarrow> 'a Fragment_scheme \<times> bytes" where
  "Fragment_setPayload headerLen rest maxSize f =
     (let payloadLen = (if maxSize < headerLen + length rest then maxSize - headerLen else length rest)
      in (f\<lparr>fr_payload := take payloadLen rest\<rparr>, drop payloadLen rest))"

text \<open>\<open>size()\<close>, a \<open>uint16_t\<close>.\<close>

fun Fragment_size :: "AnyFragment \<Rightarrow> u16 result" where
  "Fragment_size (First f) = ebind (FirstFragment_headerSize f) (\<lambda>h. Inr (of_nat (h + length (fr_payload f))))"
| "Fragment_size (FollowOn f) = Inr (of_nat (FollowOnFragment_headerSize f + length (fr_payload f)))"

definition FirstFragment_mustFragment :: "u16 \<Rightarrow> nat \<Rightarrow> FirstFragment \<Rightarrow> bool result" where
  "FirstFragment_mustFragment desiredSize maxSize f =
     ebind (FirstFragment_headerSize f) (\<lambda>h. Inr (maxSize < h + unat desiredSize))"

definition FollowOnFragment_make :: "u32 \<Rightarrow> byte \<Rightarrow> FollowOnFragment result" where
  "FollowOnFragment_make msgId n =
     ebind (require (n \<le> 63) (Runtime_error ''too many fragments!'')) (\<lambda>_.
     Inr \<lparr>fr_msgId = msgId, fr_payload = [], fo_fragNum = n, fo_isLast = False\<rparr>)"

definition FollowOnFragment_setLast :: "bool \<Rightarrow> FollowOnFragment \<Rightarrow> FollowOnFragment" where
  "FollowOnFragment_setLast b f = f\<lparr>fo_isLast := b\<rparr>"

subsection \<open>Wire format\<close>

definition FirstFragment_compile :: "FirstFragment \<Rightarrow> bytes" where
  "FirstFragment_compile f =
     [push_bit 5 (DeliveryMode_code (ff_mode f)) OR push_bit 3 (of_bool (ff_fragmented f))] @
     (if ff_mode f = TUNNEL then be32 (ff_tunnelId f) @ ff_toHash f else []) @
     (if ff_fragmented f then be32 (fr_msgId f) else []) @
     be16 (of_nat (length (fr_payload f))) @ fr_payload f"

definition FirstFragment_parse :: "u32 \<Rightarrow> nat \<Rightarrow> FirstFragment parser" where
  "FirstFragment_parse junkT e =
     pbind next_byte (\<lambda>flag.
     let mode = drop_bit 5 flag AND 0x03; fragmented = (flag AND push_bit 3 1 \<noteq> 0) in
     pbind (if mode = 1
            then pbind parseUint32 (\<lambda>tid. pbind (next_bytes 32) (\<lambda>h. preturn (TUNNEL, tid, h)))
            else if mode = 2
            then pbind (next_bytes 32) (\<lambda>h. preturn (ROUTER, junkT, h))
            else praise (Runtime_error ''unhandled first fragment delivery mode'')) (\<lambda>(m, tid, h).
     pbind (if fragmented then parseUint32 else preturn 0) (\<lambda>msgId.
     pbind parseUint16 (\<lambda>size.
     pbind (need e (unat size) (Runtime_error ''malformed first fragment'')) (\<lambda>_.
     pbind (next_bytes (unat size)) (\<lambda>payload.
     preturn \<lparr>fr_msgId = msgId, fr_payload = payload, ff_mode = m, ff_fragmented = fragmented,
              ff_tunnelId = tid, ff_toHash = h\<rparr>))))))"

definition FollowOnFragment_compile :: "FollowOnFragment \<Rightarrow> bytes" where
  "FollowOnFragment_compile f =
     [0x80 OR push_bit 1 (fo_fragNum f) OR of_bool (fo_isLast f)] @ be32 (fr_msgId f) @
     be16 (of_nat (length (fr_payload f))) @ fr_payload f"

definition FollowOnFragment_parse :: "nat \<Rightarrow> FollowOnFragment parser" where
  "FollowOnFragment_parse e =
     pbind next_byte (\<lambda>flag.
     pbind parseUint32 (\<lambda>msgId.
     pbind (\<lambda>buf p. ebind (FollowOnFragment_make msgId (drop_bit 1 (flag AND 0x7E))) (\<lambda>f. Inr (f, p))) (\<lambda>fof.
     pbind parseUint16 (\<lambda>size.
     pbind (need e (unat size) (Runtime_error ''malformed followon fragment'')) (\<lambda>_.
     pbind (next_bytes (unat size)) (\<lambda>payload.
     preturn (fof\<lparr>fo_isLast := (flag AND 0x01 \<noteq> 0), fr_payload := payload\<rparr>)))))))"

fun Fragment_compile :: "AnyFragment \<Rightarrow> bytes" where
  "Fragment_compile (First f) = FirstFragment_compile f"
| "Fragment_compile (FollowOn f) = FollowOnFragment_compile f"

text \<open>The distance is taken as a \<open>size_t\<close>: a \<open>begin\<close> behind \<open>end\<close> passes the check.\<close>

definition Fragment_parse :: "u32 \<Rightarrow> nat \<Rightarrow> AnyFragment parser" where
  "Fragment_parse junkT e buf p =
     (if p \<le> e \<and> e < p + 3 then Inl (Runtime_error ''could not parse fragment'')
      else ebind (next_byte buf p) (\<lambda>(flag, _).
        if flag AND 0x80 \<noteq> 0
        then pbind (FollowOnFragment_parse e) (\<lambda>f. preturn (FollowOn f)) buf p
        else pbind (FirstFragment_parse junkT e) (\<lambda>f. preturn (First f)) buf p))"

subsection \<open>fragmentMessage\<close>

text \<open>The loop over the follow-on fragments: \<open>fragNum\<close> is a \<open>uint8_t\<close>, \<open>rest\<close> is \<open>[pos, end)\<close>.\<close>

function fragment_loop :: "u32 \<Rightarrow> byte \<Rightarrow> bytes \<Rightarrow> FollowOnFragment list result" where
  "fragment_loop msgId fragNum rest =
     (if rest = [] then Inr []
      else ebind (FollowOnFragment_make msgId fragNum) (\<lambda>followup.
        let (followup, rest') = Fragment_setPayload (FollowOnFragment_headerSize followup) rest 1003 followup;
            followup = (if rest' = [] then FollowOnFragment_setLast True followup else followup)
        in ebind (fragment_loop msgId (fragNum + 1) rest') (\<lambda>fs. Inr (followup # fs))))"
  by pat_completeness auto
termination
  by (relation "measure (\<lambda>(m, n, rest). length rest)")
    (auto simp: Fragment_setPayload_def FollowOnFragment_headerSize_def Let_def split: if_splits)

declare fragment_loop.simps [simp del]

definition fragmentMessage :: "u32 \<Rightarrow> u32 \<Rightarrow> bytes \<Rightarrow> bytes \<Rightarrow> AnyFragment list result" where
  "fragmentMessage rndMsgId junkT junkH data =
     (let first = FirstFragment_default junkT junkH in
      ebind (FirstFragment_mustFragment (of_nat (length data)) 1003 first) (\<lambda>must.
      if must
      then let first = Fragment_setMsgId rndMsgId (FirstFragment_setFragmented True first) in
           ebind (FirstFragment_headerSize first) (\<lambda>h.
           let (first, rest) = Fragment_setPayload h data 1003 first in
           ebind (fragment_loop rndMsgId 1 rest) (\<lambda>fs. Inr (First first # map FollowOn fs)))
      else ebind (FirstFragment_headerSize first) (\<lambda>h.
           Inr [First (fst (Fragment_setPayload h data 1003 first))])))"

subsection \<open>FragmentState\<close>

text \<open>\<open>fs_timer\<close> tells whether a timer was set.\<close>

record FragmentState =
  fs_lastFragNum :: byte
  fs_firstFragment :: "FirstFragment option"
  fs_followOnFragments :: "FollowOnFragment list"
  fs_timer :: bool

definition FragmentState_default :: FragmentState where
  "FragmentState_default =
     \<lparr>fs_lastFragNum = 0, fs_firstFragment = None, fs_followOnFragments = [], fs_timer = False\<rparr>"

definition FragmentState_setFirstFragment :: "FirstFragment \<Rightarrow> FragmentState \<Rightarrow> FragmentState result" where
  "FragmentState_setFirstFragment f s =
     (case fs_firstFragment s of
        None \<Rightarrow> Inr (s\<lparr>fs_firstFragment := Some f\<rparr>)
      | Some _ \<Rightarrow> Inl (Runtime_error ''multiple first fragments in state''))"

definition FragmentState_addFollowOnFragment ::
  "FollowOnFragment \<Rightarrow> FragmentState \<Rightarrow> FragmentState result" where
  "FragmentState_addFollowOnFragment f s =
     ebind (if fo_isLast f
            then ebind (require (fs_lastFragNum s = 0)
                   (Runtime_error ''multiple last fragments with the same fragment number in state'')) (\<lambda>_.
                 Inr (s\<lparr>fs_lastFragNum := fo_fragNum f\<rparr>))
            else Inr s) (\<lambda>s.
     Inr (if list_all (\<lambda>x. fo_fragNum x \<noteq> fo_fragNum f) (fs_followOnFragments s)
          then s\<lparr>fs_followOnFragments := fs_followOnFragments s @ [f]\<rparr> else s))"

definition FragmentState_isComplete :: "FragmentState \<Rightarrow> bool" where
  "FragmentState_isComplete s =
     (case fs_firstFragment s of
        None \<Rightarrow> False
      | Some f \<Rightarrow> \<not> ff_fragmented f \<or>
          (fs_lastFragNum s \<noteq> 0 \<and> length (fs_followOnFragments s) = unat (fs_lastFragNum s)))"

text \<open>\<open>compile\<close> sorts the list in place and dereferences the first fragment.\<close>

definition FragmentState_compile :: "FragmentState \<Rightarrow> (bytes \<times> FragmentState) result" where
  "FragmentState_compile s =
     (let sorted = sort_key (\<lambda>f. unat (fo_fragNum f)) (fs_followOnFragments s) in
      case fs_firstFragment s of
        None \<Rightarrow> Inl Null_dereference
      | Some f \<Rightarrow> Inr (fr_payload f @ concat (map fr_payload sorted), s\<lparr>fs_followOnFragments := sorted\<rparr>))"

definition FragmentState_setTimer :: "FragmentState \<Rightarrow> FragmentState" where
  "FragmentState_setTimer s = s\<lparr>fs_timer := True\<rparr>"

subsection \<open>Codec laws\<close>

definition FirstFragment_wf :: "FirstFragment \<Rightarrow> bool" where
  "FirstFragment_wf f \<longleftrightarrow> ff_mode f = TUNNEL \<and> length (ff_toHash f) = 32 \<and>
     (\<not> ff_fragmented f \<longrightarrow> fr_msgId f = 0) \<and> length (fr_payload f) < 65536"

definition FollowOnFragment_wf :: "FollowOnFragment \<Rightarrow> bool" where
  "FollowOnFragment_wf f \<longleftrightarrow> fo_fragNum f \<le> 63 \<and> length (fr_payload f) < 65536"

fun AnyFragment_wf :: "AnyFragment \<Rightarrow> bool" where
  "AnyFragment_wf (First f) = FirstFragment_wf f"
| "AnyFragment_wf (FollowOn f) = FollowOnFragment_wf f"

lemma FirstFragment_par_ser:
  assumes "FirstFragment_wf f" and "has_at buf p (FirstFragment_compile f)"
    and "p + length (FirstFragment_compile f) \<le> e"
  shows "FirstFragment_parse junkT e buf p = Inr (f, p + length (FirstFragment_compile f))"
proof (cases "ff_fragmented f")
  case True
  with assms show ?thesis
    by (auto simp: FirstFragment_parse_def FirstFragment_compile_def FirstFragment_wf_def pbind_def
        next_byte_def need_ok reads preturn_def has_at_Cons unat_of_nats add.assoc dest!: sym [of _ "buf ! p"])
next
  case False
  with assms show ?thesis
    by (auto simp: FirstFragment_parse_def FirstFragment_compile_def FirstFragment_wf_def pbind_def
        next_byte_def need_ok reads preturn_def has_at_Cons unat_of_nats add.assoc dest!: sym [of _ "buf ! p"])
qed

lemma followon_flag:
  assumes "n \<le> (63 :: byte)"
  shows "drop_bit 1 ((0x80 OR push_bit 1 n OR of_bool l) AND 0x7E) = n"
    and "(0x80 OR push_bit 1 n OR of_bool l) AND 0x01 \<noteq> 0 \<longleftrightarrow> l"
proof -
  have small: "\<And>k. bit n k \<Longrightarrow> k < 6"
    using assms less_64_iff [of n] by (auto simp: word_le_nat_alt not_less [symmetric])
  have m: "bit (0x7E :: byte) k \<longleftrightarrow> 1 \<le> k \<and> k < 7" for k
    using shifted_mask [of 1 6 "0x7E" k] by (auto simp: mask_eq_exp_minus_1)
  have h: "bit (0x80 :: byte) k \<longleftrightarrow> k = 7" for k
    using shifted_mask [of 7 1 "0x80" k] by (auto simp: mask_eq_exp_minus_1)
  show "drop_bit 1 ((0x80 OR push_bit 1 n OR of_bool l) AND 0x7E) = n"
    by (rule bit_word_eqI) (auto simp: bit_simps m h simp del: no_mask_simps push_bit_Suc dest: small)
  have "x AND 1 \<noteq> 0 \<longleftrightarrow> bit x 0" for x :: byte
    by (simp add: and_one_eq bit_0 odd_iff_mod_2_eq_one)
  moreover have "bit (0x80 OR push_bit 1 n OR of_bool l) 0 \<longleftrightarrow> l"
    by (simp add: bit_0 even_or_iff)
  ultimately show "(0x80 OR push_bit 1 n OR of_bool l) AND 0x01 \<noteq> 0 \<longleftrightarrow> l" by simp
qed

lemma FollowOnFragment_par_ser:
  assumes wf: "FollowOnFragment_wf f" and at: "has_at buf p (FollowOnFragment_compile f)"
    and e: "p + length (FollowOnFragment_compile f) \<le> e"
  shows "FollowOnFragment_parse e buf p = Inr (f, p + length (FollowOnFragment_compile f))"
proof -
  define flag where "flag = 0x80 OR push_bit 1 (fo_fragNum f) OR of_bool (fo_isLast f)"
  have num: "fo_fragNum f \<le> 63" using wf by (simp add: FollowOnFragment_wf_def)
  have flag: "drop_bit 1 (flag AND 0x7E) = fo_fragNum f" "flag AND 0x01 \<noteq> 0 \<longleftrightarrow> fo_isLast f"
    using followon_flag [OF num] unfolding flag_def by blast+
  have c: "FollowOnFragment_compile f =
      flag # be32 (fr_msgId f) @ be16 (of_nat (length (fr_payload f))) @ fr_payload f"
    by (simp add: FollowOnFragment_compile_def flag_def)
  show ?thesis
    using at e wf num unfolding c
    by (auto simp: FollowOnFragment_parse_def FollowOnFragment_wf_def FollowOnFragment_make_def pbind_def
        next_byte_def need_ok reads preturn_def has_at_Cons unat_of_nats add.assoc flag
        simp del: drop_bit_and drop_bit_Suc One_nat_def)
qed

lemma flag_high_bit:
  "(0x80 OR x) AND (0x80 :: byte) \<noteq> 0"
  "(push_bit 5 (DeliveryMode_code m) OR push_bit 3 (of_bool b)) AND (0x80 :: byte) = 0"
proof -
  have "(0x80 OR x) AND (0x80 :: byte) = 0x80" by (simp add: bit_eq_iff bit_simps)
  then show "(0x80 OR x) AND (0x80 :: byte) \<noteq> 0" by simp
  show "(push_bit 5 (DeliveryMode_code m) OR push_bit 3 (of_bool b)) AND (0x80 :: byte) = 0"
    by (cases m; cases b) simp_all
qed

lemma Fragment_par_ser:
  assumes wf: "AnyFragment_wf f" and at: "has_at buf p (Fragment_compile f)"
    and e: "p + length (Fragment_compile f) \<le> e"
  shows "Fragment_parse junkT e buf p = Inr (f, p + length (Fragment_compile f))"
proof (cases f)
  case (First g)
  have "next_byte buf p =
      Inr (push_bit 5 (DeliveryMode_code (ff_mode g)) OR push_bit 3 (of_bool (ff_fragmented g)), Suc p)"
    by (rule next_byte_has_at [where xs = "tl (FirstFragment_compile g)"])
      (use at First in \<open>simp add: FirstFragment_compile_def\<close>)
  moreover have "p + 3 \<le> e" using e First by (simp add: FirstFragment_compile_def)
  ultimately show ?thesis
    using FirstFragment_par_ser [of g buf p e] wf at e First
    by (simp add: Fragment_parse_def flag_high_bit pbind_def preturn_def)
next
  case (FollowOn g)
  have "next_byte buf p = Inr (0x80 OR push_bit 1 (fo_fragNum g) OR of_bool (fo_isLast g), Suc p)"
    by (rule next_byte_has_at [where xs = "tl (FollowOnFragment_compile g)"])
      (use at FollowOn in \<open>simp add: FollowOnFragment_compile_def\<close>)
  moreover have "p + 3 \<le> e" using e FollowOn by (simp add: FollowOnFragment_compile_def)
  ultimately show ?thesis
    using FollowOnFragment_par_ser [of g buf p e] wf at e FollowOn
    by (simp add: Fragment_parse_def flag_high_bit pbind_def preturn_def del: push_bit_Suc)
qed

interpretation frag: codec Fragment_compile "Fragment_parse junkT" AnyFragment_wf for junkT
  by unfold_locales (rule Fragment_par_ser)

subsection \<open>What fragmentMessage produces\<close>

text \<open>The follow-on fragments of a message: consecutive numbers from \<open>k\<close>, one message id, and the
  last flag on the last one only.\<close>

definition numbered :: "u32 \<Rightarrow> nat \<Rightarrow> FollowOnFragment list \<Rightarrow> bool" where
  "numbered msgId k fs \<longleftrightarrow>
     (\<forall>i < length fs. unat (fo_fragNum (fs ! i)) = k + i \<and> fr_msgId (fs ! i) = msgId \<and>
        (fo_isLast (fs ! i) \<longleftrightarrow> Suc i = length fs) \<and> length (fr_payload (fs ! i)) \<le> 996)"

lemma numbered_Cons:
  "numbered msgId k (f # fs) \<longleftrightarrow>
     unat (fo_fragNum f) = k \<and> fr_msgId f = msgId \<and> (fo_isLast f \<longleftrightarrow> fs = []) \<and>
     length (fr_payload f) \<le> 996 \<and> numbered msgId (Suc k) fs"
  by (auto simp: numbered_def nth_Cons less_Suc_eq_0_disj split: nat.splits)

lemma fragment_loop_step:
  "rest \<noteq> [] \<Longrightarrow> k \<le> 63 \<Longrightarrow>
   fragment_loop msgId k rest =
     ebind (fragment_loop msgId (k + 1) (drop 996 rest)) (\<lambda>fs.
       Inr (\<lparr>fr_msgId = msgId, fr_payload = take 996 rest, fo_fragNum = k, fo_isLast = (length rest \<le> 996)\<rparr> # fs))"
  by (subst fragment_loop.simps)
    (auto simp: FollowOnFragment_make_def FollowOnFragment_headerSize_def Fragment_setPayload_def
      FollowOnFragment_setLast_def Let_def)

lemma fragment_loop_Nil [simp]: "fragment_loop msgId k [] = Inr []"
  by (simp add: fragment_loop.simps)

lemma fragment_loop_full: "rest \<noteq> [] \<Longrightarrow> \<not> k \<le> 63 \<Longrightarrow>
   fragment_loop msgId k rest = Inl (Runtime_error ''too many fragments!'')"
  by (subst fragment_loop.simps) (auto simp: FollowOnFragment_make_def)

lemma byte_Suc: "(k :: byte) \<le> 63 \<Longrightarrow> unat (k + 1) = Suc (unat k)"
proof -
  assume "k \<le> 63"
  then have "unat k \<le> 63" by (simp add: word_le_nat_alt)
  then show ?thesis by (simp add: unat_word_ariths)
qed

lemma fragment_loop_ok:
  "length rest \<le> 996 * (64 - unat k) \<Longrightarrow>
   \<exists>fs. fragment_loop msgId k rest = Inr fs \<and> numbered msgId (unat k) fs \<and>
     concat (map fr_payload fs) = rest \<and> (fs = [] \<longleftrightarrow> rest = []) \<and> length fs = (length rest + 995) div 996"
proof (induction "64 - unat k" arbitrary: k rest)
  case 0
  then show ?case by (simp add: numbered_def)
next
  case (Suc n)
  then have k: "unat k \<le> 63" by simp
  then have k63: "k \<le> 63" by (simp add: word_le_nat_alt)
  show ?case
  proof (cases "rest = []")
    case True
    then show ?thesis by (simp add: numbered_def)
  next
    case False
    have "length (drop 996 rest) \<le> 996 * (64 - unat (k + 1))"
      using Suc.prems by (simp add: byte_Suc [OF k63])
    moreover have "n = 64 - unat (k + 1)" using Suc.hyps(2) by (simp add: byte_Suc [OF k63])
    ultimately obtain fs where fs: "fragment_loop msgId (k + 1) (drop 996 rest) = Inr fs"
      "numbered msgId (unat (k + 1)) fs" "concat (map fr_payload fs) = drop 996 rest"
      "fs = [] \<longleftrightarrow> drop 996 rest = []" "length fs = (length (drop 996 rest) + 995) div 996"
      using Suc.hyps(1) [of "k + 1" "drop 996 rest"] by auto
    have "Suc ((length (drop 996 rest) + 995) div 996) = (length rest + 995) div 996"
    proof (cases "length rest \<le> 996")
      case True
      moreover from False have "1 \<le> length rest" by (simp add: Suc_le_eq)
      ultimately have "(length rest + 995) div 996 = 1" by (intro div_nat_eqI) auto
      with True show ?thesis by simp
    next
      case 2: False
      then have eq: "length rest + 995 = (length rest - 996 + 995) + 996" by simp
      show ?thesis unfolding eq by simp
    qed
    with fs False show ?thesis
      by (auto simp: fragment_loop_step [OF False k63] numbered_Cons byte_Suc [OF k63])
  qed
qed

lemma fragment_loop_overflow:
  "unat k \<le> 64 \<Longrightarrow> 996 * (64 - unat k) < length rest \<Longrightarrow>
   fragment_loop msgId k rest = Inl (Runtime_error ''too many fragments!'')"
proof (induction "64 - unat k" arbitrary: k rest)
  case 0
  then show ?case by (intro fragment_loop_full) (auto simp: word_le_nat_alt)
next
  case (Suc n)
  then have k63: "k \<le> 63" by (simp add: word_le_nat_alt)
  have "fragment_loop msgId (k + 1) (drop 996 rest) = Inl (Runtime_error ''too many fragments!'')"
    using Suc.prems Suc.hyps(2) by (intro Suc.hyps(1)) (auto simp: byte_Suc [OF k63])
  with Suc.prems show ?case by (subst fragment_loop_step [OF _ k63]) auto
qed

text \<open>A first fragment as \<open>fragmentMessage\<close> makes it.\<close>

definition first_of :: "u32 \<Rightarrow> u32 \<Rightarrow> bytes \<Rightarrow> bool \<Rightarrow> bytes \<Rightarrow> FirstFragment" where
  "first_of msgId junkT junkH fragmented payload =
     \<lparr>fr_msgId = msgId, fr_payload = payload, ff_mode = LOCAL, ff_fragmented = fragmented,
      ff_tunnelId = junkT, ff_toHash = junkH\<rparr>"

lemma fragmentMessage_small:
  "length data \<le> 1000 \<Longrightarrow> fragmentMessage msgId junkT junkH data =
     Inr [First (first_of 0 junkT junkH False data)]"
  by (simp add: fragmentMessage_def FirstFragment_mustFragment_def FirstFragment_headerSize_def
      FirstFragment_default_def Fragment_setPayload_def Let_def unat_of_nats first_of_def)

lemma fragmentMessage_big:
  "1000 < length data mod 65536 \<Longrightarrow> fragmentMessage msgId junkT junkH data =
     ebind (fragment_loop msgId 1 (drop 996 data)) (\<lambda>fs.
       Inr (First (first_of msgId junkT junkH True (take 996 data)) # map FollowOn fs))"
  by (simp add: fragmentMessage_def FirstFragment_mustFragment_def FirstFragment_headerSize_def
      FirstFragment_default_def Fragment_setPayload_def FirstFragment_setFragmented_def
      Fragment_setMsgId_def Let_def unat_of_nats first_of_def)

lemma fragmentMessage_big_ok:
  assumes "1000 < length data" and "length data \<le> 996 * 64"
  obtains fs where "fragmentMessage msgId junkT junkH data =
      Inr (First (first_of msgId junkT junkH True (take 996 data)) # map FollowOn fs)"
    and "numbered msgId 1 fs" and "take 996 data @ concat (map fr_payload fs) = data" and "fs \<noteq> []"
    and "length fs < 64"
proof -
  have "length (drop 996 data) \<le> 996 * (64 - unat (1 :: byte))" using assms by simp
  then obtain fs where fs: "fragment_loop msgId 1 (drop 996 data) = Inr fs" "numbered msgId 1 fs"
    "concat (map fr_payload fs) = drop 996 data" "fs = [] \<longleftrightarrow> drop 996 data = []"
    "length fs = (length (drop 996 data) + 995) div 996"
    using fragment_loop_ok [of "drop 996 data" 1 msgId] by auto
  have "length fs < 64"
    unfolding fs(5) using assms by (simp add: div_less_iff_less_mult)
  with fs that [of fs] assms show thesis
    by (simp add: fragmentMessage_big)
qed

subsection \<open>Reassembly\<close>

text \<open>One fragment into a state, and a sequence of them.\<close>

fun FragmentState_add :: "AnyFragment \<Rightarrow> FragmentState \<Rightarrow> FragmentState result" where
  "FragmentState_add (First f) s = FragmentState_setFirstFragment f s"
| "FragmentState_add (FollowOn f) s = FragmentState_addFollowOnFragment f s"

fun FragmentState_addAll :: "AnyFragment list \<Rightarrow> FragmentState \<Rightarrow> FragmentState result" where
  "FragmentState_addAll [] s = Inr s"
| "FragmentState_addAll (f # fs) s = ebind (FragmentState_add f s) (FragmentState_addAll fs)"

lemma FragmentState_addAll_snoc:
  "FragmentState_addAll (fs @ [f]) s = ebind (FragmentState_addAll fs s) (FragmentState_add f)"
proof (induction fs arbitrary: s)
  case Nil
  show ?case by (cases "FragmentState_add f s") simp_all
next
  case (Cons a fs)
  show ?case by (cases "FragmentState_add a s") (simp_all add: Cons)
qed

fun follow_ons :: "AnyFragment list \<Rightarrow> FollowOnFragment list" where
  "follow_ons [] = []"
| "follow_ons (First f # xs) = follow_ons xs"
| "follow_ons (FollowOn f # xs) = f # follow_ons xs"

lemma follow_ons_append [simp]: "follow_ons (xs @ ys) = follow_ons xs @ follow_ons ys"
  by (induction xs rule: follow_ons.induct) auto

lemma set_follow_ons: "set (follow_ons xs) = {f. FollowOn f \<in> set xs}"
  by (induction xs rule: follow_ons.induct) auto

lemma follow_ons_map [simp]: "follow_ons (map FollowOn fs) = fs"
  by (induction fs) auto

lemma mset_follow_ons: "mset xs = mset ys \<Longrightarrow> mset (follow_ons xs) = mset (follow_ons ys)"
proof -
  have "mset (follow_ons zs) =
      image_mset (\<lambda>f. case f of FollowOn g \<Rightarrow> g | First g \<Rightarrow> undefined)
        (filter_mset (\<lambda>f. case f of FollowOn g \<Rightarrow> True | First g \<Rightarrow> False) (mset zs))" for zs
    by (induction zs rule: follow_ons.induct) auto
  then show "mset xs = mset ys \<Longrightarrow> ?thesis" by simp
qed

lemma numbered_inj:
  "numbered m k fs \<Longrightarrow> f \<in> set fs \<Longrightarrow> g \<in> set fs \<Longrightarrow> fo_fragNum f = fo_fragNum g \<Longrightarrow> f = g"
  unfolding numbered_def in_set_conv_nth by (metis add_left_cancel)

lemma numbered_distinct: "numbered m k fs \<Longrightarrow> distinct fs"
  by (auto simp: numbered_def distinct_conv_nth) (metis add_left_cancel)

lemma numbered_last:
  "numbered m 1 fs \<Longrightarrow> f \<in> set fs \<Longrightarrow> fo_isLast f \<Longrightarrow> unat (fo_fragNum f) = length fs"
  by (auto simp: numbered_def in_set_conv_nth)

lemma numbered_payload: "numbered m k fs \<Longrightarrow> f \<in> set fs \<Longrightarrow> length (fr_payload f) \<le> 996"
  by (auto simp: numbered_def in_set_conv_nth)

lemma numbered_has_last: "numbered m k fs \<Longrightarrow> fs \<noteq> [] \<Longrightarrow> last fs \<in> set fs \<and> fo_isLast (last fs)"
  by (auto simp: numbered_def last_conv_nth)

text \<open>The state after some of a message's fragments, each at most once, in any order.\<close>

lemma addAll_partial:
  assumes num: "numbered m 1 fs"
  shows "distinct xs \<Longrightarrow> set xs \<subseteq> insert (First f) (FollowOn ` set fs) \<Longrightarrow>
    FragmentState_addAll xs FragmentState_default =
      Inr \<lparr>fs_lastFragNum = (if FollowOn (last fs) \<in> set xs then of_nat (length fs) else 0),
        fs_firstFragment = (if First f \<in> set xs then Some f else None),
        fs_followOnFragments = follow_ons xs, fs_timer = False\<rparr>"
proof (induction xs rule: rev_induct)
  case Nil
  then show ?case by (simp add: FragmentState_default_def)
next
  case (snoc x xs)
  then have IH: "FragmentState_addAll xs FragmentState_default =
      Inr \<lparr>fs_lastFragNum = (if FollowOn (last fs) \<in> set xs then of_nat (length fs) else 0),
        fs_firstFragment = (if First f \<in> set xs then Some f else None),
        fs_followOnFragments = follow_ons xs, fs_timer = False\<rparr>" (is "_ = Inr ?s")
    and x: "x \<notin> set xs" "x \<in> insert (First f) (FollowOn ` set fs)" by auto
  show ?case
  proof (cases x)
    case (First g)
    with x IH show ?thesis
      by (auto simp: FragmentState_addAll_snoc FragmentState_setFirstFragment_def)
  next
    case (FollowOn g)
    with x have g: "g \<in> set fs" "FollowOn g \<notin> set xs" by auto
    then have "fs \<noteq> []" by auto
    have last: "fo_isLast g \<longleftrightarrow> g = last fs"
      using numbered_last [OF num g(1)] numbered_last [OF num, of "last fs"] numbered_has_last [OF num \<open>fs \<noteq> []\<close>]
        numbered_inj [OF num g(1), of "last fs"] by (auto simp: word_unat_eq_iff)
    have "list_all (\<lambda>h. fo_fragNum h \<noteq> fo_fragNum g) (follow_ons xs)"
      using numbered_inj [OF num _ g(1)] g(2) snoc.prems(2) by (auto simp: list_all_iff set_follow_ons)
    moreover have "g = last fs \<Longrightarrow> fo_fragNum g = of_nat (length fs)"
      using numbered_last [OF num g(1)] last unat_byte_less [of "fo_fragNum g"]
      by (simp add: word_unat_eq_iff unat_of_nats)
    ultimately show ?thesis
      using IH g last FollowOn
      by (auto simp: FragmentState_addAll_snoc FragmentState_addFollowOnFragment_def)
  qed
qed

lemma distinct_follow_ons: "distinct xs \<Longrightarrow> distinct (follow_ons xs)"
  by (induction xs rule: follow_ons.induct) (auto simp: set_follow_ons)

lemma partial_complete:
  assumes num: "numbered m 1 fs" "fs \<noteq> []" "length fs < 64" and f: "ff_fragmented f"
    and xs: "distinct xs" "set xs \<subseteq> insert (First f) (FollowOn ` set fs)"
    and s: "FragmentState_addAll xs FragmentState_default = Inr s"
  shows "FragmentState_isComplete s \<longleftrightarrow> set xs = insert (First f) (FollowOn ` set fs)"
proof
  have sub: "set (follow_ons xs) \<subseteq> set fs" using xs(2) by (auto simp: set_follow_ons)
  have len: "unat (of_nat (length fs) :: byte) = length fs" using num(3) by (simp add: unat_of_nats)
  then have nz: "(of_nat (length fs) :: byte) \<noteq> 0" using num(2) by auto
  note s' = s [unfolded addAll_partial [OF num(1) xs]]
  {
    assume "FragmentState_isComplete s"
    then have first: "First f \<in> set xs" and "length (follow_ons xs) = length fs"
      using s' f len by (auto simp: FragmentState_isComplete_def split: if_splits)
    then have "card (set (follow_ons xs)) = card (set fs)"
      using distinct_card [OF distinct_follow_ons [OF xs(1)]] distinct_card [OF numbered_distinct [OF num(1)]]
      by simp
    then have "set (follow_ons xs) = set fs" using sub by (simp add: card_subset_eq)
    with first xs(2) show "set xs = insert (First f) (FollowOn ` set fs)"
      by (auto simp: set_follow_ons)
  next
    assume all: "set xs = insert (First f) (FollowOn ` set fs)"
    have "set (follow_ons xs) = set fs" by (auto simp: set_follow_ons all)
    then have "length (follow_ons xs) = length fs"
      using distinct_card [OF distinct_follow_ons [OF xs(1)]] distinct_card [OF numbered_distinct [OF num(1)]]
      by simp
    moreover have "FollowOn (last fs) \<in> set xs" using num(2) by (simp add: all)
    ultimately show "FragmentState_isComplete s"
      using s' all len nz f by (auto simp: FragmentState_isComplete_def)
  }
qed

lemma distinct_singleton: "distinct ys \<Longrightarrow> set ys = {f} \<Longrightarrow> ys = [f]"
  by (cases ys; cases "tl ys") auto

lemma sort_numbered:
  assumes num: "numbered m k fs" and eq: "mset gs = mset fs"
  shows "sort_key (\<lambda>f. unat (fo_fragNum f)) gs = fs"
proof (rule properties_for_sort_key)
  show "mset fs = mset gs" using eq by simp
  show "sorted (map (\<lambda>f. unat (fo_fragNum f)) fs)"
    using num by (auto simp: sorted_iff_nth_mono numbered_def)
  fix f
  assume "f \<in> set fs"
  have one: "filter (\<lambda>x. unat (fo_fragNum f) = unat (fo_fragNum x)) zs = [f]" if "mset zs = mset fs" for zs
  proof -
    have "set zs = set fs" "distinct zs"
      using that numbered_distinct [OF num] by (metis set_mset_mset, metis mset_eq_imp_distinct_iff)
    moreover have "set (filter (\<lambda>x. unat (fo_fragNum f) = unat (fo_fragNum x)) zs) = {f}"
      using numbered_inj [OF num _ \<open>f \<in> set fs\<close>] \<open>f \<in> set fs\<close> \<open>set zs = set fs\<close> by (auto simp: word_unat_eq_iff)
    ultimately show ?thesis by (intro distinct_singleton) auto
  qed
  show "filter (\<lambda>x. unat (fo_fragNum f) = unat (fo_fragNum x)) fs =
      filter (\<lambda>x. unat (fo_fragNum f) = unat (fo_fragNum x)) gs"
    using one [of fs] one [of gs] eq by simp
qed

lemma reassembly:
  assumes num: "numbered m 1 fs" "fs \<noteq> []" "length fs < 64" and f: "ff_fragmented f"
    and xs: "mset xs = mset (First f # map FollowOn fs)"
  shows "\<exists>s s'. FragmentState_addAll xs FragmentState_default = Inr s \<and> FragmentState_isComplete s \<and>
      FragmentState_compile s = Inr (fr_payload f @ concat (map fr_payload fs), s')"
    and "strict_prefix ys xs \<Longrightarrow>
      \<exists>s. FragmentState_addAll ys FragmentState_default = Inr s \<and> \<not> FragmentState_isComplete s"
proof -
  have "distinct (First f # map FollowOn fs)"
    using numbered_distinct [OF num(1)] by (auto simp: distinct_map inj_on_def)
  then have dist: "distinct xs" using xs mset_eq_imp_distinct_iff by blast
  have "set xs = set (First f # map FollowOn fs)" using xs by (metis set_mset_mset)
  then have set: "set xs = insert (First f) (FollowOn ` set fs)" by simp
  note full = addAll_partial [OF num(1) dist eq_refl [OF set]]
  have "mset (follow_ons xs) = mset fs" using mset_follow_ons [OF xs] by simp
  then have sorted: "sort_key (\<lambda>f. unat (fo_fragNum f)) (follow_ons xs) = fs"
    by (rule sort_numbered [OF num(1)])
  from full partial_complete [OF num f dist eq_refl [OF set] full] set sorted
  show "\<exists>s s'. FragmentState_addAll xs FragmentState_default = Inr s \<and> FragmentState_isComplete s \<and>
      FragmentState_compile s = Inr (fr_payload f @ concat (map fr_payload fs), s')"
    by (auto simp: FragmentState_compile_def)
  assume "strict_prefix ys xs"
  then obtain z zs where split: "xs = ys @ z # zs" by (auto elim: strict_prefixE')
  with dist set have ys: "distinct ys" "set ys \<subseteq> insert (First f) (FollowOn ` set fs)"
    and "z \<in> insert (First f) (FollowOn ` set fs)" "z \<notin> set ys" by auto
  then show "\<exists>s. FragmentState_addAll ys FragmentState_default = Inr s \<and> \<not> FragmentState_isComplete s"
    using addAll_partial [OF num(1) ys] partial_complete [OF num f ys addAll_partial [OF num(1) ys]] by auto
qed

subsection \<open>Properties\<close>

text \<open>C9. A message too long for one tunnel fragment (and of at most 63744 bytes) is split by
  \<open>Fragment::fragmentMessage\<close> into fragments that a \<open>FragmentState\<close> reassembles in whatever order
  they arrive: no fragment raises an error, the state is complete exactly when the last missing one
  is in, and \<open>compile\<close> then returns the original bytes.\<close>

theorem fragments_reassemble:
  assumes "1000 < length data" and "length data \<le> 63744"
  shows "\<exists>frs. fragmentMessage msgId junkT junkH data = Inr frs \<and>
    (\<forall>xs. mset xs = mset frs \<longrightarrow>
      (\<exists>s s'. FragmentState_addAll xs FragmentState_default = Inr s \<and> FragmentState_isComplete s \<and>
         FragmentState_compile s = Inr (data, s')) \<and>
      (\<forall>ys. strict_prefix ys xs \<longrightarrow>
         (\<exists>s. FragmentState_addAll ys FragmentState_default = Inr s \<and> \<not> FragmentState_isComplete s)))"
proof -
  from assms have "length data \<le> 996 * 64" by simp
  from fragmentMessage_big_ok [OF assms(1) this, of msgId junkT junkH]
  obtain fs where fs: "fragmentMessage msgId junkT junkH data =
      Inr (First (first_of msgId junkT junkH True (take 996 data)) # map FollowOn fs)"
    and num: "numbered msgId 1 fs" "fs \<noteq> []" "length fs < 64"
    and data: "take 996 data @ concat (map fr_payload fs) = data" by metis
  have "ff_fragmented (first_of msgId junkT junkH True (take 996 data))"
    and "fr_payload (first_of msgId junkT junkH True (take 996 data)) = take 996 data"
    by (simp_all add: first_of_def)
  with fs data reassembly [OF num, of "first_of msgId junkT junkH True (take 996 data)"] show ?thesis
    by auto
qed

theorem fragments_reassemble_witness:
  "\<exists>frs. fragmentMessage 7 0 [] (replicate 3000 5) = Inr frs \<and>
    (\<exists>s s'. FragmentState_addAll (rev frs) FragmentState_default = Inr s \<and> FragmentState_isComplete s \<and>
         FragmentState_compile s = Inr (replicate 3000 5, s'))"
proof -
  obtain frs where "fragmentMessage 7 0 [] (replicate 3000 5) = Inr frs"
    and "\<And>xs. mset xs = mset frs \<Longrightarrow>
      \<exists>s s'. FragmentState_addAll xs FragmentState_default = Inr s \<and> FragmentState_isComplete s \<and>
         FragmentState_compile s = Inr (replicate 3000 5, s')"
    using fragments_reassemble [of "replicate 3000 5" 7 0 "[]"] by auto
  then show ?thesis by fastforce
qed

text \<open>C23. What happens to a message of any length. It is sent whole (at most 1000 bytes), split into at
  most 64 fragments of at most 996 payload bytes each (at most 63744 bytes), or, when it is longer,
  refused with \<open>too many fragments!\<close>, unless its length modulo 65536 is at most 1000: since the length is
  passed in 16 bits it then looks small, and all but the first 1000 bytes are silently dropped. The first
  lengths this happens to are 65536 to 66536.\<close>

theorem fragment_limits:
  "(length data \<le> 1000 \<longrightarrow>
      fragmentMessage msgId junkT junkH data = Inr [First (first_of 0 junkT junkH False data)]) \<and>
   (1000 < length data \<and> length data \<le> 63744 \<longrightarrow>
      (\<exists>frs. fragmentMessage msgId junkT junkH data = Inr frs \<and> 2 \<le> length frs \<and> length frs \<le> 64 \<and>
        list_all (\<lambda>fr. case fr of First f \<Rightarrow> length (fr_payload f) \<le> 996
                              | FollowOn f \<Rightarrow> length (fr_payload f) \<le> 996) frs)) \<and>
   (63744 < length data \<and> 1000 < length data mod 65536 \<longrightarrow>
      fragmentMessage msgId junkT junkH data = Inl (Runtime_error ''too many fragments!'')) \<and>
   (65536 \<le> length data \<and> length data mod 65536 \<le> 1000 \<longrightarrow>
      fragmentMessage msgId junkT junkH data = Inr [First (first_of 0 junkT junkH False (take 1000 data))])"
proof (intro conjI impI)
  show "fragmentMessage msgId junkT junkH data = Inr [First (first_of 0 junkT junkH False data)]"
    if "length data \<le> 1000" using that by (rule fragmentMessage_small)
next
  assume a: "1000 < length data \<and> length data \<le> 63744"
  then have "length data \<le> 996 * 64" by simp
  with a obtain fs where fs: "fragmentMessage msgId junkT junkH data =
      Inr (First (first_of msgId junkT junkH True (take 996 data)) # map FollowOn fs)"
    and num: "numbered msgId 1 fs" "fs \<noteq> []" "length fs < 64"
    by (metis fragmentMessage_big_ok)
  then show "\<exists>frs. fragmentMessage msgId junkT junkH data = Inr frs \<and> 2 \<le> length frs \<and> length frs \<le> 64 \<and>
        list_all (\<lambda>fr. case fr of First f \<Rightarrow> length (fr_payload f) \<le> 996
                              | FollowOn f \<Rightarrow> length (fr_payload f) \<le> 996) frs"
    by (auto simp: first_of_def numbered_payload list_all_iff Suc_le_eq numeral_2_eq_2)
next
  assume a: "63744 < length data \<and> 1000 < length data mod 65536"
  then have "fragment_loop msgId 1 (drop 996 data) = Inl (Runtime_error ''too many fragments!'')"
    by (intro fragment_loop_overflow) auto
  with a show "fragmentMessage msgId junkT junkH data = Inl (Runtime_error ''too many fragments!'')"
    by (simp add: fragmentMessage_big)
next
  assume "65536 \<le> length data \<and> length data mod 65536 \<le> 1000"
  then show "fragmentMessage msgId junkT junkH data = Inr [First (first_of 0 junkT junkH False (take 1000 data))]"
    by (simp add: fragmentMessage_def FirstFragment_mustFragment_def FirstFragment_headerSize_def
        FirstFragment_default_def Fragment_setPayload_def Let_def unat_of_nats first_of_def)
qed

theorem fragment_limits_witness:
  "fragmentMessage 1 2 [] (replicate 65536 3) = Inr [First (first_of 0 2 [] False (replicate 1000 3))]"
  using fragment_limits [of "replicate 65536 3" 1 2 "[]"] by (simp add: take_replicate)

text \<open>C24. A sequence of tunnel-mode first fragments and follow-on fragments, compiled one after the
  other, is parsed back one after the other by \<open>Fragment::parse\<close>. The first fragment that
  \<open>fragmentMessage\<close> itself makes is in local mode, and that the parser refuses.\<close>

theorem fragments_wire:
  assumes "list_all AnyFragment_wf frs"
  shows "preplicate (length frs) (Fragment_parse junkT (length (concat (map Fragment_compile frs))))
      (concat (map Fragment_compile frs)) 0 = Inr (frs, length (concat (map Fragment_compile frs))) \<and>
    Fragment_parse junkT (length (FirstFragment_compile (first_of msgId t h b payload)))
      (FirstFragment_compile (first_of msgId t h b payload)) 0 =
      Inl (Runtime_error ''unhandled first fragment delivery mode'')"
proof
  show "preplicate (length frs) (Fragment_parse junkT (length (concat (map Fragment_compile frs))))
      (concat (map Fragment_compile frs)) 0 = Inr (frs, length (concat (map Fragment_compile frs)))"
    using frag.many_ser [of frs "concat (map Fragment_compile frs)" 0] assms by (auto simp: list_all_iff)
  show "Fragment_parse junkT (length (FirstFragment_compile (first_of msgId t h b payload)))
      (FirstFragment_compile (first_of msgId t h b payload)) 0 =
      Inl (Runtime_error ''unhandled first fragment delivery mode'')"
    by (cases b) (auto simp: Fragment_parse_def FirstFragment_parse_def FirstFragment_compile_def
      first_of_def pbind_def next_byte_def praise_def Let_def)
qed

definition sample_fragments :: "AnyFragment list" where
  "sample_fragments =
     [First \<lparr>fr_msgId = 7, fr_payload = [1, 2], ff_mode = TUNNEL, ff_fragmented = True, ff_tunnelId = 9,
        ff_toHash = replicate 32 4\<rparr>,
      FollowOn \<lparr>fr_msgId = 7, fr_payload = [3], fo_fragNum = 1, fo_isLast = True\<rparr>]"

lemma sample_fragments_wf: "list_all AnyFragment_wf sample_fragments"
  by (simp add: sample_fragments_def FirstFragment_wf_def FollowOnFragment_wf_def word_le_nat_alt)

theorem fragments_wire_witness:
  "let buf = concat (map Fragment_compile sample_fragments)
   in preplicate 2 (Fragment_parse 0 (length buf)) buf 0 = Inr (sample_fragments, length buf)"
proof -
  have "length sample_fragments = 2" by (simp add: sample_fragments_def)
  with fragments_wire [OF sample_fragments_wf, of 0] show ?thesis by (simp add: Let_def)
qed

end
