(* ===== verification/Tunnel_Message.thy ===== *)
theory Tunnel_Message
  imports Fragments
begin

text \<open>
  \<open>Tunnel::Message\<close>: a 1024-byte tunnel message, a 16-byte IV and 1008 bytes that hold a checksum,
  non-zero padding, a zero byte and the compiled fragments. SHA-256 and AES are arguments; so are
  the bytes the random generator writes.
\<close>

record TunnelMessage =
  tm_checksum :: u32
  tm_fragments :: "AnyFragment list"
  tm_payloadSize :: u16
  tm_iv :: bytes
  tm_encrypted :: bytes

definition TunnelMessage_of :: "u32 \<Rightarrow> bytes \<Rightarrow> TunnelMessage" where
  "TunnelMessage_of junk data =
     \<lparr>tm_checksum = junk, tm_fragments = [], tm_payloadSize = 0, tm_iv = take 16 data,
      tm_encrypted = take 1008 (drop 16 data)\<rparr>"

text \<open>\<open>for(auto& f: m_fragments) m_payloadSize += f->size();\<close>, modulo \<open>2 ^ 16\<close>.\<close>

fun payload_size :: "u16 \<Rightarrow> AnyFragment list \<Rightarrow> u16 result" where
  "payload_size n [] = Inr n"
| "payload_size n (f # fs) = ebind (Fragment_size f) (\<lambda>k. payload_size (n + k) fs)"

definition TunnelMessage_calculateChecksum :: "(bytes \<Rightarrow> bytes) \<Rightarrow> TunnelMessage \<Rightarrow> TunnelMessage" where
  "TunnelMessage_calculateChecksum sha256 m =
     (let h = take 4 (sha256 (concat (map Fragment_compile (tm_fragments m)) @ tm_iv m))
      in m\<lparr>tm_checksum := join32 (h ! 0) (h ! 1) (h ! 2) (h ! 3)\<rparr>)"

definition TunnelMessage_make ::
  "(bytes \<Rightarrow> bytes) \<Rightarrow> u32 \<Rightarrow> bytes \<Rightarrow> bytes \<Rightarrow> AnyFragment list \<Rightarrow> TunnelMessage result" where
  "TunnelMessage_make sha256 junkC junkE iv fragments =
     ebind (payload_size 0 fragments) (\<lambda>n.
     ebind (require (n \<le> 1003)
       (Runtime_error ''total size of all fragments is too large for a tunnel message'')) (\<lambda>_.
     Inr (TunnelMessage_calculateChecksum sha256
       \<lparr>tm_checksum = junkC, tm_fragments = fragments, tm_payloadSize = n, tm_iv = iv, tm_encrypted = junkE\<rparr>)))"

text \<open>\<open>std::find(pos, end, 0x00)\<close> and \<open>++pos\<close>; without a zero byte the iterator passes the end.\<close>

fun find_zero :: "bytes \<Rightarrow> nat \<Rightarrow> nat option" where
  "find_zero [] n = None"
| "find_zero (b # bs) n = (if b = 0 then Some n else find_zero bs (Suc n))"

definition after_padding :: "bytes \<Rightarrow> nat result" where
  "after_padding enc =
     (case find_zero (drop 4 enc) 4 of None \<Rightarrow> Inl Out_of_bounds | Some n \<Rightarrow> Inr (Suc n))"

definition TunnelMessage_verifyChecksum :: "(bytes \<Rightarrow> bytes) \<Rightarrow> TunnelMessage \<Rightarrow> bool result" where
  "TunnelMessage_verifyChecksum sha256 m =
     ebind (after_padding (tm_encrypted m)) (\<lambda>pos.
     Inr (take 4 (sha256 (drop pos (tm_encrypted m) @ tm_iv m)) = take 4 (tm_encrypted m)))"

lemma Fragment_parse_progress:
  "Fragment_parse junkT e buf p = Inr (f, q) \<Longrightarrow> p < q \<and> q \<le> length buf"
  by (auto simp: Fragment_parse_def FollowOnFragment_parse_def FirstFragment_parse_def inr_iff Let_def
      split: if_splits)

text \<open>\<open>while(pos != end) fragments.push_back(Fragment::parse(pos, end));\<close>\<close>

function parse_fragments :: "u32 \<Rightarrow> bytes \<Rightarrow> nat \<Rightarrow> AnyFragment list result" where
  "parse_fragments junkT buf p =
     (if p = length buf then Inr []
      else case Fragment_parse junkT (length buf) buf p of
             Inl err \<Rightarrow> Inl err
           | Inr (f, q) \<Rightarrow> ebind (parse_fragments junkT buf q) (\<lambda>fs. Inr (f # fs)))"
  by pat_completeness auto
termination
  by (relation "measure (\<lambda>(j, buf, p). length buf - p)")
    (auto dest!: sym [of "Inr _"] Fragment_parse_progress)

declare parse_fragments.simps [simp del]

definition TunnelMessage_parse ::
  "(bytes \<Rightarrow> bytes) \<Rightarrow> u32 \<Rightarrow> TunnelMessage \<Rightarrow> AnyFragment list result" where
  "TunnelMessage_parse sha256 junkT m =
     ebind (TunnelMessage_verifyChecksum sha256 m) (\<lambda>ok.
     ebind (require ok (Runtime_error ''invalid checksum in tunnel message'')) (\<lambda>_.
     ebind (after_padding (tm_encrypted m)) (\<lambda>pos.
     parse_fragments junkT (tm_encrypted m) pos)))"

definition TunnelMessage_getEncryptedData :: "TunnelMessage \<Rightarrow> bytes" where
  "TunnelMessage_getEncryptedData m = tm_iv m @ tm_encrypted m"

definition TunnelMessage_encrypt ::
  "(bytes \<Rightarrow> bytes \<Rightarrow> bytes) \<Rightarrow> (bytes \<Rightarrow> bytes \<Rightarrow> bytes \<Rightarrow> bytes) \<Rightarrow> bytes \<Rightarrow> bytes \<Rightarrow> TunnelMessage \<Rightarrow>
   TunnelMessage result" where
  "TunnelMessage_encrypt aes_ecb aes_cbc ivKey layerKey m =
     (let v = aes_ecb ivKey (tm_iv m) in
      ebind (require (length v = length (tm_iv m)) (Runtime_error ''Did not get 16 bytes back'')) (\<lambda>_.
      let d = aes_cbc layerKey v (tm_encrypted m) in
      ebind (require (length d = length (tm_encrypted m)) (Runtime_error ''Did not get 1008 bytes back'')) (\<lambda>_.
      let v2 = aes_ecb ivKey v in
      ebind (require (length v2 = length (tm_iv m)) (Runtime_error ''Did not get 16 bytes back'')) (\<lambda>_.
      Inr (m\<lparr>tm_encrypted := d, tm_iv := v2\<rparr>)))))"

text \<open>\<open>padding\<close> is what the generator writes into \<open>[padStart, padEnd)\<close>; zero bytes become \<open>0xff\<close>.
  Copying fragments past the end of the array would be out of bounds.\<close>

definition TunnelMessage_compile :: "bytes \<Rightarrow> TunnelMessage \<Rightarrow> TunnelMessage result" where
  "TunnelMessage_compile padding m =
     (let pad = map (\<lambda>x. if x = 0 then 0xFF else x) (take (1008 - 4 - 1 - unat (tm_payloadSize m)) padding);
          out = be32 (tm_checksum m) @ pad @ [0] @ concat (map Fragment_compile (tm_fragments m))
      in ebind (require (length out \<le> length (tm_encrypted m)) Out_of_bounds) (\<lambda>_.
         Inr (m\<lparr>tm_encrypted := out @ drop (length out) (tm_encrypted m)\<rparr>)))"

subsection \<open>Lemmas\<close>

lemma Fragment_size_compile: "AnyFragment_wf f \<Longrightarrow> Fragment_size f = Inr (of_nat (length (Fragment_compile f)))"
  by (cases f) (auto simp: FirstFragment_headerSize_def FirstFragment_wf_def FirstFragment_compile_def
      FollowOnFragment_headerSize_def FollowOnFragment_compile_def)

lemma payload_size_compile:
  "list_all AnyFragment_wf fs \<Longrightarrow>
   payload_size n fs = Inr (n + of_nat (length (concat (map Fragment_compile fs))))"
  by (induction fs arbitrary: n) (auto simp: Fragment_size_compile add.assoc)

lemma find_zero_prefix: "0 \<notin> set xs \<Longrightarrow> find_zero (xs @ 0 # ys) n = Some (n + length xs)"
  by (induction xs arbitrary: n) auto

lemma after_padding_layout:
  "length c = 4 \<Longrightarrow> 0 \<notin> set pad \<Longrightarrow> after_padding (c @ pad @ [0] @ rest) = Inr (5 + length pad)"
  by (simp add: after_padding_def find_zero_prefix)

lemma parse_fragments_compiled:
  "list_all AnyFragment_wf fs \<Longrightarrow> has_at buf p (concat (map Fragment_compile fs)) \<Longrightarrow>
   length buf = p + length (concat (map Fragment_compile fs)) \<Longrightarrow> parse_fragments junkT buf p = Inr fs"
proof (induction fs arbitrary: p)
  case Nil
  then show ?case by (simp add: parse_fragments.simps)
next
  case (Cons f fs)
  then have "Fragment_parse junkT (length buf) buf p = Inr (f, p + length (Fragment_compile f))"
    by (intro Fragment_par_ser) auto
  moreover from this have "p \<noteq> length buf" using Fragment_parse_progress by fastforce
  moreover have "parse_fragments junkT buf (p + length (Fragment_compile f)) = Inr fs"
    using Cons.prems by (intro Cons.IH) auto
  ultimately show ?case by (subst parse_fragments.simps) simp
qed

lemma be32_checksum:
  assumes "length h = 32"
  shows "be32 (join32 (h ! 0) (h ! Suc 0) (h ! 2) (h ! 3)) = take 4 h"
proof -
  obtain a b c d where h: "take 4 (drop 0 h) = [a, b, c, d]" using take_drop_4 [of 0 h] assms by auto
  then have "h ! i = [a, b, c, d] ! i" if "i < 4" for i
    using that nth_take [of i 4 h] by simp
  with h show ?thesis by (simp add: be32_join32)
qed

lemma TunnelMessage_layout:
  assumes wf: "list_all AnyFragment_wf fs" and size: "length (concat (map Fragment_compile fs)) \<le> 1003"
    and sha: "\<And>x. length (sha256 x) = 32" and pad: "length padding = 1003 - length (concat (map Fragment_compile fs))"
    and enc: "length junkE = 1008"
    and m: "ebind (TunnelMessage_make sha256 junkC junkE iv fs) (TunnelMessage_compile padding) = Inr m"
  shows "\<exists>pad'. 0 \<notin> set pad' \<and> length pad' = length padding \<and> tm_iv m = iv \<and>
    tm_encrypted m = take 4 (sha256 (concat (map Fragment_compile fs) @ iv)) @ pad' @ [0] @
      concat (map Fragment_compile fs)"
proof -
  let ?b = "concat (map Fragment_compile fs)"
  let ?n = "of_nat (length ?b) :: u16"
  have n: "unat ?n = length ?b" using size by (simp add: unat_of_nats)
  then have "?n \<le> 1003" using size by (simp add: word_le_nat_alt)
  then have "TunnelMessage_make sha256 junkC junkE iv fs = Inr (TunnelMessage_calculateChecksum sha256
      \<lparr>tm_checksum = junkC, tm_fragments = fs, tm_payloadSize = ?n, tm_iv = iv, tm_encrypted = junkE\<rparr>)"
    by (simp add: TunnelMessage_make_def payload_size_compile [OF wf])
  with m n pad sha enc size show ?thesis
    by (auto simp: TunnelMessage_compile_def TunnelMessage_calculateChecksum_def Let_def be32_checksum
        inr_iff intro!: exI [of _ "map (\<lambda>x. if x = 0 then 0xFF else x) padding"])
qed

lemma message_compile_parse:
  assumes wf: "list_all AnyFragment_wf fs" and size: "length (concat (map Fragment_compile fs)) \<le> 1003"
    and sha: "\<And>x. length (sha256 x) = 32" and pad: "length padding = 1003 - length (concat (map Fragment_compile fs))"
    and enc: "length junkE = 1008" and iv: "length iv = 16"
  shows "\<exists>m. ebind (TunnelMessage_make sha256 junkC junkE iv fs) (TunnelMessage_compile padding) = Inr m \<and>
    length (TunnelMessage_getEncryptedData m) = 1024 \<and>
    TunnelMessage_parse sha256 junkT (TunnelMessage_of junk (TunnelMessage_getEncryptedData m)) = Inr fs"
proof -
  let ?b = "concat (map Fragment_compile fs)"
  let ?n = "of_nat (length ?b) :: u16"
  have n: "unat ?n = length ?b" using size by (simp add: unat_of_nats)
  then have "?n \<le> 1003" using size by (simp add: word_le_nat_alt)
  with n pad enc size obtain m
    where m: "ebind (TunnelMessage_make sha256 junkC junkE iv fs) (TunnelMessage_compile padding) = Inr m"
    by (auto simp: TunnelMessage_make_def payload_size_compile [OF wf] TunnelMessage_compile_def
        TunnelMessage_calculateChecksum_def Let_def)
  obtain pad' where pad': "0 \<notin> set pad'" "length pad' = length padding" and iv': "tm_iv m = iv"
    and e: "tm_encrypted m = take 4 (sha256 (?b @ iv)) @ pad' @ [0] @ ?b"
    using TunnelMessage_layout [OF wf size sha pad enc m] by blast
  have len: "length (tm_encrypted m) = 1008" using sha size pad pad'(2) by (simp add: e)
  have pos: "after_padding (tm_encrypted m) = Inr (5 + length pad')"
    unfolding e using sha pad'(1) by (intro after_padding_layout) simp_all
  have "drop (5 + length pad') (tm_encrypted m) = ?b" "take 4 (tm_encrypted m) = take 4 (sha256 (?b @ iv))"
    using sha by (simp_all add: e)
  moreover have "has_at (tm_encrypted m) (5 + length pad') ?b"
    using has_at_middle [of "take 4 (sha256 (?b @ iv)) @ pad' @ [0]" ?b "[]"] sha by (simp add: e)
  then have "parse_fragments junkT (tm_encrypted m) (5 + length pad') = Inr fs"
    by (rule parse_fragments_compiled [OF wf]) (use sha in \<open>simp add: e\<close>)
  ultimately show ?thesis
    using m iv iv' len pos
    by (simp add: TunnelMessage_getEncryptedData_def TunnelMessage_parse_def TunnelMessage_verifyChecksum_def
        TunnelMessage_of_def)
qed

subsection \<open>Properties\<close>

text \<open>C11. Fragments of at most 1003 bytes in total, put into a tunnel message and compiled with any
  random padding and IV, are what \<open>Message::parse\<close> returns from the message's 1008 bytes: the padding
  ends at the right place, the checksum verifies, and the fragments come back in order.\<close>

theorem tunnel_message_roundtrip:
  assumes wf: "list_all AnyFragment_wf fs" and size: "length (concat (map Fragment_compile fs)) \<le> 1003"
    and sha: "\<And>x. length (sha256 x) = 32" and pad: "length padding = 1003 - length (concat (map Fragment_compile fs))"
    and enc: "length junkE = 1008" and iv: "length iv = 16"
  shows "\<exists>m. ebind (TunnelMessage_make sha256 junkC junkE iv fs) (TunnelMessage_compile padding) = Inr m \<and>
    length (TunnelMessage_getEncryptedData m) = 1024 \<and>
    TunnelMessage_parse sha256 junkT (TunnelMessage_of junk (TunnelMessage_getEncryptedData m)) = Inr fs"
  by (rule message_compile_parse [OF assms])

theorem tunnel_message_roundtrip_witness:
  "\<exists>m. ebind (TunnelMessage_make toy_hash 1 (replicate 1008 2) (replicate 16 3) sample_fragments)
      (TunnelMessage_compile (replicate 950 0)) = Inr m \<and>
    TunnelMessage_parse toy_hash 0 (TunnelMessage_of 5 (TunnelMessage_getEncryptedData m)) = Inr sample_fragments"
proof -
  have "length (concat (map Fragment_compile sample_fragments)) = 53"
    by (simp add: sample_fragments_def FirstFragment_compile_def FollowOnFragment_compile_def)
  then show ?thesis
    using tunnel_message_roundtrip [OF sample_fragments_wf, where ?sha256.0 = toy_hash and padding = "replicate 950 0"
        and junkE = "replicate 1008 2" and iv = "replicate 16 3" and junkC = 1 and junkT = 0 and junk = 5]
    by (auto simp: length_toy_hash)
qed

text \<open>The constructor refuses fragments whose sizes (each one \<open>headerSize() + payload\<close>, their
  sum taken modulo 65536) exceed 1003 bytes, so a message it does accept with a true total below 65536
  compiles inside its 1008-byte array.\<close>

theorem tunnel_message_overfull:
  assumes wf: "list_all AnyFragment_wf fs" and size: "length (concat (map Fragment_compile fs)) < 65536"
  shows "(1003 < length (concat (map Fragment_compile fs)) \<longrightarrow>
      TunnelMessage_make sha256 junkC junkE iv fs =
        Inl (Runtime_error ''total size of all fragments is too large for a tunnel message'')) \<and>
    (\<forall>m. TunnelMessage_make sha256 junkC junkE iv fs = Inr m \<longrightarrow> length junkE = 1008 \<longrightarrow>
      length padding = 1003 - unat (tm_payloadSize m) \<longrightarrow> TunnelMessage_compile padding m \<noteq> Inl Out_of_bounds)"
proof -
  let ?b = "concat (map Fragment_compile fs)"
  have n: "unat (of_nat (length ?b) :: u16) = length ?b" using size by (simp add: unat_of_nats)
  then have "(of_nat (length ?b) :: u16) \<le> 1003 \<longleftrightarrow> length ?b \<le> 1003" by (simp add: word_le_nat_alt)
  with n show ?thesis
    by (auto simp: TunnelMessage_make_def payload_size_compile [OF wf] TunnelMessage_compile_def
        TunnelMessage_calculateChecksum_def Let_def require_def)
qed

theorem tunnel_message_overfull_witness:
  "let f = FollowOn \<lparr>fr_msgId = 7, fr_payload = replicate 997 3, fo_fragNum = 1, fo_isLast = True\<rparr> in
   TunnelMessage_make toy_hash 1 (replicate 1008 2) (replicate 16 3) [f] =
     Inl (Runtime_error ''total size of all fragments is too large for a tunnel message'')"
  using tunnel_message_overfull [of "[FollowOn \<lparr>fr_msgId = 7, fr_payload = replicate 997 3, fo_fragNum = 1,
      fo_isLast = True\<rparr>]" toy_hash 1 "replicate 1008 2" "replicate 16 3" "[]"]
  by (simp add: Let_def FollowOnFragment_wf_def word_le_nat_alt FollowOnFragment_compile_def)

end
