(* ===== verification/Fragment_Handler.thy ===== *)
theory Fragment_Handler
  imports Tunnel_Message
begin

text \<open>
  \<open>Tunnel::FragmentHandler\<close>: the endpoint's table of reassembly states, indexed by message id.
  A call returns the new table, the messages handed to the outbound dispatcher in order, and the
  exception that ended it, if any. \<open>newMessage\<close> is the constructor of an I2NP message (which draws a
  random message id).
\<close>

type_synonym sent = "(bytes \<times> Message) list"

record FragmentHandler =
  fh_states :: "(u32, FragmentState) smap"

type_synonym fh_result = "FragmentHandler \<times> sent \<times> cpp_error option"

text \<open>\<open>m_states[msgId]\<close> default-constructs a missing entry.\<close>

definition fh_state :: "u32 \<Rightarrow> FragmentHandler \<Rightarrow> FragmentState" where
  "fh_state msgId h = (case smap_find (fh_states h) msgId of None \<Rightarrow> FragmentState_default | Some s \<Rightarrow> s)"

definition fh_put :: "u32 \<Rightarrow> FragmentState \<Rightarrow> FragmentHandler \<Rightarrow> FragmentHandler" where
  "fh_put msgId s h = h\<lparr>fh_states := smap_put msgId s (fh_states h)\<rparr>"

definition fh_erase :: "u32 \<Rightarrow> FragmentHandler \<Rightarrow> FragmentHandler" where
  "fh_erase msgId h = h\<lparr>fh_states := smap_erase msgId (fh_states h)\<rparr>"

text \<open>The calls of \<open>sendMessage\<close> are outputs. An exception inside one, which would leave the state of the
  message in the table, is not an outcome here.\<close>

definition checkAndFlush ::
  "(msg_body \<Rightarrow> Message) \<Rightarrow> Message_junk \<Rightarrow> u64 \<Rightarrow> u32 \<Rightarrow> FragmentHandler \<Rightarrow> fh_result" where
  "checkAndFlush newMessage junk now msgId h =
     (let s = fh_state msgId h; h1 = fh_put msgId s h in
      if FragmentState_isComplete s
      then case (fs_firstFragment s, FragmentState_compile s) of
          (Some ff, Inr (data, s')) \<Rightarrow>
            (case ff_mode ff of
               TUNNEL \<Rightarrow> (fh_erase msgId h1,
                 [(ff_toHash ff, newMessage (TunnelGateway_body (TunnelGateway_make (ff_tunnelId ff) data)))], None)
             | ROUTER \<Rightarrow>
                (case Message_fromBytes junk now msgId data True of
                   Inl err \<Rightarrow> (fh_put msgId s' h1, [], Some err)
                 | Inr None \<Rightarrow>
                     (fh_put msgId s' h1, [], Some (Runtime_error ''error sending router message as an endpoint''))
                 | Inr (Some msg) \<Rightarrow> (fh_erase msgId h1, [(ff_toHash ff, msg)], None))
             | LOCAL \<Rightarrow> (fh_erase msgId h1, [], None))
        | _ \<Rightarrow> (h1, [], Some Null_dereference)
      else (h1, [], None))"

text \<open>The body of the loop: a whole message is passed on at once, a fragment goes to its state; a
  state made for a first fragment gets a timer, one made for a follow-on fragment does not.\<close>

definition receiveFragment ::
  "(msg_body \<Rightarrow> Message) \<Rightarrow> Message_junk \<Rightarrow> u64 \<Rightarrow> AnyFragment \<Rightarrow> FragmentHandler \<Rightarrow> fh_result" where
  "receiveFragment newMessage junk now f h =
     (case f of
        First ff \<Rightarrow>
          if \<not> ff_fragmented ff
          then let (h', out, err) = checkAndFlush newMessage junk now (fr_msgId ff) h in
               (h', (ff_toHash ff, newMessage (TunnelGateway_body
                  (TunnelGateway_make (ff_tunnelId ff) (fr_payload ff)))) # out, err)
          else (case smap_find (fh_states h) (fr_msgId ff) of
                  Some s \<Rightarrow>
                    (case FragmentState_setFirstFragment ff s of
                       Inl err \<Rightarrow> (h, [], Some err)
                     | Inr s' \<Rightarrow> checkAndFlush newMessage junk now (fr_msgId ff) (fh_put (fr_msgId ff) s' h))
                | None \<Rightarrow>
                    (case FragmentState_setFirstFragment ff FragmentState_default of
                       Inl err \<Rightarrow> (h, [], Some err)
                     | Inr s' \<Rightarrow> checkAndFlush newMessage junk now (fr_msgId ff)
                                  (fh_put (fr_msgId ff) (FragmentState_setTimer s') h)))
      | FollowOn fof \<Rightarrow>
          (case FragmentState_addFollowOnFragment fof (fh_state (fr_msgId fof) h) of
             Inl err \<Rightarrow> (h, [], Some err)
           | Inr s' \<Rightarrow> checkAndFlush newMessage junk now (fr_msgId fof) (fh_put (fr_msgId fof) s' h)))"

fun receiveFragments ::
  "(msg_body \<Rightarrow> Message) \<Rightarrow> Message_junk \<Rightarrow> u64 \<Rightarrow> AnyFragment list \<Rightarrow> FragmentHandler \<Rightarrow> fh_result" where
  "receiveFragments newMessage junk now [] h = (h, [], None)"
| "receiveFragments newMessage junk now (f # fs) h =
     (case receiveFragment newMessage junk now f h of
        (h1, out1, Some err) \<Rightarrow> (h1, out1, Some err)
      | (h1, out1, None) \<Rightarrow>
          (case receiveFragments newMessage junk now fs h1 of (h2, out2, err) \<Rightarrow> (h2, out1 @ out2, err)))"

text \<open>The error code of the wait is ignored.\<close>

definition fragment_timerCallback :: "u32 \<Rightarrow> FragmentHandler \<Rightarrow> FragmentHandler" where
  "fragment_timerCallback msgId h = fh_erase msgId h"

subsection \<open>Lemmas\<close>

fun frag_msgId :: "AnyFragment \<Rightarrow> u32" where
  "frag_msgId (First f) = fr_msgId f"
| "frag_msgId (FollowOn f) = fr_msgId f"

lemma fh_find [simp]:
  "smap_find (fh_states (fh_put i s h)) j = (if j = i then Some s else smap_find (fh_states h) j)"
  "smap_find (fh_states (fh_erase i h)) j = (if j = i then None else smap_find (fh_states h) j)"
  by (simp_all add: fh_put_def fh_erase_def sm.find_put sm.find_erase)

lemma fh_state_put [simp]: "fh_state i (fh_put i s h) = s"
  by (simp add: fh_state_def)

lemma checkAndFlush_incomplete:
  "\<not> FragmentState_isComplete (fh_state i h) \<Longrightarrow> checkAndFlush nm j now i h = (fh_put i (fh_state i h) h, [], None)"
  by (simp add: checkAndFlush_def Let_def)

lemma checkAndFlush_tunnel:
  "FragmentState_isComplete s \<Longrightarrow> fs_firstFragment s = Some ff \<Longrightarrow> ff_mode ff = TUNNEL \<Longrightarrow>
   FragmentState_compile s = Inr (data, s') \<Longrightarrow> fh_state i h = s \<Longrightarrow>
   checkAndFlush nm j now i h = (fh_erase i (fh_put i s h),
     [(ff_toHash ff, nm (TunnelGateway_body (TunnelGateway_make (ff_tunnelId ff) data)))], None)"
  by (simp add: checkAndFlush_def Let_def)

lemma checkAndFlush_frame:
  "checkAndFlush nm j now i h = (h', out, err) \<Longrightarrow> k \<noteq> i \<Longrightarrow> smap_find (fh_states h') k = smap_find (fh_states h) k"
  by (auto simp: checkAndFlush_def Let_def split: if_splits option.splits sum.splits prod.splits DeliveryMode.splits)

lemma receiveFragment_frame:
  "receiveFragment nm j now f h = (h', out, err) \<Longrightarrow> k \<noteq> frag_msgId f \<Longrightarrow>
   smap_find (fh_states h') k = smap_find (fh_states h) k"
  by (cases f)
    (auto simp: receiveFragment_def Let_def split: if_splits option.splits sum.splits prod.splits
      dest!: checkAndFlush_frame [where k = k])

text \<open>Up to its timer, the state of a message is what the class \<open>FragmentState\<close> computes.\<close>

definition same_fragments :: "FragmentState \<Rightarrow> FragmentState \<Rightarrow> bool" where
  "same_fragments s t \<longleftrightarrow> fs_lastFragNum s = fs_lastFragNum t \<and> fs_firstFragment s = fs_firstFragment t \<and>
     fs_followOnFragments s = fs_followOnFragments t"

lemma same_fragments_refl [simp]: "same_fragments s s"
  by (simp add: same_fragments_def)

lemma add_ignores_timer:
  "same_fragments s t \<Longrightarrow> FragmentState_add f s = Inr s' \<Longrightarrow>
   \<exists>t'. FragmentState_add f t = Inr t' \<and> same_fragments s' t'"
  by (cases f)
    (auto simp: same_fragments_def FragmentState_setFirstFragment_def FragmentState_addFollowOnFragment_def
      require_def split: option.splits if_splits)

lemma complete_ignores_timer:
  "same_fragments s t \<Longrightarrow> FragmentState_isComplete s = FragmentState_isComplete t"
  by (auto simp: same_fragments_def FragmentState_isComplete_def split: option.splits)

lemma compile_ignores_timer:
  "same_fragments s t \<Longrightarrow> FragmentState_compile s = Inr (d, s') \<Longrightarrow> \<exists>t'. FragmentState_compile t = Inr (d, t')"
  by (auto simp: same_fragments_def FragmentState_compile_def Let_def split: option.splits)

lemma receiveFragments_snoc:
  "receiveFragments nm j now fs h = (h1, [], None) \<Longrightarrow>
   receiveFragments nm j now (fs @ [f]) h = receiveFragment nm j now f h1"
  by (induction fs arbitrary: h) (auto split: prod.splits option.splits)

text \<open>One fragment of a split message, from the handler's point of view.\<close>

lemma receiveFragment_add:
  assumes f: "case f of First ff \<Rightarrow> ff_fragmented ff | FollowOn _ \<Rightarrow> True"
    and add: "FragmentState_add f (fh_state (frag_msgId f) h) = Inr s"
  shows "\<exists>t. same_fragments s t \<and>
    receiveFragment nm j now f h = checkAndFlush nm j now (frag_msgId f) (fh_put (frag_msgId f) t h)"
proof (cases f)
  case (First ff)
  show ?thesis
  proof (cases "smap_find (fh_states h) (fr_msgId ff)")
    case None
    with First f add show ?thesis
      by (intro exI [of _ "FragmentState_setTimer s"])
        (simp add: receiveFragment_def fh_state_def same_fragments_def FragmentState_setTimer_def)
  next
    case (Some u)
    with First f add show ?thesis
      by (intro exI [of _ s]) (simp add: receiveFragment_def fh_state_def)
  qed
next
  case (FollowOn fof)
  with add show ?thesis by (intro exI [of _ s]) (simp add: receiveFragment_def)
qed

lemma receive_incomplete:
  assumes "\<And>f. f \<in> set fs \<Longrightarrow> frag_msgId f = i \<and> (case f of First ff \<Rightarrow> ff_fragmented ff | FollowOn _ \<Rightarrow> True)"
    and "smap_find (fh_states h) i = None"
    and "\<And>ys. prefix ys fs \<Longrightarrow> \<exists>s. FragmentState_addAll ys FragmentState_default = Inr s \<and> \<not> FragmentState_isComplete s"
  shows "\<exists>h'. receiveFragments nm j now fs h = (h', [], None) \<and>
    same_fragments (projr (FragmentState_addAll fs FragmentState_default)) (fh_state i h') \<and>
    (\<forall>k. k \<noteq> i \<longrightarrow> smap_find (fh_states h') k = smap_find (fh_states h) k)"
  using assms
proof (induction fs rule: rev_induct)
  case Nil
  then show ?case by (simp add: fh_state_def)
next
  case (snoc f fs)
  have pre: "prefix fs (fs @ [f])" by simp
  from snoc.IH obtain h1 where h1: "receiveFragments nm j now fs h = (h1, [], None)"
    and st: "same_fragments (projr (FragmentState_addAll fs FragmentState_default)) (fh_state i h1)"
    and frame: "\<And>k. k \<noteq> i \<Longrightarrow> smap_find (fh_states h1) k = smap_find (fh_states h) k"
    using snoc.prems by (metis in_set_conv_decomp prefix_snoc butlast_snoc in_set_butlastD)
  obtain s where s: "FragmentState_addAll fs FragmentState_default = Inr s"
    using snoc.prems(3) [OF pre] by blast
  obtain s' where s': "FragmentState_addAll (fs @ [f]) FragmentState_default = Inr s'" "\<not> FragmentState_isComplete s'"
    using snoc.prems(3) [of "fs @ [f]"] by auto
  then have "FragmentState_add f s = Inr s'" by (simp add: FragmentState_addAll_snoc s)
  then obtain t where t: "FragmentState_add f (fh_state i h1) = Inr t" "same_fragments s' t"
    using add_ignores_timer [of s "fh_state i h1" f s'] st s by auto
  have fi: "frag_msgId f = i" "case f of First ff \<Rightarrow> ff_fragmented ff | FollowOn _ \<Rightarrow> True"
    using snoc.prems(1) [of f] by auto
  obtain u where u: "same_fragments t u"
    "receiveFragment nm j now f h1 = checkAndFlush nm j now i (fh_put i u h1)"
    using receiveFragment_add [of f h1 t nm j now] fi t(1) by auto
  have "same_fragments s' u" using t(2) u(1) by (simp add: same_fragments_def)
  then have "receiveFragment nm j now f h1 = (fh_put i u (fh_put i u h1), [], None)"
    using u(2) s'(2) complete_ignores_timer by (simp add: checkAndFlush_incomplete)
  moreover have "receiveFragments nm j now (fs @ [f]) h = receiveFragment nm j now f h1"
    using h1 by (rule receiveFragments_snoc)
  ultimately show ?case using s'(1) \<open>same_fragments s' u\<close> frame by auto
qed

lemma receive_complete:
  assumes split: "xs = ys @ [z]"
    and frs: "\<And>f. f \<in> set xs \<Longrightarrow> frag_msgId f = i \<and> (case f of First ff \<Rightarrow> ff_fragmented ff | FollowOn _ \<Rightarrow> True)"
    and fresh: "smap_find (fh_states h) i = None"
    and inc: "\<And>ws. strict_prefix ws xs \<Longrightarrow>
      \<exists>s. FragmentState_addAll ws FragmentState_default = Inr s \<and> \<not> FragmentState_isComplete s"
    and full: "FragmentState_addAll xs FragmentState_default = Inr s" "FragmentState_isComplete s"
      "FragmentState_compile s = Inr (data, s')" "fs_firstFragment s = Some ff" "ff_mode ff = TUNNEL"
  shows "\<exists>h'. receiveFragments nm j now xs h = (h', [(ff_toHash ff,
      nm (TunnelGateway_body (TunnelGateway_make (ff_tunnelId ff) data)))], None) \<and>
    (\<forall>k. smap_find (fh_states h') k = smap_find (fh_states h) k)"
proof -
  have pre: "\<exists>s. FragmentState_addAll ws FragmentState_default = Inr s \<and> \<not> FragmentState_isComplete s"
    if "prefix ws ys" for ws
    using that split by (intro inc) (auto simp: strict_prefix_def prefix_def)
  from receive_incomplete [of ys i h nm j now] frs fresh pre split
  obtain h1 where h1: "receiveFragments nm j now ys h = (h1, [], None)"
    and st: "same_fragments (projr (FragmentState_addAll ys FragmentState_default)) (fh_state i h1)"
    and frame: "\<And>k. k \<noteq> i \<Longrightarrow> smap_find (fh_states h1) k = smap_find (fh_states h) k"
    by auto
  obtain r where r: "FragmentState_addAll ys FragmentState_default = Inr r" using pre [of ys] by auto
  with full(1) split have "FragmentState_add z r = Inr s" by (simp add: FragmentState_addAll_snoc)
  then obtain t where t: "FragmentState_add z (fh_state i h1) = Inr t" "same_fragments s t"
    using add_ignores_timer [of r "fh_state i h1" z s] st r by auto
  have zi: "frag_msgId z = i" "case z of First ff \<Rightarrow> ff_fragmented ff | FollowOn _ \<Rightarrow> True"
    using frs [of z] split by auto
  obtain u where u: "same_fragments t u"
    "receiveFragment nm j now z h1 = checkAndFlush nm j now i (fh_put i u h1)"
    using receiveFragment_add [of z h1 t nm j now] zi t(1) by auto
  have su: "same_fragments s u" using t(2) u(1) by (simp add: same_fragments_def)
  obtain u' where "FragmentState_compile u = Inr (data, u')"
    using compile_ignores_timer [OF su full(3)] by blast
  moreover have "fs_firstFragment u = Some ff" using su full(4) by (simp add: same_fragments_def)
  moreover have "FragmentState_isComplete u" using complete_ignores_timer [OF su] full(2) by simp
  ultimately have "receiveFragment nm j now z h1 = (fh_erase i (fh_put i u (fh_put i u h1)),
      [(ff_toHash ff, nm (TunnelGateway_body (TunnelGateway_make (ff_tunnelId ff) data)))], None)"
    using u(2) full(5) by (simp add: checkAndFlush_tunnel)
  then show ?thesis
    using receiveFragments_snoc [OF h1, of z] split frame fresh by auto
qed

subsection \<open>Properties\<close>

text \<open>C10. The endpoint of a tunnel reassembles and delivers: the fragments of one message (a fragmented
  tunnel-mode first fragment and the numbered follow-on fragments), received in any order by a handler
  that holds nothing under their message id, produce no error and exactly one tunnel gateway message, to
  the router and tunnel of the first fragment and with the concatenated payloads, and leave the table of
  states as it was.\<close>

theorem handler_delivers:
  assumes num: "numbered i 1 fs" "fs \<noteq> []" "length fs < 64"
    and first: "ff_mode ff = TUNNEL" "ff_fragmented ff" "fr_msgId ff = i"
    and order: "mset xs = mset (First ff # map FollowOn fs)"
    and fresh: "smap_find (fh_states h) i = None"
  shows "\<exists>h'. receiveFragments nm junk now xs h = (h', [(ff_toHash ff, nm (TunnelGateway_body
      (TunnelGateway_make (ff_tunnelId ff) (fr_payload ff @ concat (map fr_payload fs)))))], None) \<and>
    (\<forall>k. smap_find (fh_states h') k = smap_find (fh_states h) k)"
proof -
  have set: "set xs = insert (First ff) (FollowOn ` set fs)"
    using order by (metis set_mset_mset list.simps(15) image_set)
  then have "xs \<noteq> []" by auto
  then obtain ys z where split: "xs = ys @ [z]" by (metis rev_exhaust)
  have frs: "frag_msgId f = i \<and> (case f of First ff \<Rightarrow> ff_fragmented ff | FollowOn _ \<Rightarrow> True)"
    if "f \<in> set xs" for f
    using that first num(1) by (auto simp: set numbered_def in_set_conv_nth)
  obtain s s' where s: "FragmentState_addAll xs FragmentState_default = Inr s" "FragmentState_isComplete s"
    "FragmentState_compile s = Inr (fr_payload ff @ concat (map fr_payload fs), s')"
    using reassembly(1) [OF num first(2) order] by blast
  have "distinct (First ff # map FollowOn fs)"
    using numbered_distinct [OF num(1)] by (auto simp: distinct_map inj_on_def)
  then have "distinct xs" using order mset_eq_imp_distinct_iff by blast
  from addAll_partial [OF num(1) this, of ff] s(1) set
  have "fs_firstFragment s = Some ff" by auto
  with receive_complete [OF split frs fresh reassembly(2) [OF num first(2) order] s(1,2,3)] first(1)
  show ?thesis by auto
qed

theorem handler_delivers_witness:
  "\<exists>h'. receiveFragments (Message_make 1 2 3) sample_junk 4 (rev sample_fragments) \<lparr>fh_states = []\<rparr> =
      (h', [(replicate 32 4, Message_make 1 2 3 (TunnelGateway_body (TunnelGateway_make 9 [1, 2, 3])))], None)"
  using handler_delivers [of 7 "[\<lparr>fr_msgId = 7, fr_payload = [3], fo_fragNum = 1, fo_isLast = True\<rparr>]"
      "\<lparr>fr_msgId = 7, fr_payload = [1, 2], ff_mode = TUNNEL, ff_fragmented = True, ff_tunnelId = 9,
        ff_toHash = replicate 32 4\<rparr>" "rev sample_fragments" "\<lparr>fh_states = []\<rparr>"
      "Message_make 1 2 3" sample_junk 4]
  by (auto simp: sample_fragments_def numbered_def smap_find_def)

text \<open>A fragment, whatever its kind and whether or not it raises an error, changes no state but the
  one under its own message id, and the expiry of a timer removes exactly the state it was set for.\<close>

theorem handler_isolation:
  assumes "receiveFragment nm junk now f h = (h', out, err)"
  shows "(\<forall>k. k \<noteq> frag_msgId f \<longrightarrow> smap_find (fh_states h') k = smap_find (fh_states h) k) \<and>
    (\<forall>k. smap_find (fh_states (fragment_timerCallback i h)) k =
      (if k = i then None else smap_find (fh_states h) k))"
  using receiveFragment_frame [OF assms] by (auto simp: fragment_timerCallback_def)

theorem handler_isolation_witness:
  "\<exists>h' out err. receiveFragment (Message_make 1 2 3) sample_junk 4 (hd sample_fragments)
      \<lparr>fh_states = [(8, FragmentState_default)]\<rparr> = (h', out, err) \<and>
    smap_find (fh_states h') 8 = Some FragmentState_default"
proof -
  obtain h' out err where r: "receiveFragment (Message_make 1 2 3) sample_junk 4 (hd sample_fragments)
      \<lparr>fh_states = [(8, FragmentState_default)]\<rparr> = (h', out, err)" by (metis prod_cases3)
  have "frag_msgId (hd sample_fragments) = 7" by (simp add: sample_fragments_def)
  with handler_isolation [OF r] r show ?thesis by (auto simp: smap_find_def)
qed

end
