(* ===== verification/Tunnels.thy ===== *)
theory Tunnels
  imports Fragment_Handler
begin

text \<open>
  The tunnels of \<open>lib/i2p/tunnel\<close>: \<open>Tunnel\<close> with its inbound and outbound constructors, and
  \<open>Tunnel::Manager\<close>, which builds tunnels, takes part in those of others and routes tunnel data. A
  \<open>TunnelPtr\<close> is an index into \<open>mg_heap\<close>: the same tunnel is in the table of pending builds and in the
  table of tunnels. The ciphers, hashes, the clock, what the generator draws and the contents of
  uninitialized memory are the fields of \<open>tunnel_env\<close>.
\<close>

record tunnel_env =
  te_sha256 :: "bytes \<Rightarrow> bytes"
  te_elg_encrypt :: "bytes \<Rightarrow> bytes \<Rightarrow> bytes"
  te_elg_decrypt :: "bytes \<Rightarrow> bytes \<Rightarrow> bytes"
  te_aes_encrypt :: "bytes \<Rightarrow> bytes \<Rightarrow> bytes \<Rightarrow> bytes"
  te_aes_decrypt :: "bytes \<Rightarrow> bytes \<Rightarrow> bytes \<Rightarrow> bytes"
  te_aes_ecb :: "bytes \<Rightarrow> bytes \<Rightarrow> bytes"
  te_myHash :: bytes
  te_elgKey :: bytes
  te_now :: u64
  te_secs :: u32
  te_newMessage :: "msg_body \<Rightarrow> Message"
  te_padding :: bytes
  te_messagePadding :: bytes
  te_iv :: bytes
  te_msgId :: u32
  te_hours :: u32
  te_random :: "nat \<Rightarrow> request_random"
  te_nextTunnelId :: u32
  te_junkRequest :: BuildRequestRecord
  te_junkBytes :: bytes
  te_junk32 :: u32
  te_junk8 :: byte
  te_junkMessage :: Message_junk

subsection \<open>Tunnel\<close>

datatype TunnelDirection = TUNNEL_INBOUND | TUNNEL_OUTBOUND

datatype TunnelState = REQUESTED | OPERATIONAL | FAILED

record Tunnel =
  tn_direction :: TunnelDirection
  tn_hops :: "BuildRequestRecord list"
  tn_state :: TunnelState
  tn_tunnelId :: u32
  tn_nextMsgId :: u32

definition as_record :: "'a BuildRecord_scheme \<Rightarrow> BuildRecord" where
  "as_record r = \<lparr>br_header = br_header r, br_data = br_data r\<rparr>"

definition Tunnel_getRecords :: "Tunnel \<Rightarrow> BuildRecord list" where
  "Tunnel_getRecords t = map as_record (tn_hops t)"

definition Tunnel_getDownstream :: "Tunnel \<Rightarrow> bytes result" where
  "Tunnel_getDownstream t = (case tn_hops t of [] \<Rightarrow> Inl Out_of_bounds | h # _ \<Rightarrow> Inr (brq_localHash h))"

fun emap :: "('a \<Rightarrow> 'b result) \<Rightarrow> 'a list \<Rightarrow> 'b list result" where
  "emap f [] = Inr []"
| "emap f (x # xs) = ebind (f x) (\<lambda>y. ebind (emap f xs) (\<lambda>ys. Inr (y # ys)))"

fun efold :: "('a \<Rightarrow> 'b \<Rightarrow> 'b result) \<Rightarrow> 'a list \<Rightarrow> 'b \<Rightarrow> 'b result" where
  "efold f [] b = Inr b"
| "efold f (x # xs) b = ebind (f x b) (efold f xs)"

text \<open>The two loops over the records for one hop, and the loop over the hops. The reverse iterator is
  stepped once before the loop: the last hop is skipped.\<close>

definition check_response :: "tunnel_env \<Rightarrow> BuildRecord \<Rightarrow> bool \<Rightarrow> bool result" where
  "check_response env r allgood =
     ebind (BuildResponseRecord_parse (te_sha256 env) (BuildResponseRecord_of (te_junk8 env) r)) (\<lambda>resp.
     Inr (allgood \<and> brs_reply resp = Reply_code REPLY_SUCCESS))"

fun response_loop :: "tunnel_env \<Rightarrow> BuildRequestRecord list \<Rightarrow> BuildRecord list \<Rightarrow> bool \<Rightarrow> (BuildRecord list \<times> bool) result" where
  "response_loop env [] records allgood = Inr (records, allgood)"
| "response_loop env (h # hs) records allgood =
     ebind (emap (BuildRecord_decrypt_aes (te_aes_decrypt env) (brq_replyIV h) (brq_replyKey h)) records) (\<lambda>records.
     ebind (efold (check_response env) records allgood) (\<lambda>allgood.
     response_loop env hs records allgood))"

definition Tunnel_handleResponses :: "tunnel_env \<Rightarrow> BuildRecord list \<Rightarrow> Tunnel \<Rightarrow> (Tunnel \<times> BuildRecord list) result" where
  "Tunnel_handleResponses env records t =
     ebind (require (tn_hops t \<noteq> []) Out_of_bounds) (\<lambda>_.
     ebind (response_loop env (tl (rev (tn_hops t))) records True) (\<lambda>(records, allgood).
     Inr (t\<lparr>tn_state := (if allgood then OPERATIONAL else FAILED)\<rparr>, records)))"

text \<open>Each record is encrypted to its hop and then decrypted with the reply keys of the hops before it,
  the nearest first; \<open>before\<close> is the list of those hops in that order.\<close>

definition peel :: "tunnel_env \<Rightarrow> BuildRequestRecord \<Rightarrow> BuildRequestRecord \<Rightarrow> BuildRequestRecord result" where
  "peel env r h = BuildRecord_decrypt_aes (te_aes_decrypt env) (brq_replyIV r) (brq_replyKey r) h"

definition secure_one :: "tunnel_env \<Rightarrow> BuildRequestRecord \<Rightarrow> BuildRequestRecord" where
  "secure_one env h =
     BuildRecord_encrypt_elg (te_sha256 env) (te_elg_encrypt env) (te_junkBytes env) (brq_encryptionKey h)
       (BuildRequestRecord_compile (BuildRecord_setHeader (take 16 (brq_localHash h)) h))"

fun secure_loop :: "tunnel_env \<Rightarrow> BuildRequestRecord list \<Rightarrow> BuildRequestRecord list \<Rightarrow> BuildRequestRecord list result" where
  "secure_loop env before [] = Inr []"
| "secure_loop env before (h # hs) =
     ebind (efold (peel env) before (secure_one env h)) (\<lambda>h'.
     ebind (secure_loop env (h' # before) hs) (\<lambda>hs'. Inr (h' # hs')))"

definition Tunnel_secureRecords :: "tunnel_env \<Rightarrow> Tunnel \<Rightarrow> Tunnel result" where
  "Tunnel_secureRecords env t = ebind (secure_loop env [] (tn_hops t)) (\<lambda>hs. Inr (t\<lparr>tn_hops := hs\<rparr>))"

text \<open>A later hop of the loop points to the hop made before it, at its tunnel id.\<close>

fun hop_loop :: "tunnel_env \<Rightarrow> nat \<Rightarrow> BuildRequestRecord list \<Rightarrow> RouterIdentity list \<Rightarrow> BuildRequestRecord list" where
  "hop_loop env i hs [] = hs"
| "hop_loop env i hs (x # xs) =
     hop_loop env (Suc i)
       (BuildRequestRecord_make (te_sha256 env) (te_junkRequest env) (te_random env i) (te_hours env) x
          (brq_localHash (hd hs)) (brq_tunnelId (hd hs)) # hs) xs"

definition InboundTunnel_make :: "tunnel_env \<Rightarrow> bytes \<Rightarrow> RouterIdentity list \<Rightarrow> Tunnel result" where
  "InboundTunnel_make env myHash hops =
     (let t = \<lparr>tn_direction = TUNNEL_INBOUND, tn_hops = [], tn_state = REQUESTED, tn_tunnelId = te_junk32 env,
               tn_nextMsgId = te_junk32 env\<rparr>
      in case hops of
           [] \<Rightarrow> Inr (t\<lparr>tn_state := OPERATIONAL\<rparr>)
         | x # xs \<Rightarrow>
             let h = BuildRequestRecord_make_random (te_sha256 env) (te_junkRequest env) (te_nextTunnelId env)
                       (te_random env 0) (te_hours env) x myHash;
                 hs = hop_loop env 1 [h] xs
             in Tunnel_secureRecords env
                  (t\<lparr>tn_tunnelId := brq_nextTunnelId h, tn_nextMsgId := brq_nextMsgId h,
                     tn_hops := BuildRequestRecord_setType GATEWAY (hd hs) # tl hs\<rparr>))"

definition OutboundTunnel_make :: "tunnel_env \<Rightarrow> RouterIdentity list \<Rightarrow> bytes \<Rightarrow> u32 \<Rightarrow> Tunnel result" where
  "OutboundTunnel_make env hops replyHash replyTunnelId =
     (let t = \<lparr>tn_direction = TUNNEL_OUTBOUND, tn_hops = [], tn_state = REQUESTED, tn_tunnelId = te_junk32 env,
               tn_nextMsgId = te_junk32 env\<rparr>
      in case rev hops of
           [] \<Rightarrow> Inr (t\<lparr>tn_state := OPERATIONAL\<rparr>)
         | x # xs \<Rightarrow>
             let h = BuildRequestRecord_setNextTunnelId replyTunnelId (BuildRequestRecord_setType ENDPOINT
                       (BuildRequestRecord_make_random (te_sha256 env) (te_junkRequest env) (te_nextTunnelId env)
                         (te_random env 0) (te_hours env) x replyHash))
             in Tunnel_secureRecords env
                  (t\<lparr>tn_tunnelId := brq_nextTunnelId h, tn_nextMsgId := brq_nextMsgId h, tn_hops := hop_loop env 1 [h] xs\<rparr>))"

subsection \<open>Manager\<close>

record Manager =
  mg_pending :: "(u32, nat) smap"
  mg_tunnels :: "(u32, nat) smap"
  mg_participating :: "(u32, BuildRequestRecord) smap"
  mg_heap :: "Tunnel list"
  mg_fragments :: FragmentHandler
  mg_graceful :: bool

datatype mg_out =
    Mg_send bytes Message
  | Mg_recirculate bytes bytes
  | Mg_success u32
  | Mg_failure u32
  | Mg_expire u32
  | Mg_timeout u32
  | Mg_arm_participating u32
  | Mg_arm_callback

type_synonym mg_result = "Manager \<times> mg_out list \<times> cpp_error option"

definition Manager_make :: Manager where
  "Manager_make = \<lparr>mg_pending = [], mg_tunnels = [], mg_participating = [], mg_heap = [],
     mg_fragments = \<lparr>fh_states = []\<rparr>, mg_graceful = False\<rparr>"

text \<open>The pending-tunnel part of \<open>receiveRecords\<close>: \<open>None\<close> for a tunnel that was not requested, where the
  member returns. \<open>std::move(t)\<close> empties \<open>t\<close>, which the hook then dereferences.\<close>

definition receive_pending ::
  "tunnel_env \<Rightarrow> u32 \<Rightarrow> BuildRecord list \<Rightarrow> Manager \<Rightarrow> (BuildRecord list option) \<times> mg_result" where
  "receive_pending env msgId records mg =
     (case smap_find (mg_pending mg) msgId of
        None \<Rightarrow> (Some records, mg, [], None)
      | Some i \<Rightarrow>
          if length (mg_heap mg) \<le> i then (None, mg, [], Some Null_dereference)
          else if tn_state (mg_heap mg ! i) \<noteq> REQUESTED then (None, mg, [], None)
          else case Tunnel_handleResponses env records (mg_heap mg ! i) of
            Inl err \<Rightarrow> (None, mg, [], Some err)
          | Inr (t, records) \<Rightarrow>
              (let mg = mg\<lparr>mg_heap := (mg_heap mg)[i := t]\<rparr> in
               if tn_state t = OPERATIONAL
               then (None, mg\<lparr>mg_tunnels := smap_put (tn_tunnelId t) i (mg_tunnels mg),
                              mg_pending := smap_erase msgId (mg_pending mg)\<rparr>, [], Some Null_dereference)
               else (Some records, mg\<lparr>mg_pending := smap_erase msgId (mg_pending mg)\<rparr>, [Mg_failure (tn_tunnelId t)], None)))"

fun find_record :: "bytes \<Rightarrow> BuildRecord list \<Rightarrow> nat option" where
  "find_record h [] = None"
| "find_record h (r # rs) = (if br_header r = h then Some 0 else map_option Suc (find_record h rs))"

definition success_response :: "tunnel_env \<Rightarrow> BuildRecord" where
  "success_response env =
     as_record (BuildResponseRecord_compile (te_sha256 env) (te_padding env)
       (BuildResponseRecord_make (te_junkBytes env) (te_junkBytes env) REPLY_SUCCESS))"

definition forward_records :: "tunnel_env \<Rightarrow> BuildRequestRecord \<Rightarrow> BuildRecord list \<Rightarrow> mg_out" where
  "forward_records env req records =
     (if BuildRequestRecord_getType req = ENDPOINT
      then let vtbr = Message_make (brq_nextMsgId req) (te_junk32 env) (te_now env) (VariableTunnelBuildReply_body records)
           in Mg_send (brq_nextHash req) (te_newMessage env (TunnelGateway_body (TunnelGateway_make (brq_nextTunnelId req)
                (Message_toBytes (te_sha256 env) (te_now env) (te_secs env) True vtbr))))
      else Mg_send (brq_nextHash req)
             (Message_make (brq_nextMsgId req) (te_junk32 env) (te_now env) (VariableTunnelBuild_body records)))"

text \<open>The second part: a record with the first half of our hash is a request to take part.\<close>

definition participate :: "tunnel_env \<Rightarrow> BuildRecord list \<Rightarrow> Manager \<Rightarrow> mg_result" where
  "participate env records mg =
     (case find_record (take 16 (te_myHash env)) records of
        None \<Rightarrow> (mg, [], None)
      | Some k \<Rightarrow>
          if mg_graceful mg then (mg, [], None)
          else case ebind (BuildRecord_decrypt_elg (te_sha256 env) (te_elg_decrypt env) (te_elgKey env)
                       (BuildRequestRecord_of (te_junkRequest env) (records ! k))) BuildRequestRecord_parse of
            Inl err \<Rightarrow> (mg, [], Some err)
          | Inr req \<Rightarrow>
              if smap_find (mg_participating mg) (brq_tunnelId req) \<noteq> None then (mg, [], None)
              else (let mg = mg\<lparr>mg_participating := smap_put (brq_tunnelId req) req (mg_participating mg)\<rparr>;
                        out = [Mg_arm_participating (brq_tunnelId req)]
                    in case emap (BuildRecord_encrypt_aes (te_aes_encrypt env) (brq_replyIV req) (brq_replyKey req))
                              (records[k := success_response env]) of
                         Inl err \<Rightarrow> (mg, out, Some err)
                       | Inr records \<Rightarrow> (mg, out @ [forward_records env req records], None)))"

definition receiveRecords :: "tunnel_env \<Rightarrow> u32 \<Rightarrow> BuildRecord list \<Rightarrow> Manager \<Rightarrow> mg_result" where
  "receiveRecords env msgId records mg =
     (case receive_pending env msgId records mg of
        (None, r) \<Rightarrow> r
      | (Some records, mg, out, err) \<Rightarrow>
          (let (mg, out', err) = participate env records mg in (mg, out @ out', err)))"

text \<open>One fragment of gateway data: a tunnel message of its own.\<close>

definition gateway_message :: "tunnel_env \<Rightarrow> BuildRequestRecord \<Rightarrow> AnyFragment \<Rightarrow> mg_out result" where
  "gateway_message env hop f =
     ebind (TunnelMessage_make (te_sha256 env) (te_junk32 env) (te_junkBytes env) (te_iv env) [f]) (\<lambda>m.
     ebind (TunnelMessage_compile (te_messagePadding env) m) (\<lambda>m.
     ebind (TunnelMessage_encrypt (te_aes_ecb env) (te_aes_encrypt env) (brq_tunnelIVKey hop) (brq_tunnelLayerKey hop) m) (\<lambda>m.
     Inr (Mg_send (brq_nextHash hop) (te_newMessage env
       (TunnelData_body (TunnelData_make (brq_nextTunnelId hop) (TunnelMessage_getEncryptedData m))))))))"

fun gateway_loop :: "(nat \<Rightarrow> tunnel_env) \<Rightarrow> nat \<Rightarrow> BuildRequestRecord \<Rightarrow> AnyFragment list \<Rightarrow> mg_out list \<times> cpp_error option" where
  "gateway_loop env i hop [] = ([], None)"
| "gateway_loop env i hop (f # fs) =
     (case gateway_message (env i) hop f of
        Inl err \<Rightarrow> ([], Some err)
      | Inr m \<Rightarrow> (let (out, err) = gateway_loop env (Suc i) hop fs in (m # out, err)))"

definition receiveGatewayData :: "(nat \<Rightarrow> tunnel_env) \<Rightarrow> bytes \<Rightarrow> u32 \<Rightarrow> bytes \<Rightarrow> Manager \<Rightarrow> mg_result" where
  "receiveGatewayData env from tunnelId data mg =
     (case smap_find (mg_participating mg) tunnelId of
        Some hop \<Rightarrow>
          if BuildRequestRecord_getType hop \<noteq> GATEWAY then (mg, [], None)
          else (case fragmentMessage (te_msgId (env 0)) (te_junk32 (env 0)) (te_junkBytes (env 0)) data of
                  Inl err \<Rightarrow> (mg, [], Some err)
                | Inr fragments \<Rightarrow> (let (out, err) = gateway_loop env 0 hop fragments in (mg, out, err)))
      | None \<Rightarrow>
          (case smap_find (mg_tunnels mg) tunnelId of
             None \<Rightarrow> (mg, [], None)
           | Some i \<Rightarrow>
               if length (mg_heap mg) \<le> i then (mg, [], Some Null_dereference)
               else if tn_direction (mg_heap mg ! i) = TUNNEL_INBOUND \<and> tn_state (mg_heap mg ! i) = OPERATIONAL
               then (mg, [Mg_recirculate from data], None) else (mg, [], None)))"

definition tunnel_receiveData :: "tunnel_env \<Rightarrow> u32 \<Rightarrow> bytes \<Rightarrow> Manager \<Rightarrow> mg_result" where
  "tunnel_receiveData env tunnelId data mg =
     (case smap_find (mg_participating mg) tunnelId of
        None \<Rightarrow> (mg, [], None)
      | Some hop \<Rightarrow>
          (case TunnelMessage_encrypt (te_aes_ecb env) (te_aes_encrypt env) (brq_tunnelIVKey hop) (brq_tunnelLayerKey hop)
                  (TunnelMessage_of (te_junk32 env) data) of
             Inl err \<Rightarrow> (mg, [], Some err)
           | Inr m \<Rightarrow>
               (case BuildRequestRecord_getType hop of
                  PARTICIPANT \<Rightarrow>
                    (mg, [Mg_send (brq_nextHash hop) (te_newMessage env
                       (TunnelData_body (TunnelData_make (brq_nextTunnelId hop) (TunnelMessage_getEncryptedData m))))], None)
                | ENDPOINT \<Rightarrow>
                    (case TunnelMessage_parse (te_sha256 env) (te_junk32 env) m of
                       Inl err \<Rightarrow> (mg, [], Some err)
                     | Inr fragments \<Rightarrow>
                         (let (h, sent, err) = receiveFragments (te_newMessage env) (te_junkMessage env) (te_now env)
                            fragments (mg_fragments mg)
                          in (mg\<lparr>mg_fragments := h\<rparr>, map (\<lambda>(to, m). Mg_send to m) sent, err)))
                | GATEWAY \<Rightarrow> (mg, [], None))))"

text \<open>The error code of the waits is ignored.\<close>

definition tunnel_timerCallback :: "bool \<Rightarrow> u32 \<Rightarrow> Manager \<Rightarrow> Manager" where
  "tunnel_timerCallback participating tunnelId mg =
     (if participating then mg\<lparr>mg_participating := smap_erase tunnelId (mg_participating mg)\<rparr>
      else mg\<lparr>mg_tunnels := smap_erase tunnelId (mg_tunnels mg)\<rparr>)"

definition tunnelBuildExpireCallback :: "u32 \<Rightarrow> mg_out list" where
  "tunnelBuildExpireCallback tunnelId = [Mg_timeout tunnelId]"

definition getParticipatingTunnelCount :: "Manager \<Rightarrow> u32" where
  "getParticipatingTunnelCount mg = of_nat (length (mg_participating mg))"

definition tunnel_callback :: "Manager \<Rightarrow> mg_out list" where
  "tunnel_callback mg = (if getParticipatingTunnelCount mg = 0 \<and> mg_graceful mg then [] else [Mg_arm_callback])"

definition tunnel_gracefulShutdown :: "Manager \<Rightarrow> Manager" where
  "tunnel_gracefulShutdown mg = mg\<lparr>mg_graceful := True\<rparr>"

text \<open>A new tunnel goes into both tables under its tunnel id. The timer is a local variable: leaving the
  member destroys it, and its handler runs with an error code it does not look at.\<close>

definition launch :: "tunnel_env \<Rightarrow> Tunnel \<Rightarrow> Manager \<Rightarrow> mg_result" where
  "launch env tun mg =
     (let i = length (mg_heap mg); tunnelId = tn_tunnelId tun;
          mg = mg\<lparr>mg_heap := mg_heap mg @ [tun], mg_tunnels := smap_put tunnelId i (mg_tunnels mg),
                  mg_pending := smap_put tunnelId i (mg_pending mg)\<rparr>
      in case Tunnel_getDownstream tun of
           Inl err \<Rightarrow> (mg, [], Some err)
         | Inr rh \<Rightarrow>
             (mg, [Mg_send rh (te_newMessage env (VariableTunnelBuild_body (Tunnel_getRecords tun))), Mg_expire tunnelId], None))"

definition buildIBTunnel :: "tunnel_env \<Rightarrow> RouterIdentity list \<Rightarrow> Manager \<Rightarrow> mg_result" where
  "buildIBTunnel env hops mg =
     (case InboundTunnel_make env (te_myHash env) hops of
        Inl err \<Rightarrow> (mg, [], Some err)
      | Inr tun \<Rightarrow> launch env tun mg)"

definition buildOBTunnel :: "tunnel_env \<Rightarrow> RouterIdentity list \<Rightarrow> bytes \<Rightarrow> u32 \<Rightarrow> Manager \<Rightarrow> mg_result" where
  "buildOBTunnel env hops reply reply_tunnel_id mg =
     (case OutboundTunnel_make env hops reply reply_tunnel_id of
        Inl err \<Rightarrow> (mg, [], Some err)
      | Inr tun \<Rightarrow> launch env tun mg)"

subsection \<open>Layers of encryption\<close>

text \<open>The contracts of the hash and of AES on the 528 bytes of a record.\<close>

definition records_cipher :: "tunnel_env \<Rightarrow> bool" where
  "records_cipher env \<longleftrightarrow> (\<forall>x. length (te_sha256 env x) = 32) \<and>
     (\<forall>k iv x. length iv = 16 \<and> length x = 528 \<longrightarrow>
        length (te_aes_encrypt env k iv x) = 528 \<and> length (te_aes_decrypt env k iv x) = 528 \<and>
        te_aes_decrypt env k iv (te_aes_encrypt env k iv x) = x \<and>
        te_aes_encrypt env k iv (te_aes_decrypt env k iv x) = x)"

definition crypt :: "(bytes \<Rightarrow> bytes \<Rightarrow> bytes \<Rightarrow> bytes) \<Rightarrow> BuildRequestRecord \<Rightarrow> 'a BuildRecord_scheme \<Rightarrow> 'a BuildRecord_scheme" where
  "crypt cipher h r =
     (let out = cipher (brq_replyKey h) (brq_replyIV h) (br_header r @ br_data r)
      in r\<lparr>br_header := take 16 out, br_data := drop 16 out\<rparr>)"

lemma crypt_wf:
  assumes "records_cipher env" "length (brq_replyIV h) = 16" "BuildRecord_wf r"
  shows "BuildRecord_wf (crypt (te_aes_encrypt env) h r)" "BuildRecord_wf (crypt (te_aes_decrypt env) h r)"
  using assms by (simp_all add: records_cipher_def crypt_def BuildRecord_wf_def Let_def)

lemma record_aes_crypt:
  assumes "records_cipher env" "length (brq_replyIV h) = 16" "BuildRecord_wf r"
  shows "BuildRecord_encrypt_aes (te_aes_encrypt env) (brq_replyIV h) (brq_replyKey h) r = Inr (crypt (te_aes_encrypt env) h r)"
    and "BuildRecord_decrypt_aes (te_aes_decrypt env) (brq_replyIV h) (brq_replyKey h) r = Inr (crypt (te_aes_decrypt env) h r)"
  using assms
  by (simp_all add: records_cipher_def crypt_def BuildRecord_wf_def BuildRecord_encrypt_aes_def
      BuildRecord_decrypt_aes_def BuildRecord_aes_def Let_def)

lemma crypt_inverse:
  assumes "records_cipher env" "length (brq_replyIV h) = 16" "BuildRecord_wf r"
  shows "crypt (te_aes_encrypt env) h (crypt (te_aes_decrypt env) h r) = r"
    and "crypt (te_aes_decrypt env) h (crypt (te_aes_encrypt env) h r) = r"
  using assms by (simp_all add: records_cipher_def crypt_def BuildRecord_wf_def Let_def)

lemma crypt_keys:
  "brq_replyKey h = brq_replyKey h' \<Longrightarrow> brq_replyIV h = brq_replyIV h' \<Longrightarrow> crypt c h r = crypt c h' r"
  by (simp add: crypt_def)

lemma crypt_request [simp]:
  "brq_replyKey (crypt c h r) = brq_replyKey r" "brq_replyIV (crypt c h r) = brq_replyIV r"
  by (simp_all add: crypt_def Let_def)

lemma as_record_crypt: "as_record (crypt c h r) = crypt c h (as_record r)"
  by (simp add: as_record_def crypt_def Let_def)

lemma as_record_wf [simp]: "BuildRecord_wf (as_record r) = BuildRecord_wf r"
  by (simp add: as_record_def BuildRecord_wf_def)

definition ivs_ok :: "BuildRequestRecord list \<Rightarrow> bool" where
  "ivs_ok hs \<longleftrightarrow> (\<forall>h \<in> set hs. length (brq_replyIV h) = 16)"

lemma fold_crypt_wf:
  "records_cipher env \<Longrightarrow> ivs_ok hs \<Longrightarrow> BuildRecord_wf r \<Longrightarrow> BuildRecord_wf (fold (crypt (te_aes_decrypt env)) hs r)"
  "records_cipher env \<Longrightarrow> ivs_ok hs \<Longrightarrow> BuildRecord_wf r \<Longrightarrow> BuildRecord_wf (fold (crypt (te_aes_encrypt env)) hs r)"
  by (induction hs arbitrary: r) (auto simp: ivs_ok_def crypt_wf)

text \<open>What was peeled off in reverse order is put back by encrypting in order, and the other way round.\<close>

lemma layers_inverse:
  assumes "records_cipher env" "ivs_ok hs" "BuildRecord_wf r"
  shows "fold (crypt (te_aes_encrypt env)) hs (fold (crypt (te_aes_decrypt env)) (rev hs) r) = r"
    and "fold (crypt (te_aes_decrypt env)) (rev hs) (fold (crypt (te_aes_encrypt env)) hs r) = r"
proof -
  show "fold (crypt (te_aes_encrypt env)) hs (fold (crypt (te_aes_decrypt env)) (rev hs) r) = r"
    using assms
  proof (induction hs arbitrary: r rule: rev_induct)
    case (snoc h hs)
    then show ?case by (simp add: ivs_ok_def crypt_wf crypt_inverse)
  qed simp
  show "fold (crypt (te_aes_decrypt env)) (rev hs) (fold (crypt (te_aes_encrypt env)) hs r) = r"
    using assms
  proof (induction hs arbitrary: r)
    case (Cons h hs)
    then show ?case by (simp add: ivs_ok_def crypt_wf crypt_inverse)
  qed simp
qed

lemma efold_peel:
  assumes "records_cipher env" "ivs_ok hs" "BuildRecord_wf r"
  shows "efold (peel env) hs r = Inr (fold (crypt (te_aes_decrypt env)) hs r)"
  using assms by (induction hs arbitrary: r) (auto simp: ivs_ok_def peel_def record_aes_crypt crypt_wf)

lemma fold_crypt_request [simp]:
  "brq_replyKey (fold (crypt c) hs r) = brq_replyKey r" "brq_replyIV (fold (crypt c) hs r) = brq_replyIV r"
  by (induction hs arbitrary: r) simp_all

lemma as_record_fold: "as_record (fold (crypt c) hs r) = fold (crypt c) hs (as_record r)"
  by (induction hs arbitrary: r) (simp_all add: as_record_crypt)

lemma secure_one_simps [simp]:
  "brq_replyKey (secure_one env h) = brq_replyKey h" "brq_replyIV (secure_one env h) = brq_replyIV h"
  "br_header (secure_one env h) = take 16 (brq_localHash h)"
  by (simp_all add: secure_one_def BuildRecord_encrypt_elg_def BuildRequestRecord_compile_def BuildRecord_setHeader_def Let_def)

lemma secure_loop_spec:
  assumes "records_cipher env" "ivs_ok before" "ivs_ok hs" "\<forall>h \<in> set hs. BuildRecord_wf (secure_one env h)"
  shows "\<exists>hs'. secure_loop env before hs = Inr hs' \<and> length hs' = length hs \<and>
    (\<forall>k < length hs. hs' ! k = fold (crypt (te_aes_decrypt env)) (rev (take k hs) @ before) (secure_one env (hs ! k)))"
  using assms(2-4)
proof (induction hs arbitrary: before)
  case (Cons h hs)
  define h' where "h' = fold (crypt (te_aes_decrypt env)) before (secure_one env h)"
  have same: "crypt c h' = crypt c h" for c :: "bytes \<Rightarrow> bytes \<Rightarrow> bytes \<Rightarrow> bytes"
    by (rule ext) (rule crypt_keys, simp_all add: h'_def)
  have "ivs_ok (h' # before)" using Cons.prems(1,2) by (auto simp: ivs_ok_def h'_def)
  then obtain hs' where hs': "secure_loop env (h' # before) hs = Inr hs'" "length hs' = length hs"
    "\<forall>k < length hs. hs' ! k = fold (crypt (te_aes_decrypt env)) (rev (take k hs) @ h' # before) (secure_one env (hs ! k))"
    using Cons.IH [of "h' # before"] Cons.prems by (auto simp: ivs_ok_def)
  have "efold (peel env) before (secure_one env h) = Inr h'"
    unfolding h'_def using Cons.prems by (intro efold_peel [OF assms(1)]) simp_all
  then show ?case
    using hs' by (intro exI [of _ "h' # hs'"]) (auto simp: nth_Cons h'_def [symmetric] same split: nat.split)
qed simp

subsection \<open>The journey of a build request\<close>

text \<open>\<open>e\<close> is the environment of the router that \<open>h\<close> was made for: it shares the algorithms, knows its own
  hash, and its private key opens what is encrypted to its public key.\<close>

definition hop_env_ok :: "tunnel_env \<Rightarrow> tunnel_env \<Rightarrow> BuildRequestRecord \<Rightarrow> bool" where
  "hop_env_ok env e h \<longleftrightarrow> te_sha256 e = te_sha256 env \<and> te_aes_encrypt e = te_aes_encrypt env \<and>
     te_myHash e = brq_localHash h \<and> length (te_padding e) = 495 \<and> BuildRequestRecord_wf h \<and>
     (\<forall>x. length x = 255 \<longrightarrow> length (te_elg_encrypt env (brq_encryptionKey h) x) = 512) \<and>
     (\<forall>x. length x = 255 \<and> hd x \<noteq> 0 \<longrightarrow>
        te_elg_decrypt e (te_elgKey e) (te_elg_encrypt env (brq_encryptionKey h) x) = x)"

text \<open>The records as the first \<open>k\<close> hops leave them.\<close>

fun passed :: "tunnel_env \<Rightarrow> (nat \<Rightarrow> tunnel_env) \<Rightarrow> BuildRequestRecord list \<Rightarrow> nat \<Rightarrow> BuildRecord list \<Rightarrow> BuildRecord list" where
  "passed env e hops 0 rs = rs"
| "passed env e hops (Suc k) rs =
     map (crypt (te_aes_encrypt env) (hops ! k)) ((passed env e hops k rs)[k := success_response (e k)])"

lemma length_passed [simp]: "length (passed env e hops k rs) = length rs"
  by (induction k) simp_all

lemma same_request_crypt: "same_request r s \<Longrightarrow> crypt c r = crypt c s"
  by (auto simp: same_request_def crypt_def)

lemma same_request_forward: "same_request r s \<Longrightarrow> forward_records e r rs = forward_records e s rs"
  by (simp add: same_request_def forward_records_def BuildRequestRecord_getType_def)

lemma secure_data:
  assumes "BuildRequestRecord_wf h"
  shows "\<exists>c. br_data c = BuildRequestRecord_bytes h @ replicate 319 0 \<and>
    br_data (secure_one env h) = br_data (BuildRecord_encrypt_elg (te_sha256 env) (te_elg_encrypt env) (te_junkBytes env)
      (brq_encryptionKey h) (c :: BuildRequestRecord))"
proof -
  let ?c = "BuildRequestRecord_compile (BuildRecord_setHeader (take 16 (brq_localHash h)) h)"
  have "br_data ?c = BuildRequestRecord_bytes h @ replicate 319 0"
    by (simp add: BuildRequestRecord_compile_def BuildRecord_setHeader_def BuildRequestRecord_bytes_def Let_def)
      (use assms in \<open>simp add: BuildRequestRecord_wf_def\<close>)
  then show ?thesis by (intro exI [of _ ?c]) (simp add: secure_one_def)
qed

lemma secure_one_wf:
  assumes "records_cipher env" "hop_env_ok env e h"
  shows "BuildRecord_wf (secure_one env h)"
proof -
  have wf: "BuildRequestRecord_wf h" using assms(2) by (simp add: hop_env_ok_def)
  obtain c where c: "br_data c = BuildRequestRecord_bytes h @ replicate 319 0"
    "br_data (secure_one env h) = br_data (BuildRecord_encrypt_elg (te_sha256 env) (te_elg_encrypt env) (te_junkBytes env)
      (brq_encryptionKey h) (c :: BuildRequestRecord))" using secure_data [OF wf, of env] by blast
  have "length (br_data (secure_one env h)) = 512"
    using assms length_request_bytes [OF wf] unfolding c(2)
    by (simp add: BuildRecord_encrypt_elg_def c(1) toStaticByteArray_def records_cipher_def hop_env_ok_def Let_def)
  then show ?thesis using wf by (simp add: BuildRecord_wf_def BuildRequestRecord_wf_def)
qed

lemma opened_request:
  assumes c: "records_cipher env" and e: "hop_env_ok env e h"
  shows "\<exists>req. ebind (BuildRecord_decrypt_elg (te_sha256 e) (te_elg_decrypt e) (te_elgKey e)
      (BuildRequestRecord_of j (as_record (secure_one env h)))) BuildRequestRecord_parse = Inr req \<and> same_request req h"
proof -
  have wf: "BuildRequestRecord_wf h" using e by (simp add: hop_env_ok_def)
  obtain c where d: "br_data c = BuildRequestRecord_bytes h @ replicate 319 0"
    "br_data (secure_one env h) = br_data (BuildRecord_encrypt_elg (te_sha256 env) (te_elg_encrypt env) (te_junkBytes env)
      (brq_encryptionKey h) (c :: BuildRequestRecord))" using secure_data [OF wf, of env] by blast
  let ?s = "BuildRequestRecord_of j (as_record (secure_one env h))"
  obtain rest where r: "BuildRecord_decrypt_elg (te_sha256 e) (te_elg_decrypt e) (te_elgKey e) ?s =
      Inr (?s\<lparr>br_data := take 222 (br_data c) @ rest\<rparr>)"
    using elg_roundtrip [of "te_sha256 env" "te_elg_encrypt env" "brq_encryptionKey h" "te_elg_decrypt e" "te_elgKey e" c ?s
        "te_junkBytes env"] assms length_request_bytes [OF wf] d
    by (auto simp: records_cipher_def hop_env_ok_def BuildRequestRecord_of_def as_record_def)
  have "take 222 (br_data c) @ rest = BuildRequestRecord_bytes h @ replicate 29 0 @ rest"
    by (simp add: d(1) length_request_bytes [OF wf] take_replicate)
  then have "\<exists>s. BuildRequestRecord_parse (?s\<lparr>br_data := take 222 (br_data c) @ rest\<rparr>) = Inr s \<and> same_request s h"
    by (intro BuildRequestRecord_parse_prefix [OF wf]) simp
  then show ?thesis using r by auto
qed

lemma emap_encrypt:
  assumes "records_cipher env" "length (brq_replyIV h) = 16" "\<forall>r \<in> set rs. BuildRecord_wf r"
  shows "emap (BuildRecord_encrypt_aes (te_aes_encrypt env) (brq_replyIV h) (brq_replyKey h)) rs =
    Inr (map (crypt (te_aes_encrypt env) h) rs)"
  using assms by (induction rs) (auto simp: record_aes_crypt)

lemma success_response_wf:
  "records_cipher env \<Longrightarrow> te_sha256 e = te_sha256 env \<Longrightarrow> length (te_padding e) = 495 \<Longrightarrow> BuildRecord_wf (success_response e)"
  by (simp add: success_response_def BuildResponseRecord_compile_def BuildRecord_wf_def records_cipher_def Let_def
      BuildResponseRecord_make_def as_record_def)

lemma find_record_nth:
  "k < length rs \<Longrightarrow> br_header (rs ! k) = h \<Longrightarrow> \<forall>i < k. br_header (rs ! i) \<noteq> h \<Longrightarrow> find_record h rs = Some k"
proof (induction rs arbitrary: k)
  case (Cons r rs)
  show ?case
  proof (cases k)
    case (Suc j)
    then have "br_header r \<noteq> h" using Cons.prems(3) by auto
    moreover have "find_record h rs = Some j" using Cons.prems Suc by (intro Cons.IH) auto
    ultimately show ?thesis using Suc by simp
  qed (use Cons.prems in simp)
qed simp

definition route_ok :: "tunnel_env \<Rightarrow> (nat \<Rightarrow> tunnel_env) \<Rightarrow> BuildRequestRecord list \<Rightarrow> bool" where
  "route_ok env e hops \<longleftrightarrow> records_cipher env \<and> (\<forall>k < length hops. hop_env_ok env (e k) (hops ! k))"

lemma route_ivs: "route_ok env e hops \<Longrightarrow> ivs_ok hops"
  by (auto simp: route_ok_def ivs_ok_def hop_env_ok_def BuildRequestRecord_wf_def in_set_conv_nth)

lemma route_response_wf: "route_ok env e hops \<Longrightarrow> k < length hops \<Longrightarrow> BuildRecord_wf (success_response (e k))"
  by (auto simp: route_ok_def hop_env_ok_def intro: success_response_wf)

lemma passed_wf:
  assumes "route_ok env e hops" "\<forall>r \<in> set rs. BuildRecord_wf r" "k \<le> length hops"
  shows "\<forall>r \<in> set (passed env e hops k rs). BuildRecord_wf r"
  using assms(3)
proof (induction k)
  case (Suc k)
  have "length (brq_replyIV (hops ! k)) = 16" using route_ivs [OF assms(1)] Suc.prems by (simp add: ivs_ok_def)
  moreover have "\<forall>r \<in> set ((passed env e hops k rs)[k := success_response (e k)]). BuildRecord_wf r"
    using Suc route_response_wf [OF assms(1)] set_update_subset_insert [of "passed env e hops k rs" k "success_response (e k)"]
    by auto
  ultimately show ?case using assms(1) by (auto simp: route_ok_def crypt_wf)
qed (use assms(2) in simp)

text \<open>A record ahead carries one layer per hop passed; the answer of a hop carries its own layer and those
  of the hops behind it.\<close>

lemma passed_ahead:
  "k \<le> i \<Longrightarrow> i < length rs \<Longrightarrow> length hops = length rs \<Longrightarrow>
     passed env e hops k rs ! i = fold (crypt (te_aes_encrypt env)) (take k hops) (rs ! i)"
  by (induction k) (simp_all add: take_Suc_conv_app_nth)

lemma passed_answer:
  "i < k \<Longrightarrow> k \<le> length rs \<Longrightarrow> length hops = length rs \<Longrightarrow>
     passed env e hops k rs ! i = fold (crypt (te_aes_encrypt env)) (drop i (take k hops)) (success_response (e i))"
proof (induction k)
  case (Suc k)
  show ?case
  proof (cases "i = k")
    case True
    then have "drop i (take (Suc k) hops) = [hops ! k]" using Suc.prems by (simp add: take_Suc_conv_app_nth)
    then show ?thesis using True Suc.prems by simp
  next
    case False
    then have "drop i (take (Suc k) hops) = drop i (take k hops) @ [hops ! k]"
      using Suc.prems by (simp add: take_Suc_conv_app_nth)
    then show ?thesis using False Suc by simp
  qed
qed simp

lemma secured_arrives:
  assumes r: "route_ok env e (tn_hops t)"
  shows "\<exists>t'. Tunnel_secureRecords env t = Inr t' \<and> length (tn_hops t') = length (tn_hops t) \<and>
    (\<forall>q \<in> set (Tunnel_getRecords t'). BuildRecord_wf q) \<and>
    (\<forall>k < length (tn_hops t). passed env e (tn_hops t) k (Tunnel_getRecords t') ! k = as_record (secure_one env (tn_hops t ! k)))"
proof -
  let ?hops = "tn_hops t"
  have c: "records_cipher env" using r by (simp add: route_ok_def)
  note ivs = route_ivs [OF r]
  have wf: "BuildRecord_wf (secure_one env (?hops ! k))" if "k < length ?hops" for k
    using r that by (auto simp: route_ok_def intro: secure_one_wf)
  then have "\<forall>h \<in> set ?hops. BuildRecord_wf (secure_one env h)" by (auto simp: in_set_conv_nth)
  then obtain hs where hs: "secure_loop env [] ?hops = Inr hs" "length hs = length ?hops"
    "\<forall>k < length ?hops. hs ! k = fold (crypt (te_aes_decrypt env)) (rev (take k ?hops)) (secure_one env (?hops ! k))"
    using secure_loop_spec [OF c _ ivs, of "[]"] by (auto simp: ivs_ok_def)
  have take: "ivs_ok (take k ?hops)" "ivs_ok (rev (take k ?hops))" for k
    using ivs by (auto simp: ivs_ok_def dest: in_set_takeD)
  have "BuildRecord_wf (hs ! k)" if "k < length ?hops" for k
    using hs(3) that wf by (simp add: fold_crypt_wf(1) [OF c take(2)])
  then have all: "\<forall>q \<in> set (map as_record hs). BuildRecord_wf q" using hs(2) by (auto simp: in_set_conv_nth)
  have "passed env e ?hops k (map as_record hs) ! k = as_record (secure_one env (?hops ! k))" if "k < length ?hops" for k
    using that hs(2,3) wf layers_inverse(1) [OF c take(1), of "as_record (secure_one env (?hops ! k))" k]
    by (simp add: passed_ahead as_record_fold)
  with hs all show ?thesis by (auto simp: Tunnel_secureRecords_def Tunnel_getRecords_def)
qed

lemma hop_participates:
  assumes r: "route_ok env e hops" and k: "k < length hops" "length rs = length hops"
    and at: "rs ! k = as_record (secure_one env (hops ! k))" and wf: "\<forall>q \<in> set rs. BuildRecord_wf q"
    and first: "\<forall>i < k. br_header (rs ! i) \<noteq> take 16 (brq_localHash (hops ! k))"
    and mg: "smap_find (mg_pending mg) msgId = None" "\<not> mg_graceful mg"
      "smap_find (mg_participating mg) (brq_tunnelId (hops ! k)) = None"
  shows "\<exists>req. same_request req (hops ! k) \<and> receiveRecords (e k) msgId rs mg =
    (mg\<lparr>mg_participating := smap_put (brq_tunnelId (hops ! k)) req (mg_participating mg)\<rparr>,
     [Mg_arm_participating (brq_tunnelId (hops ! k)),
      forward_records (e k) (hops ! k) (map (crypt (te_aes_encrypt env) (hops ! k)) (rs[k := success_response (e k)]))], None)"
proof -
  let ?h = "hops ! k"
  have c: "records_cipher env" and e: "hop_env_ok env (e k) ?h" using r k by (simp_all add: route_ok_def)
  obtain req where req: "ebind (BuildRecord_decrypt_elg (te_sha256 (e k)) (te_elg_decrypt (e k)) (te_elgKey (e k))
      (BuildRequestRecord_of (te_junkRequest (e k)) (rs ! k))) BuildRequestRecord_parse = Inr req" "same_request req ?h"
    unfolding at using opened_request [OF c e] by blast
  have find: "find_record (take 16 (te_myHash (e k))) rs = Some k"
    using first k e by (intro find_record_nth) (simp_all add: at as_record_def hop_env_ok_def)
  have iv: "length (brq_replyIV ?h) = 16" using route_ivs [OF r] k by (simp add: ivs_ok_def)
  have "\<forall>q \<in> set (rs[k := success_response (e k)]). BuildRecord_wf q"
    using wf route_response_wf [OF r k(1)] by (auto dest!: subsetD [OF set_update_subset_insert])
  from emap_encrypt [OF c iv this]
  have "emap (BuildRecord_encrypt_aes (te_aes_encrypt (e k)) (brq_replyIV req) (brq_replyKey req)) (rs[k := success_response (e k)]) =
      Inr (map (crypt (te_aes_encrypt env) ?h) (rs[k := success_response (e k)]))"
    using e req(2) by (simp add: hop_env_ok_def same_request_def)
  then have "participate (e k) rs mg = (mg\<lparr>mg_participating := smap_put (brq_tunnelId ?h) req (mg_participating mg)\<rparr>,
     [Mg_arm_participating (brq_tunnelId ?h),
      forward_records (e k) ?h (map (crypt (te_aes_encrypt env) ?h) (rs[k := success_response (e k)]))], None)"
    using find req mg same_request_forward [OF req(2)] by (simp add: participate_def same_request_def Let_def)
  then show ?thesis using req(2) mg(1) by (auto simp: receiveRecords_def receive_pending_def)
qed

lemma success_response_parse:
  assumes "\<And>x. length (te_sha256 e x) = 32" "length (te_padding e) = 495"
  shows "\<exists>resp. BuildResponseRecord_parse (te_sha256 e) (BuildResponseRecord_of j (success_response e)) = Inr resp \<and>
    brs_reply resp = Reply_code REPLY_SUCCESS"
  using assms
  by (simp add: success_response_def BuildResponseRecord_of_def BuildResponseRecord_make_def as_record_def
      BuildResponseRecord_parse_def BuildResponseRecord_compile_def nth_append Let_def
      take_add [of 16 16, simplified, symmetric])

subsection \<open>Tunnel data\<close>

text \<open>The inverse of one hop's layer, for the inverses \<open>ecb_d\<close> and \<open>cbc_d\<close> of the two ciphers.\<close>

definition peel_message ::
  "(bytes \<Rightarrow> bytes \<Rightarrow> bytes) \<Rightarrow> (bytes \<Rightarrow> bytes \<Rightarrow> bytes \<Rightarrow> bytes) \<Rightarrow> BuildRequestRecord \<Rightarrow> bytes \<Rightarrow> bytes" where
  "peel_message ecb_d cbc_d hop data =
     (let v = ecb_d (brq_tunnelIVKey hop) (take 16 data)
      in ecb_d (brq_tunnelIVKey hop) v @ cbc_d (brq_tunnelLayerKey hop) v (drop 16 data))"

definition message_cipher ::
  "tunnel_env \<Rightarrow> (bytes \<Rightarrow> bytes \<Rightarrow> bytes) \<Rightarrow> (bytes \<Rightarrow> bytes \<Rightarrow> bytes \<Rightarrow> bytes) \<Rightarrow> bool" where
  "message_cipher env ecb_d cbc_d \<longleftrightarrow> (\<forall>x. length (te_sha256 env x) = 32) \<and>
     (\<forall>k x. length x = 16 \<longrightarrow> length (te_aes_ecb env k x) = 16 \<and> length (ecb_d k x) = 16 \<and>
        ecb_d k (te_aes_ecb env k x) = x \<and> te_aes_ecb env k (ecb_d k x) = x) \<and>
     (\<forall>k iv x. length iv = 16 \<and> length x = 1008 \<longrightarrow>
        length (te_aes_encrypt env k iv x) = 1008 \<and> length (cbc_d k iv x) = 1008 \<and>
        cbc_d k iv (te_aes_encrypt env k iv x) = x \<and> te_aes_encrypt env k iv (cbc_d k iv x) = x)"

lemma encrypt_layer:
  assumes "message_cipher env ecb_d cbc_d" "length data = 1024"
  shows "\<exists>m. TunnelMessage_encrypt (te_aes_ecb env) (te_aes_encrypt env) (brq_tunnelIVKey hop) (brq_tunnelLayerKey hop)
      (TunnelMessage_of j data) = Inr m \<and> length (TunnelMessage_getEncryptedData m) = 1024 \<and>
    peel_message ecb_d cbc_d hop (TunnelMessage_getEncryptedData m) = data"
  using assms
  by (simp add: message_cipher_def TunnelMessage_encrypt_def TunnelMessage_of_def TunnelMessage_getEncryptedData_def
      peel_message_def Let_def)

lemma encrypt_peeled:
  assumes "message_cipher env ecb_d cbc_d" "length data = 1024"
  shows "\<exists>m. TunnelMessage_encrypt (te_aes_ecb env) (te_aes_encrypt env) (brq_tunnelIVKey hop) (brq_tunnelLayerKey hop)
      (TunnelMessage_of j (peel_message ecb_d cbc_d hop data)) = Inr m \<and> tm_iv m = take 16 data \<and> tm_encrypted m = drop 16 data"
  using assms
  by (simp add: message_cipher_def TunnelMessage_encrypt_def TunnelMessage_of_def peel_message_def Let_def)

lemma parse_same_bytes:
  "tm_iv m = tm_iv m' \<Longrightarrow> tm_encrypted m = tm_encrypted m' \<Longrightarrow> TunnelMessage_parse sha256 j m = TunnelMessage_parse sha256 j m'"
  by (simp add: TunnelMessage_parse_def TunnelMessage_verifyChecksum_def)

lemma peel_message_length:
  "message_cipher env ecb_d cbc_d \<Longrightarrow> length data = 1024 \<Longrightarrow> length (peel_message ecb_d cbc_d hop data) = 1024"
  by (simp add: message_cipher_def peel_message_def Let_def)

lemma participant_relays:
  assumes c: "message_cipher env ecb_d cbc_d" and hop: "smap_find (mg_participating mg) tid = Some hop"
    and ty: "BuildRequestRecord_getType hop = PARTICIPANT" and len: "length data = 1024"
  shows "tunnel_receiveData env tid (peel_message ecb_d cbc_d hop data) mg =
    (mg, [Mg_send (brq_nextHash hop) (te_newMessage env (TunnelData_body (TunnelData_make (brq_nextTunnelId hop) data)))], None)"
proof -
  obtain m' where "TunnelMessage_encrypt (te_aes_ecb env) (te_aes_encrypt env) (brq_tunnelIVKey hop) (brq_tunnelLayerKey hop)
      (TunnelMessage_of (te_junk32 env) (peel_message ecb_d cbc_d hop data)) = Inr m'" "tm_iv m' = take 16 data" "tm_encrypted m' = drop 16 data"
    using encrypt_peeled [OF c len] by blast
  then show ?thesis using hop ty by (simp add: tunnel_receiveData_def TunnelMessage_getEncryptedData_def)
qed

lemma endpoint_fragments:
  assumes c: "message_cipher env ecb_d cbc_d" and hop: "smap_find (mg_participating mg) tid = Some hop"
    and e: "BuildRequestRecord_getType hop = ENDPOINT" and wf: "list_all AnyFragment_wf fs"
    and size: "length (concat (map Fragment_compile fs)) \<le> 1003" "length padding = 1003 - length (concat (map Fragment_compile fs))"
    and len: "length junkE = 1008" "length iv = 16"
    and m: "ebind (TunnelMessage_make (te_sha256 env) junkC junkE iv fs) (TunnelMessage_compile padding) = Inr m"
  shows "tunnel_receiveData env tid (peel_message ecb_d cbc_d hop (TunnelMessage_getEncryptedData m)) mg =
    (let (h, sent, err) = receiveFragments (te_newMessage env) (te_junkMessage env) (te_now env) fs (mg_fragments mg)
     in (mg\<lparr>mg_fragments := h\<rparr>, map (\<lambda>(to, m). Mg_send to m) sent, err))"
proof -
  have sha: "\<And>x. length (te_sha256 env x) = 32" using c by (simp add: message_cipher_def)
  let ?d = "TunnelMessage_getEncryptedData m"
  have d: "length ?d = 1024" "TunnelMessage_parse (te_sha256 env) (te_junk32 env) (TunnelMessage_of 0 ?d) = Inr fs"
    using message_compile_parse [where ?sha256.0 = "te_sha256 env" and junkC = junkC and junkT = "te_junk32 env" and junk = 0,
        OF wf size(1) sha size(2) len] m by auto
  obtain m' where m': "TunnelMessage_encrypt (te_aes_ecb env) (te_aes_encrypt env) (brq_tunnelIVKey hop) (brq_tunnelLayerKey hop)
      (TunnelMessage_of (te_junk32 env) (peel_message ecb_d cbc_d hop ?d)) = Inr m'" "tm_iv m' = take 16 ?d" "tm_encrypted m' = drop 16 ?d"
    using encrypt_peeled [OF c d(1)] by blast
  have "TunnelMessage_parse (te_sha256 env) (te_junk32 env) m' = Inr fs"
    using d parse_same_bytes [of m' "TunnelMessage_of 0 ?d"] m'(2,3) by (simp add: TunnelMessage_of_def)
  then show ?thesis using e hop m'(1) by (simp add: tunnel_receiveData_def)
qed

subsection \<open>Events of the manager\<close>

datatype mg_event =
    Ev_records u32 "BuildRecord list"
  | Ev_gateway bytes u32 bytes
  | Ev_data u32 bytes
  | Ev_timer bool u32
  | Ev_build_inbound "RouterIdentity list"
  | Ev_build_outbound "RouterIdentity list" bytes u32
  | Ev_shutdown

fun mg_handle :: "(nat \<Rightarrow> tunnel_env) \<Rightarrow> mg_event \<Rightarrow> Manager \<Rightarrow> mg_result" where
  "mg_handle env (Ev_records msgId rs) mg = receiveRecords (env 0) msgId rs mg"
| "mg_handle env (Ev_gateway from tid data) mg = receiveGatewayData env from tid data mg"
| "mg_handle env (Ev_data tid data) mg = tunnel_receiveData (env 0) tid data mg"
| "mg_handle env (Ev_timer p tid) mg = (tunnel_timerCallback p tid mg, [], None)"
| "mg_handle env (Ev_build_inbound hops) mg = buildIBTunnel (env 0) hops mg"
| "mg_handle env (Ev_build_outbound hops reply tid) mg = buildOBTunnel (env 0) hops reply tid mg"
| "mg_handle env Ev_shutdown mg = (tunnel_gracefulShutdown mg, [], None)"

lemma receive_pending_participating:
  "receive_pending env msgId rs mg = (r, mg', out, err) \<Longrightarrow> mg_participating mg' = mg_participating mg \<and> mg_graceful mg' = mg_graceful mg"
  by (auto simp: receive_pending_def Let_def split: option.splits if_splits sum.splits)

lemma participate_entry:
  "participate env rs mg = (mg', out, err) \<Longrightarrow> mg_participating mg' = mg_participating mg \<or>
     (\<exists>req. \<not> mg_graceful mg \<and> smap_find (mg_participating mg) (brq_tunnelId req) = None \<and>
        mg_participating mg' = smap_put (brq_tunnelId req) req (mg_participating mg))"
  by (auto simp: participate_def Let_def split: option.splits if_splits sum.splits)

lemma receiveRecords_entry:
  assumes "receiveRecords env msgId rs mg = (mg', out, err)"
  shows "mg_participating mg' = mg_participating mg \<or>
     (\<exists>req. \<not> mg_graceful mg \<and> smap_find (mg_participating mg) (brq_tunnelId req) = None \<and>
        mg_participating mg' = smap_put (brq_tunnelId req) req (mg_participating mg))"
proof -
  obtain r mg1 out1 err1 where p: "receive_pending env msgId rs mg = (r, mg1, out1, err1)" by (metis prod_cases4)
  show ?thesis
    using assms p receive_pending_participating [OF p] participate_entry [of env _ mg1 mg']
    by (cases r) (auto simp: receiveRecords_def split: prod.splits)
qed

lemma launch_participating: "launch env tun mg = (mg', out, err) \<Longrightarrow> mg_participating mg' = mg_participating mg"
  by (auto simp: launch_def Let_def split: sum.splits)

lemma other_entry:
  "receiveGatewayData env' from tid data mg = (mg', out, err) \<Longrightarrow> mg_participating mg' = mg_participating mg"
  "tunnel_receiveData env tid data mg = (mg', out, err) \<Longrightarrow> mg_participating mg' = mg_participating mg"
  "buildIBTunnel env hops mg = (mg', out, err) \<Longrightarrow> mg_participating mg' = mg_participating mg"
  "buildOBTunnel env hops reply tid mg = (mg', out, err) \<Longrightarrow> mg_participating mg' = mg_participating mg"
  by (auto simp: receiveGatewayData_def tunnel_receiveData_def buildIBTunnel_def buildOBTunnel_def
      split: option.splits if_splits sum.splits prod.splits request_type.splits dest: launch_participating)

subsection \<open>Properties\<close>

text \<open>C8. The records of a new tunnel, passed from hop to hop: when they reach the \<open>k\<close>-th hop, the
  layers its predecessors added have uncovered its record; the hop finds it, opens it, enters the
  tunnel with the parameters the creator chose, and sends to the next hop it was told the records
  with its own answer and its own layer added, provided it is not shutting down, the tunnel id is
  free, and no earlier record happens to start with its hash. Removing the layers of the hops from the
  last to the \<open>k\<close>-th from the records that come back leaves an answer that parses as accepted.\<close>

theorem tunnel_build_travels:
  fixes t :: Tunnel
  assumes r: "route_ok env e (tn_hops t)" and n: "n = length (tn_hops t)"
  shows "\<exists>t' rs. Tunnel_secureRecords env t = Inr t' \<and> rs = Tunnel_getRecords t' \<and>
    (\<forall>k < n. \<forall>mg msgId. let h = tn_hops t ! k; arrived = passed env e (tn_hops t) k rs in
       (\<forall>i < k. br_header (arrived ! i) \<noteq> take 16 (brq_localHash h)) \<and> smap_find (mg_pending mg) msgId = None \<and>
       \<not> mg_graceful mg \<and> smap_find (mg_participating mg) (brq_tunnelId h) = None \<longrightarrow>
       (\<exists>req. same_request req h \<and> receiveRecords (e k) msgId arrived mg =
         (mg\<lparr>mg_participating := smap_put (brq_tunnelId h) req (mg_participating mg)\<rparr>,
          [Mg_arm_participating (brq_tunnelId h), forward_records (e k) h (passed env e (tn_hops t) (Suc k) rs)], None))) \<and>
    (\<forall>k < n. \<exists>resp. BuildResponseRecord_parse (te_sha256 env) (BuildResponseRecord_of j
         (fold (crypt (te_aes_decrypt env)) (rev (drop k (tn_hops t))) (passed env e (tn_hops t) n rs ! k))) = Inr resp \<and>
       brs_reply resp = Reply_code REPLY_SUCCESS)"
proof -
  let ?hops = "tn_hops t"
  obtain t' where t': "Tunnel_secureRecords env t = Inr t'" "length (tn_hops t') = n"
    "\<forall>q \<in> set (Tunnel_getRecords t'). BuildRecord_wf q"
    "\<forall>k < n. passed env e ?hops k (Tunnel_getRecords t') ! k = as_record (secure_one env (?hops ! k))"
    using secured_arrives [OF r] n by blast
  let ?rs = "Tunnel_getRecords t'"
  have len: "length ?rs = length ?hops" using t'(2) n by (simp add: Tunnel_getRecords_def)
  have "fold (crypt (te_aes_decrypt env)) (rev (drop k ?hops)) (passed env e ?hops n ?rs ! k) = success_response (e k)"
    if "k < n" for k
    using that n len route_ivs [OF r] route_response_wf [OF r] r
      layers_inverse(2) [of env "drop k ?hops" "success_response (e k)"]
    by (auto simp: passed_answer route_ok_def ivs_ok_def dest: in_set_dropD)
  moreover have "\<exists>resp. BuildResponseRecord_parse (te_sha256 env) (BuildResponseRecord_of j (success_response (e k))) = Inr resp \<and>
       brs_reply resp = Reply_code REPLY_SUCCESS" if "k < n" for k
    using success_response_parse [of "e k" j] r n that by (auto simp: route_ok_def records_cipher_def hop_env_ok_def)
  moreover have "\<exists>req. same_request req (?hops ! k) \<and> receiveRecords (e k) msgId (passed env e ?hops k ?rs) mg =
      (mg\<lparr>mg_participating := smap_put (brq_tunnelId (?hops ! k)) req (mg_participating mg)\<rparr>,
       [Mg_arm_participating (brq_tunnelId (?hops ! k)), forward_records (e k) (?hops ! k) (passed env e ?hops (Suc k) ?rs)], None)"
    if "k < n" "\<forall>i < k. br_header (passed env e ?hops k ?rs ! i) \<noteq> take 16 (brq_localHash (?hops ! k))"
      "smap_find (mg_pending mg) msgId = None" "\<not> mg_graceful mg" "smap_find (mg_participating mg) (brq_tunnelId (?hops ! k)) = None"
    for k mg msgId
    unfolding passed.simps using hop_participates [OF r _ _ _ passed_wf [OF r t'(3)] that(2-5)] that(1) t'(4) n len by simp
  ultimately show ?thesis using t'(1) by (intro exI [of _ t'] exI [of _ ?rs]) (simp add: Let_def)
qed

text \<open>Tunnel data by the role of the hop it reaches. A participant sends exactly one message on, to
  the next hop and the next tunnel id, from which removing its layer gives back what it received; a
  gateway and an unknown tunnel id drop the data; and when the sender removed the endpoint's layer in
  advance from a message compiled of fragments, the endpoint hands exactly those fragments, in
  order, to the fragment handler. Only the fragment handler changes.\<close>

theorem tunnel_data_routed:
  assumes c: "message_cipher env ecb_d cbc_d" and hop: "smap_find (mg_participating mg) tid = Some hop"
  shows "(BuildRequestRecord_getType hop = PARTICIPANT \<longrightarrow> length data = 1024 \<longrightarrow>
      (\<exists>data'. tunnel_receiveData env tid data mg = (mg, [Mg_send (brq_nextHash hop) (te_newMessage env
          (TunnelData_body (TunnelData_make (brq_nextTunnelId hop) data')))], None) \<and>
        length data' = 1024 \<and> peel_message ecb_d cbc_d hop data' = data)) \<and>
    (BuildRequestRecord_getType hop = GATEWAY \<longrightarrow> length data = 1024 \<longrightarrow> tunnel_receiveData env tid data mg = (mg, [], None)) \<and>
    (smap_find (mg_participating mg) other = None \<longrightarrow> tunnel_receiveData env other data mg = (mg, [], None)) \<and>
    (BuildRequestRecord_getType hop = ENDPOINT \<longrightarrow> list_all AnyFragment_wf fs \<longrightarrow>
      length (concat (map Fragment_compile fs)) \<le> 1003 \<longrightarrow> length padding = 1003 - length (concat (map Fragment_compile fs)) \<longrightarrow>
      length junkE = 1008 \<longrightarrow> length iv = 16 \<longrightarrow>
      ebind (TunnelMessage_make (te_sha256 env) junkC junkE iv fs) (TunnelMessage_compile padding) = Inr m \<longrightarrow>
      tunnel_receiveData env tid (peel_message ecb_d cbc_d hop (TunnelMessage_getEncryptedData m)) mg =
        (let (h, sent, err) = receiveFragments (te_newMessage env) (te_junkMessage env) (te_now env) fs (mg_fragments mg)
         in (mg\<lparr>mg_fragments := h\<rparr>, map (\<lambda>(to, m). Mg_send to m) sent, err)))"
proof (intro conjI impI)
  assume "BuildRequestRecord_getType hop = PARTICIPANT" "length data = 1024"
  then show "\<exists>data'. tunnel_receiveData env tid data mg = (mg, [Mg_send (brq_nextHash hop) (te_newMessage env
          (TunnelData_body (TunnelData_make (brq_nextTunnelId hop) data')))], None) \<and>
        length data' = 1024 \<and> peel_message ecb_d cbc_d hop data' = data"
    using encrypt_layer [OF c, of data hop "te_junk32 env"] hop by (auto simp: tunnel_receiveData_def)
next
  assume "BuildRequestRecord_getType hop = GATEWAY" "length data = 1024"
  then show "tunnel_receiveData env tid data mg = (mg, [], None)"
    using encrypt_layer [OF c, of data hop "te_junk32 env"] hop by (auto simp: tunnel_receiveData_def)
qed (simp add: tunnel_receiveData_def, blast intro: endpoint_fragments [OF c hop])

text \<open>C20. What happens to the reply of a tunnel this router asked for. A reply is matched by its message id
  with the tunnel ids under which the builds are filed, so one that carries another id leaves the
  build pending. A tunnel of one hop accepts any reply unread. When a tunnel becomes operational the
  member dereferences the pointer it has just moved from: the tunnel is entered, the build is no
  longer pending, and no hook is called. A tunnel whose answers fail is removed from the pending
  builds, stays in the table of tunnels, and the failure hook is called.\<close>

theorem own_tunnel_reply:
  assumes "smap_find (mg_pending mg) msgId = Some i" "i < length (mg_heap mg)" "mg_heap mg ! i = t" "tn_state t = REQUESTED"
  shows "(\<forall>h. tn_hops t = [h] \<longrightarrow> Tunnel_handleResponses env rs t = Inr (t\<lparr>tn_state := OPERATIONAL\<rparr>, rs)) \<and>
    (\<forall>t' rs'. Tunnel_handleResponses env rs t = Inr (t', rs') \<longrightarrow> tn_state t' = OPERATIONAL \<longrightarrow>
       receiveRecords env msgId rs mg =
         (mg\<lparr>mg_heap := (mg_heap mg)[i := t'], mg_tunnels := smap_put (tn_tunnelId t) i (mg_tunnels mg),
             mg_pending := smap_erase msgId (mg_pending mg)\<rparr>, [], Some Null_dereference)) \<and>
    (\<forall>t' rs' mg' out err. Tunnel_handleResponses env rs t = Inr (t', rs') \<longrightarrow> tn_state t' \<noteq> OPERATIONAL \<longrightarrow>
       receiveRecords env msgId rs mg = (mg', out, err) \<longrightarrow>
         tn_state t' = FAILED \<and> Mg_failure (tn_tunnelId t) \<in> set out \<and> mg_tunnels mg' = mg_tunnels mg \<and>
         mg_pending mg' = smap_erase msgId (mg_pending mg)) \<and>
    (\<forall>other mg' out err. smap_find (mg_pending mg) other = None \<longrightarrow> receiveRecords env other rs mg = (mg', out, err) \<longrightarrow>
       smap_find (mg_pending mg') msgId = Some i \<and> mg_heap mg' = mg_heap mg)"
proof -
  have keep: "tn_tunnelId t' = tn_tunnelId t" "tn_state t' = OPERATIONAL \<or> tn_state t' = FAILED"
    if "Tunnel_handleResponses env rs t = Inr (t', rs')" for t' rs'
    using that by (auto simp: Tunnel_handleResponses_def inr_iff split: if_splits)
  have frame: "mg_tunnels mg' = mg_tunnels mg1 \<and> mg_pending mg' = mg_pending mg1 \<and> mg_heap mg' = mg_heap mg1"
    if "participate env rs1 mg1 = (mg', out, err)" for rs1 mg1 mg' out err
    using that by (auto simp: participate_def Let_def split: option.splits if_splits sum.splits)
  have "Tunnel_handleResponses env rs t = Inr (t\<lparr>tn_state := OPERATIONAL\<rparr>, rs)" if "tn_hops t = [h]" for h
    using that by (simp add: Tunnel_handleResponses_def)
  moreover have "receiveRecords env msgId rs mg =
         (mg\<lparr>mg_heap := (mg_heap mg)[i := t'], mg_tunnels := smap_put (tn_tunnelId t) i (mg_tunnels mg),
             mg_pending := smap_erase msgId (mg_pending mg)\<rparr>, [], Some Null_dereference)"
    if "Tunnel_handleResponses env rs t = Inr (t', rs')" "tn_state t' = OPERATIONAL" for t' rs'
    using that keep(1) [OF that(1)] assms by (simp add: receiveRecords_def receive_pending_def)
  moreover have "tn_state t' = FAILED \<and> Mg_failure (tn_tunnelId t) \<in> set out \<and> mg_tunnels mg' = mg_tunnels mg \<and>
         mg_pending mg' = smap_erase msgId (mg_pending mg)"
    if "Tunnel_handleResponses env rs t = Inr (t', rs')" "tn_state t' \<noteq> OPERATIONAL"
      "receiveRecords env msgId rs mg = (mg', out, err)" for t' rs' mg' out err
    using that keep [OF that(1)] assms by (auto simp: receiveRecords_def receive_pending_def split: prod.splits dest!: frame)
  moreover have "smap_find (mg_pending mg') msgId = Some i \<and> mg_heap mg' = mg_heap mg"
    if "smap_find (mg_pending mg) other = None" "receiveRecords env other rs mg = (mg', out, err)" for other mg' out err
    using that assms(1) by (auto simp: receiveRecords_def receive_pending_def split: prod.splits dest!: frame)
  ultimately show ?thesis by blast
qed

text \<open>C19. Whatever the manager is asked to do, a tunnel it takes part in keeps its parameters until the
  timer of that very tunnel id fires; a tunnel id that was free is only entered by build records, and
  never once the router is shutting down.\<close>

theorem participation_stable:
  assumes "mg_handle env ev mg = (mg', out, err)"
  shows "smap_find (mg_participating mg') tid =
      (if ev = Ev_timer True tid then None
       else case smap_find (mg_participating mg) tid of
              Some hop \<Rightarrow> Some hop
            | None \<Rightarrow> smap_find (mg_participating mg') tid) \<and>
    (smap_find (mg_participating mg) tid = None \<longrightarrow> smap_find (mg_participating mg') tid \<noteq> None \<longrightarrow>
       \<not> mg_graceful mg \<and> (\<exists>msgId rs. ev = Ev_records msgId rs))"
proof (cases ev)
  case (Ev_records msgId rs)
  then have "receiveRecords (env 0) msgId rs mg = (mg', out, err)" using assms by simp
  from receiveRecords_entry [OF this] show ?thesis
    using Ev_records by (auto simp: smap_find_put split: option.splits)
qed (use assms in \<open>auto simp: tunnel_timerCallback_def tunnel_gracefulShutdown_def smap_find_erase
    split: option.splits if_splits dest!: other_entry\<close>)

subsection \<open>Instances\<close>

definition sample_tunnel_env :: tunnel_env where
  "sample_tunnel_env = \<lparr>te_sha256 = toy_hash, te_elg_encrypt = (\<lambda>k x. x @ replicate 257 0), te_elg_decrypt = (\<lambda>k. take 255),
     te_aes_encrypt = (\<lambda>k iv. rev), te_aes_decrypt = (\<lambda>k iv. rev), te_aes_ecb = (\<lambda>k. rev),
     te_myHash = brq_localHash sample_request, te_elgKey = [], te_now = 0, te_secs = 0,
     te_newMessage = Message_make 1 0 0, te_padding = replicate 495 0, te_messagePadding = [], te_iv = replicate 16 0,
     te_msgId = 0, te_hours = 0, te_random = (\<lambda>_. \<lparr>rr_tunnelId = 0, rr_tunnelLayerKey = [], rr_tunnelIVKey = [],
       rr_replyKey = [], rr_replyIV = [], rr_nextMsgId = 0\<rparr>), te_nextTunnelId = 0, te_junkRequest = sample_request,
     te_junkBytes = [], te_junk32 = 0, te_junk8 = 0, te_junkMessage = sample_junk\<rparr>"

definition sample_tunnel :: Tunnel where
  "sample_tunnel = \<lparr>tn_direction = TUNNEL_OUTBOUND, tn_hops = [sample_request], tn_state = REQUESTED, tn_tunnelId = 5,
     tn_nextMsgId = 6\<rparr>"

lemma sample_route_ok: "route_ok sample_tunnel_env (\<lambda>_. sample_tunnel_env) (tn_hops sample_tunnel)"
  using sample_request_wf(1)
  by (auto simp: route_ok_def records_cipher_def hop_env_ok_def sample_tunnel_env_def sample_tunnel_def length_toy_hash)

theorem tunnel_build_travels_witness:
  "\<exists>t' req. Tunnel_secureRecords sample_tunnel_env sample_tunnel = Inr t' \<and> same_request req sample_request \<and>
     receiveRecords sample_tunnel_env 9 (Tunnel_getRecords t') Manager_make =
       (Manager_make\<lparr>mg_participating := smap_put (brq_tunnelId sample_request) req []\<rparr>,
        [Mg_arm_participating (brq_tunnelId sample_request), forward_records sample_tunnel_env sample_request
          (passed sample_tunnel_env (\<lambda>_. sample_tunnel_env) [sample_request] 1 (Tunnel_getRecords t'))], None)"
proof -
  have hops: "tn_hops sample_tunnel = [sample_request]" by (simp add: sample_tunnel_def)
  obtain t' where t': "Tunnel_secureRecords sample_tunnel_env sample_tunnel = Inr t'"
    "\<forall>mg msgId. smap_find (mg_pending mg) msgId = None \<and> \<not> mg_graceful mg \<and>
       smap_find (mg_participating mg) (brq_tunnelId sample_request) = None \<longrightarrow>
       (\<exists>req. same_request req sample_request \<and> receiveRecords sample_tunnel_env msgId (Tunnel_getRecords t') mg =
         (mg\<lparr>mg_participating := smap_put (brq_tunnelId sample_request) req (mg_participating mg)\<rparr>,
          [Mg_arm_participating (brq_tunnelId sample_request), forward_records sample_tunnel_env sample_request
            (passed sample_tunnel_env (\<lambda>_. sample_tunnel_env) [sample_request] 1 (Tunnel_getRecords t'))], None))"
    using tunnel_build_travels [OF sample_route_ok refl, of 0] by (auto simp: hops Let_def simp del: passed.simps(2))
  have "smap_find (mg_pending Manager_make) 9 = None" "\<not> mg_graceful Manager_make"
    "smap_find (mg_participating Manager_make) (brq_tunnelId sample_request) = None" "mg_participating Manager_make = []"
    by (simp_all add: Manager_make_def smap_find_def)
  with t' show ?thesis by metis
qed

definition sample_manager_of :: "request_type \<Rightarrow> Manager" where
  "sample_manager_of ty = Manager_make\<lparr>mg_participating := [(7, BuildRequestRecord_setType ty sample_request)]\<rparr>"

theorem tunnel_data_routed_witness:
  "\<exists>data'. tunnel_receiveData sample_tunnel_env 7 (replicate 1024 3) (sample_manager_of PARTICIPANT) =
     (sample_manager_of PARTICIPANT, [Mg_send (brq_nextHash sample_request) (te_newMessage sample_tunnel_env
        (TunnelData_body (TunnelData_make (brq_nextTunnelId sample_request) data')))], None) \<and> length data' = 1024"
proof -
  have c: "message_cipher sample_tunnel_env (\<lambda>k. rev) (\<lambda>k iv. rev)"
    by (simp add: message_cipher_def sample_tunnel_env_def length_toy_hash)
  have hop: "smap_find (mg_participating (sample_manager_of PARTICIPANT)) 7 = Some (BuildRequestRecord_setType PARTICIPANT sample_request)"
    by (simp add: sample_manager_of_def smap_find_def)
  show ?thesis
    using tunnel_data_routed [OF c hop, of "replicate 1024 3"] by (auto simp: BuildRequestRecord_getType_def)
qed

theorem own_tunnel_reply_witness:
  "let mg = Manager_make\<lparr>mg_heap := [sample_tunnel], mg_pending := [(5, 0)]\<rparr>
   in receiveRecords sample_tunnel_env 5 [] mg =
     (mg\<lparr>mg_heap := [sample_tunnel\<lparr>tn_state := OPERATIONAL\<rparr>], mg_tunnels := [(5, 0)], mg_pending := []\<rparr>, [], Some Null_dereference)"
  using own_tunnel_reply [of "Manager_make\<lparr>mg_heap := [sample_tunnel], mg_pending := [(5, 0)]\<rparr>" 5 0 sample_tunnel
      sample_tunnel_env "[]"]
  by (simp add: Let_def smap_find_def sample_tunnel_def Manager_make_def smap_erase_def)

theorem participation_stable_witness:
  "\<exists>hop. smap_find (mg_participating (fst (mg_handle (\<lambda>_. sample_tunnel_env) (Ev_timer True 8) (sample_manager_of GATEWAY)))) 7 = Some hop"
  using participation_stable [of "\<lambda>_. sample_tunnel_env" "Ev_timer True 8" "sample_manager_of GATEWAY"
      "tunnel_timerCallback True 8 (sample_manager_of GATEWAY)" "[]" None 7]
  by (simp add: sample_manager_of_def smap_find_def)

end
