(* ===== verification/Dispatch.thy ===== *)
theory Dispatch
  imports SSU_Context Tunnels
begin

text \<open>
  What stands between the transport and the rest of the router: \<open>OutboundMessageDispatcher\<close> with its
  queue, \<open>InboundMessageDispatcher\<close>, the message handlers of \<open>lib/i2p/handlers\<close> and the timer of
  \<open>PeerManager\<close>. The database, the compressor, the transport's answers, the clock and the generator
  are the fields of \<open>node_env\<close>; signals, handlers queued on the service and calls into other components
  are outputs.
\<close>

record node_env =
  ne_identity :: RouterIdentity
  ne_signingKey :: bytes
  ne_sha1 :: "bytes \<Rightarrow> bytes"
  ne_sha256 :: "bytes \<Rightarrow> bytes"
  ne_dsa_sign :: "bytes \<Rightarrow> bytes \<Rightarrow> bytes"
  ne_dsa_verify :: "bytes \<Rightarrow> bytes \<Rightarrow> bytes \<Rightarrow> bool"
  ne_gzip :: "bytes \<Rightarrow> bytes"
  ne_gunzip :: "bytes \<Rightarrow> bytes result"
  ne_config :: "bytes \<Rightarrow> bytes result"
  ne_routerExists :: "bytes \<Rightarrow> bool"
  ne_routerInfo :: "bytes \<Rightarrow> RouterInfo result"
  ne_randomRouter :: "bytes result"
  ne_isConnected :: "bytes \<Rightarrow> bool"
  ne_connect :: "RouterInfo \<Rightarrow> cpp_error option"
  ne_numPeers :: u32
  ne_lookup :: "bytes \<Rightarrow> bool"
  ne_now :: u64
  ne_secs :: u32
  ne_newMessage :: "msg_body \<Rightarrow> Message"
  ne_random32 :: u32
  ne_junkSignature :: bytes
  ne_junkMessage :: Message_junk

datatype node_out =
    No_sendMessage bytes Message
  | No_post bytes Message
  | No_setRouterInfo RouterInfo
  | No_arm_peers
  | Sig_databaseStore bytes bytes bool
  | Sig_searchReply bytes bytes "bytes list"
  | Sig_tunnelRecords u32 "BuildRecord list"
  | Sig_tunnelGateway bytes u32 bytes
  | Sig_tunnelData bytes u32 bytes
  | Sig_peerConnected bytes
  | Sig_connectionFailure bytes
  | Tr_receive bytes u32 bytes
  | Tr_send bytes u32 bytes
  | Tr_connect RouterInfo
  | Dht_lookup bytes

definition ascii :: "string \<Rightarrow> bytes" where
  "ascii s = map of_char s"

definition my_hash :: "node_env \<Rightarrow> bytes" where
  "my_hash env = fst (RouterIdentity_getHash (ne_sha256 env) (ne_identity env))"

subsection \<open>Outbound messages\<close>

text \<open>\<open>m_pending\<close> is an unordered multimap: the order of the entries of one key is the library's.\<close>

record OutboundDispatcher =
  od_transport :: bool
  od_pending :: "(bytes \<times> Message) list"

type_synonym od_result = "OutboundDispatcher \<times> node_out list \<times> cpp_error option"

definition short_bytes :: "node_env \<Rightarrow> Message \<Rightarrow> bytes" where
  "short_bytes env msg = Message_toBytes (ne_sha256 env) (ne_now env) (ne_secs env) False msg"

definition od_erase :: "bytes \<Rightarrow> OutboundDispatcher \<Rightarrow> OutboundDispatcher" where
  "od_erase rh d = d\<lparr>od_pending := filter (\<lambda>(k, _). k \<noteq> rh) (od_pending d)\<rparr>"

definition sendMessage :: "node_env \<Rightarrow> bytes \<Rightarrow> Message \<Rightarrow> OutboundDispatcher \<Rightarrow> od_result" where
  "sendMessage env to msg d =
     (if \<not> od_transport d then (d, [], Some (Logic_error ''No transport registered''))
      else if to = my_hash env then (d, [Tr_receive to (msg_id msg) (short_bytes env msg)], None)
      else if ne_isConnected env to then (d, [Tr_send to (msg_id msg) (short_bytes env msg)], None)
      else (let d = d\<lparr>od_pending := od_pending d @ [(to, msg)]\<rparr> in
            if ne_routerExists env to
            then case ne_routerInfo env to of
                   Inl err \<Rightarrow> (d, [], Some err)
                 | Inr ri \<Rightarrow> (d, [Tr_connect ri], ne_connect env ri)
            else if ne_lookup env to then (d, [Dht_lookup to], None)
            else (od_erase to d, [Dht_lookup to], None)))"

definition registerTransport :: "OutboundDispatcher \<Rightarrow> OutboundDispatcher" where
  "registerTransport d = d\<lparr>od_transport := True\<rparr>"

text \<open>Without a transport, sending what is queued dereferences a null pointer.\<close>

definition od_connected :: "node_env \<Rightarrow> bytes \<Rightarrow> OutboundDispatcher \<Rightarrow> od_result" where
  "od_connected env rh d =
     (let bucket = filter (\<lambda>(k, _). k = rh) (od_pending d) in
      if bucket \<noteq> [] \<and> \<not> od_transport d then (d, [], Some Null_dereference)
      else (od_erase rh d, map (\<lambda>(k, m). Tr_send k (msg_id m) (short_bytes env m)) bucket, None))"

definition od_dhtSuccess :: "node_env \<Rightarrow> bytes \<Rightarrow> bytes \<Rightarrow> OutboundDispatcher \<Rightarrow> od_result" where
  "od_dhtSuccess env k v d =
     (if \<exists>(rh, m) \<in> set (od_pending d). rh = v
      then case ne_routerInfo env v of
             Inl err \<Rightarrow> (d, [], Some err)
           | Inr ri \<Rightarrow> if od_transport d then (d, [Tr_connect ri], ne_connect env ri) else (d, [], Some Null_dereference)
      else (d, [], None))"

definition od_dhtFailure :: "bytes \<Rightarrow> OutboundDispatcher \<Rightarrow> OutboundDispatcher" where
  "od_dhtFailure k d = od_erase k d"

subsection \<open>Inbound messages\<close>

definition messageReceived :: "node_env \<Rightarrow> bytes \<Rightarrow> u32 \<Rightarrow> bytes \<Rightarrow> node_out list result" where
  "messageReceived env from msgId data =
     ebind (if msgId \<noteq> 0 then Message_fromBytes (ne_junkMessage env) (ne_now env) msgId data False
            else Message_fromBytes (ne_junkMessage env) (ne_now env) 0 data True) (\<lambda>m.
     Inr (case m of
            None \<Rightarrow> []
          | Some m \<Rightarrow>
              if Message_getType (msg_body m) \<in> {DELIVERY_STATUS, DB_STORE, DB_SEARCH_REPLY, VARIABLE_TUNNEL_BUILD,
                  VARIABLE_TUNNEL_BUILD_REPLY, TUNNEL_DATA, TUNNEL_GATEWAY}
              then [No_post from m] else []))"

text \<open>The router info this router announces.\<close>

definition set_values :: "(bytes \<times> bytes) list \<Rightarrow> Mapping" where
  "set_values kvs = fold (\<lambda>(k, v). Mapping_setValue k v) kvs []"

definition my_info :: "node_env \<Rightarrow> RouterInfo result" where
  "my_info env =
     ebind (ne_config env (ascii ''ssu_external_ip'')) (\<lambda>host.
     ebind (ne_config env (ascii ''ssu_external_port'')) (\<lambda>port.
     let am = set_values [(ascii ''caps'', ascii ''BC''), (ascii ''host'', host),
                (ascii ''key'', encode (my_hash env)), (ascii ''port'', port)];
         a = RouterAddress_make 5 (Date_of 0) (ascii ''SSU'') am;
         rm = set_values [(ascii ''coreVersion'', ascii ''0.9.11''), (ascii ''netId'', ascii ''2''),
                (ascii ''router.version'', ascii ''0.9.11''), (ascii ''stat_uptime'', ascii ''90m''),
                (ascii ''caps'', ascii ''OR'')];
         myInfo = RouterInfo_addAddress a (RouterInfo_make (ne_identity env) (Date_of (ne_now env)) rm (ne_junkSignature env))
     in Inr (RouterInfo_sign (ne_sha1 env) (ne_dsa_sign env) (ne_signingKey env) myInfo)))"

definition my_store :: "node_env \<Rightarrow> Message result" where
  "my_store env =
     ebind (my_info env) (\<lambda>myInfo.
     Inr (ne_newMessage env (DatabaseStore_body (DatabaseStore_make (mj_store (ne_junkMessage env))
       (fst (RouterIdentity_getHash (ne_sha256 env) (ri_identity myInfo))) ROUTER_INFO 0
       (ne_gzip env (RouterInfo_serialize myInfo))))))"

definition connectionEstablished :: "node_env \<Rightarrow> bytes \<Rightarrow> bool \<Rightarrow> node_out list \<times> cpp_error option" where
  "connectionEstablished env rh inbound =
     (if inbound
      then let status = No_sendMessage rh (ne_newMessage env (DeliveryStatus_body (DeliveryStatus_make (ne_random32 env) (Date_of 2))))
           in case my_store env of
                Inl err \<Rightarrow> ([status], Some err)
              | Inr m \<Rightarrow> ([status, No_sendMessage rh m, Sig_peerConnected rh], None)
      else ([Sig_peerConnected rh], None))"

definition connectionFailure :: "bytes \<Rightarrow> node_out list" where
  "connectionFailure rh = [Sig_connectionFailure rh]"

subsection \<open>The handlers\<close>

definition handle_DeliveryStatus :: "node_env \<Rightarrow> bytes \<Rightarrow> node_out list result" where
  "handle_DeliveryStatus env from = ebind (my_store env) (\<lambda>m. Inr [No_sendMessage from m])"

text \<open>A decoding error is caught, other exceptions propagate.\<close>

definition handle_DatabaseStore :: "node_env \<Rightarrow> bytes \<Rightarrow> DatabaseStore \<Rightarrow> node_out list result" where
  "handle_DatabaseStore env from dsm =
     (if dbs_type dsm = ROUTER_INFO
      then case ne_gunzip env (dbs_data dsm) of
             Inl (Decoding_error _) \<Rightarrow> Inr []
           | Inl err \<Rightarrow> Inl err
           | Inr inflatedData \<Rightarrow>
               ebind (RouterInfo_parse (length inflatedData) inflatedData 0) (\<lambda>(ri, _).
               Inr (if RouterInfo_verifySignature (ne_sha1 env) (ne_dsa_verify env) ri
                    then [No_setRouterInfo ri, Sig_databaseStore from (fst (RouterIdentity_getHash (ne_sha256 env) (ri_identity ri))) True]
                    else []))
      else Inr [])"

definition handle_DatabaseSearchReply :: "bytes \<Rightarrow> DatabaseSearchReply \<Rightarrow> node_out list" where
  "handle_DatabaseSearchReply from dsr = [Sig_searchReply from (dsr_key dsr) (dsr_hashes dsr)]"

definition handle_VariableTunnelBuild :: "u32 \<Rightarrow> BuildRecord list \<Rightarrow> node_out list" where
  "handle_VariableTunnelBuild msgId rs = [Sig_tunnelRecords msgId rs]"

definition handle_VariableTunnelBuildReply :: "u32 \<Rightarrow> BuildRecord list \<Rightarrow> node_out list" where
  "handle_VariableTunnelBuildReply msgId rs = [Sig_tunnelRecords msgId rs]"

definition handle_TunnelData :: "bytes \<Rightarrow> TunnelData \<Rightarrow> node_out list" where
  "handle_TunnelData from td = [Sig_tunnelData from (td_tunnelId td) (td_data td)]"

definition handle_TunnelGateway :: "bytes \<Rightarrow> TunnelGateway \<Rightarrow> node_out list" where
  "handle_TunnelGateway from tg = [Sig_tunnelGateway from (tg_tunnelId tg) (tg_data tg)]"

lemmas simple_handlers = handle_DatabaseSearchReply_def handle_VariableTunnelBuild_def
  handle_VariableTunnelBuildReply_def handle_TunnelData_def handle_TunnelGateway_def

text \<open>The handler \<open>messageReceived\<close> chose for the message, by its type.\<close>

definition handleMessage :: "node_env \<Rightarrow> bytes \<Rightarrow> Message \<Rightarrow> node_out list result" where
  "handleMessage env from msg =
     (case msg_body msg of
        DeliveryStatus_body d \<Rightarrow> handle_DeliveryStatus env from
      | DatabaseStore_body d \<Rightarrow> handle_DatabaseStore env from d
      | DatabaseSearchReply_body d \<Rightarrow> Inr (handle_DatabaseSearchReply from d)
      | VariableTunnelBuild_body rs \<Rightarrow> Inr (handle_VariableTunnelBuild (msg_id msg) rs)
      | VariableTunnelBuildReply_body rs \<Rightarrow> Inr (handle_VariableTunnelBuildReply (msg_id msg) rs)
      | TunnelData_body d \<Rightarrow> Inr (handle_TunnelData from d)
      | TunnelGateway_body d \<Rightarrow> Inr (handle_TunnelGateway from d)
      | _ \<Rightarrow> Inr [])"

subsection \<open>PeerManager\<close>

record PeerManager =
  pm_graceful :: bool

definition PeerManager_make :: PeerManager where
  "PeerManager_make = \<lparr>pm_graceful = False\<rparr>"

definition PeerManager_begin :: "node_out list" where
  "PeerManager_begin = [No_arm_peers]"

definition ProfileManager_getPeer :: "node_env \<Rightarrow> RouterInfo result" where
  "ProfileManager_getPeer env = ebind (ne_randomRouter env) (ne_routerInfo env)"

text \<open>\<open>minPeers - numPeers\<close> is computed modulo \<open>2 ^ 32\<close> and read as a signed number; an exception ends the
  loop and is logged.\<close>

fun connect_peers :: "(nat \<Rightarrow> node_env) \<Rightarrow> nat \<Rightarrow> nat \<Rightarrow> node_out list" where
  "connect_peers env i 0 = []"
| "connect_peers env i (Suc n) =
     (case ProfileManager_getPeer (env i) of
        Inl err \<Rightarrow> []
      | Inr ri \<Rightarrow> Tr_connect ri # (if ne_connect (env i) ri = None then connect_peers env (Suc i) n else []))"

definition PeerManager_callback :: "(nat \<Rightarrow> node_env) \<Rightarrow> OutboundDispatcher \<Rightarrow> PeerManager \<Rightarrow> node_out list \<times> cpp_error option" where
  "PeerManager_callback env d pm =
     (let wait = if pm_graceful pm then [] else [No_arm_peers]
      in case ebind (ne_config (env 0) (ascii ''min_peers'')) stoi of
           Inl err \<Rightarrow> (wait, None)
         | Inr minPeers \<Rightarrow>
             if od_transport d
             then let gap = sint (of_int minPeers - ne_numPeers (env 0) :: u32) in (connect_peers env 0 (nat gap) @ wait, None)
             else ([], Some Null_dereference))"

definition PeerManager_gracefulShutdown :: "PeerManager \<Rightarrow> PeerManager" where
  "PeerManager_gracefulShutdown pm = pm\<lparr>pm_graceful := True\<rparr>"

subsection \<open>The queue of the dispatcher\<close>

datatype od_event =
    Od_send bytes Message
  | Od_connected bytes
  | Od_dht_success bytes bytes
  | Od_dht_failure bytes

fun od_handle :: "node_env \<Rightarrow> od_event \<Rightarrow> OutboundDispatcher \<Rightarrow> od_result" where
  "od_handle env (Od_send to msg) d = sendMessage env to msg d"
| "od_handle env (Od_connected rh) d = od_connected env rh d"
| "od_handle env (Od_dht_success k v) d = od_dhtSuccess env k v d"
| "od_handle env (Od_dht_failure k) d = (od_dhtFailure k d, [], None)"

fun od_run :: "(node_env \<times> od_event) list \<Rightarrow> OutboundDispatcher \<Rightarrow> OutboundDispatcher \<times> node_out list" where
  "od_run [] d = (d, [])"
| "od_run ((env, ev) # evs) d =
     (let (d, out, err) = od_handle env ev d; (d, out') = od_run evs d in (d, out @ out'))"

definition queued :: "bytes \<Rightarrow> OutboundDispatcher \<Rightarrow> Message list" where
  "queued rh d = map snd (filter (\<lambda>(k, _). k = rh) (od_pending d))"

text \<open>The messages for \<open>rh\<close> among the events, and whether an event ends the wait of the messages for \<open>rh\<close>.\<close>

fun submitted :: "bytes \<Rightarrow> (node_env \<times> od_event) list \<Rightarrow> Message list" where
  "submitted rh [] = []"
| "submitted rh ((env, Od_send to msg) # evs) = (if to = rh then [msg] else []) @ submitted rh evs"
| "submitted rh (_ # evs) = submitted rh evs"

definition keeps_waiting :: "bytes \<Rightarrow> node_env \<times> od_event \<Rightarrow> bool" where
  "keeps_waiting rh e \<longleftrightarrow>
     (case snd e of
        Od_send to msg \<Rightarrow> to = rh \<longrightarrow> rh \<noteq> my_hash (fst e) \<and> \<not> ne_isConnected (fst e) rh \<and>
          (ne_routerExists (fst e) rh \<or> ne_lookup (fst e) rh)
      | Od_connected k \<Rightarrow> k \<noteq> rh
      | Od_dht_failure k \<Rightarrow> k \<noteq> rh
      | Od_dht_success k v \<Rightarrow> True)"

lemma filter_other: "rh \<noteq> k \<Longrightarrow> filter (\<lambda>(k', _). k' = rh) (filter (\<lambda>(k', _). k' \<noteq> k) l) = filter (\<lambda>(k', _). k' = rh) l"
  by (induction l) auto

lemma queued_erase: "queued rh (od_erase k d) = (if k = rh then [] else queued rh d)"
  by (auto simp: queued_def od_erase_def filter_other filter_empty_conv simp del: filter_filter)

lemma od_handle_queue:
  assumes "od_transport d" and "keeps_waiting rh (env, ev)" and "od_handle env ev d = (d', out, err)"
  shows "od_transport d' \<and> queued rh d' = queued rh d @ submitted rh [(env, ev)] \<and>
    (\<forall>i b. Tr_send rh i b \<notin> set out)"
proof (cases ev)
  case (Od_send to msg)
  then show ?thesis
    using assms
    by (auto simp: sendMessage_def keeps_waiting_def Let_def queued_erase split: if_splits sum.splits)
      (auto simp: queued_def od_erase_def)
next
  case (Od_connected k)
  then show ?thesis
    using assms by (auto simp: od_connected_def keeps_waiting_def queued_erase Let_def) (auto simp: od_erase_def)
qed (use assms in \<open>auto simp: od_dhtSuccess_def od_dhtFailure_def keeps_waiting_def queued_erase
    split: if_splits sum.splits\<close>, auto simp: od_erase_def)

lemma submitted_Cons: "submitted rh (e # evs) = submitted rh [e] @ submitted rh evs"
  by (cases e; cases "snd e") auto

lemma od_run_queue:
  assumes "od_transport d" and "list_all (keeps_waiting rh) evs" and "od_run evs d = (d', out)"
  shows "od_transport d' \<and> queued rh d' = queued rh d @ submitted rh evs \<and> (\<forall>i b. Tr_send rh i b \<notin> set out)"
  using assms
proof (induction evs arbitrary: d out)
  case (Cons e evs)
  obtain env ev where e: "e = (env, ev)" by (cases e)
  obtain d1 out1 err where h: "od_handle env ev d = (d1, out1, err)" by (metis prod_cases3)
  obtain out2 where r: "od_run evs d1 = (d', out2)" "out = out1 @ out2"
    using Cons.prems(3) by (auto simp: e h split: prod.splits)
  have s: "od_transport d1 \<and> queued rh d1 = queued rh d @ submitted rh [e] \<and> (\<forall>i b. Tr_send rh i b \<notin> set out1)"
    using od_handle_queue [OF Cons.prems(1) _ h, of rh] Cons.prems(2) by (simp add: e)
  then show ?case
    using Cons.IH [OF _ _ r(1)] Cons.prems(2) r(2) by (simp add: submitted_Cons [of rh e evs])
qed simp

subsection \<open>Router infos\<close>

lemma entries_small:
  "\<forall>(k, v) \<in> set m. length k < 256 \<and> length v < 256 \<Longrightarrow> length (concat (map Mapping_entry_bytes m)) \<le> 514 * length m"
  by (induction m) (auto simp: Mapping_entry_bytes_def)

lemma Mapping_wf_small:
  "smap_ok m \<Longrightarrow> \<forall>(k, v) \<in> set m. length k < 256 \<and> length v < 256 \<Longrightarrow> length m \<le> 100 \<Longrightarrow> Mapping_wf m"
  using entries_small [of m] by (auto simp: Mapping_wf_def)

lemma fold_set_values:
  assumes "smap_ok m" "\<forall>(k, v) \<in> set m \<union> set kvs. length k < 256 \<and> length v < 256"
  shows "smap_ok (fold (\<lambda>(k, v). Mapping_setValue k v) kvs m) \<and>
    (\<forall>(k, v) \<in> set (fold (\<lambda>(k, v). Mapping_setValue k v) kvs m). length k < 256 \<and> length v < 256) \<and>
    length (fold (\<lambda>(k, v). Mapping_setValue k v) kvs m) \<le> length m + length kvs"
  using assms
proof (induction kvs arbitrary: m)
  case (Cons kv kvs)
  obtain k v where kv: "kv = (k, v)" by (cases kv)
  let ?m = "smap_put k v m"
  have "smap_ok ?m" "\<forall>(k, v) \<in> set ?m \<union> set kvs. length k < 256 \<and> length v < 256"
    using Cons.prems set_smap_put [of k v m] by (auto simp: kv smap_ok_put)
  from Cons.IH [OF this] show ?case using length_smap_put [of k v m] by (auto simp: kv Mapping_setValue_def)
qed auto

lemma set_values_wf:
  "length kvs \<le> 100 \<Longrightarrow> \<forall>(k, v) \<in> set kvs. length k < 256 \<and> length v < 256 \<Longrightarrow> Mapping_wf (set_values kvs)"
  unfolding set_values_def using fold_set_values [of "[]" kvs] by (intro Mapping_wf_small) (auto simp: smap_ok_def)

lemma set_values_size:
  assumes "\<forall>(k, v) \<in> set kvs. length k < 256 \<and> length v < 256"
  shows "length (Mapping_serialize (set_values kvs)) \<le> 514 * length kvs + 2"
proof -
  have "length (set_values kvs) \<le> length kvs" "\<forall>(k, v) \<in> set (set_values kvs). length k < 256 \<and> length v < 256"
    using fold_set_values [of "[]" kvs] assms by (auto simp: set_values_def smap_ok_def)
  with entries_small [of "set_values kvs"] show ?thesis by (simp add: Mapping_serialize_def Let_def)
qed

lemma length_ascii [simp]: "length (ascii s) = length s"
  by (simp add: ascii_def)

text \<open>What the algorithms and the configuration have to satisfy for the router to announce itself.\<close>

definition node_ok :: "node_env \<Rightarrow> bool" where
  "node_ok env \<longleftrightarrow> RouterIdentity_wf (ne_identity env) \<and> (\<forall>x. length (ne_sha256 env x) = 32) \<and>
     (\<forall>h. length (ne_dsa_sign env (ne_signingKey env) h) = 40 \<and>
        ne_dsa_verify env (rid_signingKey (ne_identity env)) h (ne_dsa_sign env (ne_signingKey env) h)) \<and>
     (\<exists>host. ne_config env (ascii ''ssu_external_ip'') = Inr host \<and> length host < 256) \<and>
     (\<exists>port. ne_config env (ascii ''ssu_external_port'') = Inr port \<and> length port < 256)"

lemma my_hash_length: "node_ok env \<Longrightarrow> length (my_hash env) = 32"
  by (simp add: node_ok_def my_hash_def RouterIdentity_getHash_def RouterIdentity_wf_def Let_def)

lemma my_info_good:
  assumes ok: "node_ok env"
  shows "\<exists>ri. my_info env = Inr ri \<and> RouterInfo_wf ri \<and> ri_identity ri = ne_identity env \<and>
    RouterInfo_verifySignature (ne_sha1 env) (ne_dsa_verify env) ri"
proof -
  obtain host port where hp: "ne_config env (ascii ''ssu_external_ip'') = Inr host" "length host < 256"
    "ne_config env (ascii ''ssu_external_port'') = Inr port" "length port < 256"
    using ok by (auto simp: node_ok_def)
  have key: "length (encode (my_hash env)) = 44" by (simp add: encode_spec length_b64_spec my_hash_length [OF ok])
  have wf: "Mapping_wf (set_values [(ascii ''caps'', ascii ''BC''), (ascii ''host'', host),
                (ascii ''key'', encode (my_hash env)), (ascii ''port'', port)])"
    "Mapping_wf (set_values [(ascii ''coreVersion'', ascii ''0.9.11''), (ascii ''netId'', ascii ''2''),
                (ascii ''router.version'', ascii ''0.9.11''), (ascii ''stat_uptime'', ascii ''90m''),
                (ascii ''caps'', ascii ''OR'')])"
    by (rule set_values_wf; simp add: hp key)+
  then show ?thesis
    using ok hp(1,3)
    by (auto simp: my_info_def node_ok_def RouterInfo_wf_def RouterInfo_sign_def RouterInfo_addAddress_def RouterInfo_make_def
        RouterAddress_make_def RouterAddress_wf_def RouterInfo_verifySignature_def RouterInfo_getSignedBytes_def Let_def)
qed

lemma my_store_received:
  assumes ok: "node_ok a" and new: "\<forall>body. msg_body (ne_newMessage a body) = body"
    and info: "my_info a = Inr ri" and len: "length (ne_gzip a (RouterInfo_serialize ri)) < 65536"
    and store: "my_store a = Inr m" and mid: "mid \<noteq> 0"
  shows "\<exists>m' d. messageReceived b from mid (short_bytes a m) = Inr [No_post from m'] \<and> msg_body m' = DatabaseStore_body d \<and>
    dbs_type d = ROUTER_INFO \<and> dbs_data d = ne_gzip a (RouterInfo_serialize ri)"
proof -
  let ?d = "DatabaseStore_make (mj_store (ne_junkMessage b)) (my_hash a) ROUTER_INFO 0 (ne_gzip a (RouterInfo_serialize ri))"
  have id: "ri_identity ri = ne_identity a" using my_info_good [OF ok] info by auto
  have body: "Message_compile (msg_body m) = Message_compile (DatabaseStore_body ?d)"
    "Message_getType (msg_body m) = Message_getType (DatabaseStore_body ?d)"
    using store info new by (auto simp: my_store_def DatabaseStore_make_def DatabaseStore_compile_def my_hash_def id)
  have wf: "body_wf (ne_junkMessage b) (msg_body (m\<lparr>msg_body := DatabaseStore_body ?d\<rparr>))"
    using my_hash_length [OF ok] len by (simp add: DatabaseStore_make_def)
  have same: "short_bytes a m = Message_toBytes (ne_sha256 a) (ne_now a) (ne_secs a) False (m\<lparr>msg_body := DatabaseStore_body ?d\<rparr>)"
    by (simp add: short_bytes_def Message_toBytes_def body Let_def)
  show ?thesis
    unfolding messageReceived_def using mid
    by (simp add: toBytes_short_parse [OF wf same]) (simp add: DatabaseStore_make_def)
qed

subsection \<open>Properties\<close>

text \<open>C18. Messages for a router that is not connected wait in \<open>OutboundMessageDispatcher\<close>: whatever the
  dispatcher does meanwhile for other routers and whatever lookups succeed, nothing goes out to that
  router, and when it connects exactly the messages submitted for it are sent, each once, the queue
  keeps none of them and the messages of other routers stay as they are.\<close>

theorem queued_messages:
  assumes "od_transport d" and "list_all (keeps_waiting rh) evs" and "od_run evs d = (d1, out)"
    and "od_connected env rh d1 = (d2, out2, err)"
  shows "(\<forall>i b. Tr_send rh i b \<notin> set out) \<and> err = None \<and>
    mset out2 = image_mset (\<lambda>m. Tr_send rh (msg_id m) (short_bytes env m)) (mset (queued rh d) + mset (submitted rh evs)) \<and>
    queued rh d2 = [] \<and> (\<forall>k. k \<noteq> rh \<longrightarrow> queued k d2 = queued k d1)"
proof -
  have q: "od_transport d1" "queued rh d1 = queued rh d @ submitted rh evs" "\<forall>i b. Tr_send rh i b \<notin> set out"
    using od_run_queue [OF assms(1-3)] by auto
  have r: "err = None" "d2 = od_erase rh d1"
    "out2 = map (\<lambda>(k, m). Tr_send k (msg_id m) (short_bytes env m)) (filter (\<lambda>(k, _). k = rh) (od_pending d1))"
    using assms(4) q(1) by (auto simp: od_connected_def Let_def split: if_splits)
  have "out2 = map (\<lambda>m. Tr_send rh (msg_id m) (short_bytes env m)) (queued rh d1)"
    by (auto simp: r(3) queued_def)
  then show ?thesis using q r by (simp add: queued_erase)
qed

text \<open>C17. The exchange that follows a delivery status: the router that receives it answers with a
  database store holding its signed router info; the peer the transport hands those bytes to parses
  them, checks the signature, stores exactly that router info and signals the store under the sender's
  hash, for any compressor whose output on the info the peer's decompressor undoes.\<close>

theorem router_info_exchange:
  assumes "node_ok a" and "\<forall>body. msg_body (ne_newMessage a body) = body \<and> msg_id (ne_newMessage a body) \<noteq> 0"
    and "\<forall>ri. my_info a = Inr ri \<longrightarrow> length (ne_gzip a (RouterInfo_serialize ri)) < 65536"
    and "\<forall>ri. my_info a = Inr ri \<longrightarrow> ne_gunzip b (ne_gzip a (RouterInfo_serialize ri)) = Inr (RouterInfo_serialize ri)"
    and "ne_sha1 b = ne_sha1 a" and "ne_sha256 b = ne_sha256 a" and "ne_dsa_verify b = ne_dsa_verify a"
    and "od_transport d" and "ne_isConnected a to" and "to \<noteq> my_hash a"
    and "msg_body (status) = DeliveryStatus_body ds"
  shows "\<exists>ri m m'. my_info a = Inr ri \<and> ri_identity ri = ne_identity a \<and>
    handleMessage a to (status) = Inr [No_sendMessage to m] \<and>
    sendMessage a to m d = (d, [Tr_send to (msg_id m) (short_bytes a m)], None) \<and>
    messageReceived b (my_hash a) (msg_id m) (short_bytes a m) = Inr [No_post (my_hash a) m'] \<and>
    handleMessage b (my_hash a) m' = Inr [No_setRouterInfo ri, Sig_databaseStore (my_hash a) (my_hash a) True]"
proof -
  obtain ri where ri: "my_info a = Inr ri" "RouterInfo_wf ri" "ri_identity ri = ne_identity a"
    "RouterInfo_verifySignature (ne_sha1 a) (ne_dsa_verify a) ri"
    using my_info_good [OF assms(1)] by blast
  obtain m where m: "my_store a = Inr m" "msg_id m \<noteq> 0" using ri(1) assms(2) by (auto simp: my_store_def)
  obtain m' dsm where r: "messageReceived b (my_hash a) (msg_id m) (short_bytes a m) = Inr [No_post (my_hash a) m']"
    "msg_body m' = DatabaseStore_body dsm" "dbs_type dsm = ROUTER_INFO" "dbs_data dsm = ne_gzip a (RouterInfo_serialize ri)"
    using my_store_received [OF assms(1) _ ri(1) _ m, of b "my_hash a"] assms(2,3) ri(1) by blast
  have "RouterInfo_parse (length (RouterInfo_serialize ri)) (RouterInfo_serialize ri) 0 =
      Inr (ri, length (RouterInfo_getSignedBytes ri))"
    using RouterInfo_par_ser [OF ri(2), of "RouterInfo_serialize ri" 0] by simp
  then have "handleMessage b (my_hash a) m' = Inr [No_setRouterInfo ri, Sig_databaseStore (my_hash a) (my_hash a) True]"
    using r(2-4) ri(1,3,4) assms(4-7) by (simp add: handleMessage_def handle_DatabaseStore_def my_hash_def)
  moreover have "handleMessage a to (status) = Inr [No_sendMessage to m]"
    using assms(11) by (simp add: handleMessage_def handle_DeliveryStatus_def m)
  ultimately show ?thesis using r(1) ri(1,3) assms(8-10) by (auto simp: sendMessage_def)
qed

subsection \<open>Instances\<close>

definition toy_node :: "byte \<Rightarrow> node_env" where
  "toy_node b = \<lparr>ne_identity = toy_identity b, ne_signingKey = [], ne_sha1 = (\<lambda>x. x), ne_sha256 = toy_hash,
     ne_dsa_sign = (\<lambda>k h. replicate 40 9), ne_dsa_verify = (\<lambda>k h s. s = replicate 40 9), ne_gzip = (\<lambda>x. x),
     ne_gunzip = Inr, ne_config = (\<lambda>_. Inr [49]), ne_routerExists = (\<lambda>_. False),
     ne_routerInfo = (\<lambda>_. Inl Null_dereference), ne_randomRouter = Inl Null_dereference,
     ne_isConnected = (\<lambda>_. True), ne_connect = (\<lambda>_. None), ne_numPeers = 0, ne_lookup = (\<lambda>_. True), ne_now = 7, ne_secs = 8,
     ne_newMessage = Message_make 3 0 0, ne_random32 = 4, ne_junkSignature = [], ne_junkMessage = sample_junk\<rparr>"

lemma toy_node_ok: "node_ok (toy_node b)"
  by (simp add: node_ok_def toy_node_def toy_identity_def RouterIdentity_wf_def Certificate_default_def length_toy_hash
      Certificate_wf_def)

definition toy_away :: node_env where
  "toy_away = (toy_node 1)\<lparr>ne_isConnected := (\<lambda>_. False)\<rparr>"

lemma toy_away_hash: "length x \<noteq> 32 \<Longrightarrow> my_hash toy_away \<noteq> x \<and> x \<noteq> my_hash toy_away"
  using my_hash_length [OF toy_node_ok [of 1]] by (auto simp: toy_away_def my_hash_def)

theorem queued_messages_witness:
  "let m = Message_make 9 0 0 Garlic_body;
     evs = [(toy_away, Od_send [5] m), (toy_away, Od_send [6] m), (toy_away, Od_dht_failure [6])];
     d1 = fst (od_run evs \<lparr>od_transport = True, od_pending = []\<rparr>)
   in fst (snd (od_connected toy_away [5] d1)) = [Tr_send [5] 9 (short_bytes toy_away m)] \<and>
      queued [5] (fst (od_connected toy_away [5] d1)) = []"
proof -
  let ?m = "Message_make 9 0 0 Garlic_body"
  let ?evs = "[(toy_away, Od_send [5] ?m), (toy_away, Od_send [6] ?m), (toy_away, Od_dht_failure [6])]"
  let ?d = "\<lparr>od_transport = True, od_pending = []\<rparr>"
  obtain d1 out where run: "od_run ?evs ?d = (d1, out)" by (cases "od_run ?evs ?d")
  obtain d2 out2 err where con: "od_connected toy_away [5] d1 = (d2, out2, err)" by (metis prod_cases3)
  have keeps: "list_all (keeps_waiting [5]) ?evs"
    using toy_away_hash [of "[5]"] by (simp add: keeps_waiting_def) (simp add: toy_away_def toy_node_def)
  have "mset out2 = {#Tr_send [5] 9 (short_bytes toy_away ?m)#} \<and> queued [5] d2 = []"
    using queued_messages [OF _ keeps run con] by (simp add: queued_def Message_make_def)
  then show ?thesis using run con by (simp only: Let_def fst_conv snd_conv) simp
qed

lemma toy_info_small:
  assumes "my_info (toy_node b) = Inr ri"
  shows "length (RouterInfo_serialize ri) < 65536"
proof -
  have key: "length (encode (my_hash (toy_node b))) = 44"
    by (simp add: encode_spec length_b64_spec my_hash_length [OF toy_node_ok])
  let ?am = "set_values [(ascii ''caps'', ascii ''BC''), (ascii ''host'', [49]), (ascii ''key'', encode (my_hash (toy_node b))),
      (ascii ''port'', [49])]"
  let ?rm = "set_values [(ascii ''coreVersion'', ascii ''0.9.11''), (ascii ''netId'', ascii ''2''),
      (ascii ''router.version'', ascii ''0.9.11''), (ascii ''stat_uptime'', ascii ''90m''), (ascii ''caps'', ascii ''OR'')]"
  have "length (Mapping_serialize ?am) \<le> 2058" "length (Mapping_serialize ?rm) \<le> 2572"
    by (rule order_trans [OF set_values_size]; simp add: key)+
  then show ?thesis
    using assms
    by (auto simp: my_info_def toy_node_def RouterInfo_sign_def RouterInfo_serialize_def RouterInfo_getSignedBytes_def
        RouterInfo_addAddress_def RouterInfo_make_def RouterAddress_make_def RouterAddress_serialize_def Let_def toy_identity_def
        RouterIdentity_serialize_def Certificate_default_def Certificate_serialize_def)
qed

theorem router_info_exchange_witness:
  "\<exists>ri m m'. handleMessage (toy_node 1) (my_hash (toy_node 2)) (Message_make 5 0 0 (DeliveryStatus_body (DeliveryStatus_make 3 (Date_of 2)))) =
       Inr [No_sendMessage (my_hash (toy_node 2)) m] \<and>
     messageReceived (toy_node 2) (my_hash (toy_node 1)) (msg_id m) (short_bytes (toy_node 1) m) = Inr [No_post (my_hash (toy_node 1)) m'] \<and>
     handleMessage (toy_node 2) (my_hash (toy_node 1)) m' =
       Inr [No_setRouterInfo ri, Sig_databaseStore (my_hash (toy_node 1)) (my_hash (toy_node 1)) True]"
proof -
  have 1: "length (RouterInfo_serialize ri) < 65536" if "my_info (toy_node 1) = Inr ri" for ri
    using toy_info_small [OF that] .
  have 2: "my_hash (toy_node 2) \<noteq> my_hash (toy_node 1)" by code_simp
  show ?thesis
    using router_info_exchange [OF toy_node_ok, of 1 "toy_node 2" "\<lparr>od_transport = True, od_pending = []\<rparr>" "my_hash (toy_node 2)"
      "Message_make 5 0 0 (DeliveryStatus_body (DeliveryStatus_make 3 (Date_of 2)))"] 1 2 
    by (auto simp: toy_node_def Message_make_def)
qed

end
