(* ===== verification/Database.thy ===== *)
theory Database
  imports Router_Types Crypto_Util
begin

text \<open>
  \<open>lib/i2p/Database.cpp\<close>: the tables of \<open>share/schema.sql\<close>, the statements the constructor prepares,
  and the members that run them. A statement is read by the meaning SQL gives its text: rows are lists,
  a primary key that is hit makes \<open>INSERT OR REPLACE\<close> delete the old row first, deleting a row
  deletes the rows that refer to it with \<open>ON DELETE CASCADE\<close>, and an insertion without the row it
  refers to is a constraint error (\<open>PRAGMA foreign_keys=ON\<close>). Values are bound as text: byte arrays in
  hexadecimal, router hashes in Base64; numbers end up as integers in the integer columns.
\<close>

subsection \<open>Tables\<close>

record router_row =
  rr_id :: bytes
  rr_encryption_key :: bytes
  rr_signing_key :: bytes
  rr_certificate :: bytes
  rr_published :: bytes
  rr_signature :: bytes

record address_row =
  ar_router_id :: bytes
  ar_index :: int
  ar_cost :: int
  ar_expiration :: bytes
  ar_transport :: bytes

record option_row =
  op_router_id :: bytes
  op_name :: bytes
  op_value :: bytes

record address_option_row =
  ao_router_id :: bytes
  ao_index :: int
  ao_name :: bytes
  ao_value :: bytes

record profile_row =
  pr_router_id :: bytes
  pr_last_seen :: "int option"

record Database =
  db_config :: "(bytes \<times> bytes) list"
  db_routers_raw :: "(bytes \<times> bytes) list"
  db_routers :: "router_row list"
  db_router_addresses :: "address_row list"
  db_router_options :: "option_row list"
  db_profiles :: "profile_row list"
  db_router_address_options :: "address_option_row list"

definition empty_db :: Database where
  "empty_db = \<lparr>db_config = [], db_routers_raw = [], db_routers = [], db_router_addresses = [], db_router_options = [],
     db_profiles = [], db_router_address_options = []\<rparr>"

subsection \<open>Statements\<close>

datatype statement =
    Set_config | Delete_profile | Delete_router_address_options | Delete_router_addresses
  | Delete_router_options | Delete_router | Truncate_profiles | Truncate_router_address_options
  | Truncate_router_addresses | Truncate_router_options | Truncate_routers
  | Insert_router_raw | Insert_router | Insert_router_address | Insert_router_address_option | Insert_router_option

datatype sql_value = Text bytes | Integer int

text \<open>The assignments of the constructor to \<open>Database::commands\<close>, in its order; a later one replaces an
  earlier one with the same name.\<close>

definition Database_commands :: "(string \<times> statement) list" where
  "Database_commands =
     [(''set_config'', Set_config),
      (''delete_profile'', Delete_profile),
      (''delete_router_address_options'', Delete_router_address_options),
      (''delete_router_addresses'', Delete_router_addresses),
      (''delete_router_options'', Delete_router_options),
      (''delete_router'', Delete_router),
      (''truncate_profiles'', Truncate_profiles),
      (''truncate_router_address_options'', Truncate_router_address_options),
      (''truncate_router_addresses'', Truncate_router_addresses),
      (''truncate_router_options'', Truncate_router_options),
      (''truncate_router_options'', Truncate_routers),
      (''insert_router_raw'', Insert_router_raw),
      (''insert_router'', Insert_router),
      (''insert_router_address'', Insert_router_address),
      (''insert_router_address_option'', Insert_router_address_option),
      (''insert_router_option'', Insert_router_option)]"

definition command :: "string \<Rightarrow> statement option" where
  "command name = map_of (rev Database_commands) name"

text \<open>Deleting rows of \<open>router_addresses\<close> and \<open>routers_raw\<close> with what refers to them.\<close>

definition delete_addresses :: "(address_row \<Rightarrow> bool) \<Rightarrow> Database \<Rightarrow> Database" where
  "delete_addresses P db =
     db\<lparr>db_router_addresses := filter (\<lambda>a. \<not> P a) (db_router_addresses db),
        db_router_address_options := filter (\<lambda>opt. \<not> (\<exists>a \<in> set (db_router_addresses db). P a \<and>
          ar_router_id a = ao_router_id opt \<and> ar_index a = ao_index opt)) (db_router_address_options db)\<rparr>"

definition delete_raw :: "bytes \<Rightarrow> Database \<Rightarrow> Database" where
  "delete_raw i db =
     (if i \<in> fst ` set (db_routers_raw db)
      then let db = delete_addresses (\<lambda>a. ar_router_id a = i) db
           in db\<lparr>db_routers_raw := filter (\<lambda>r. fst r \<noteq> i) (db_routers_raw db),
                 db_routers := filter (\<lambda>r. rr_id r \<noteq> i) (db_routers db),
                 db_router_options := filter (\<lambda>r. op_router_id r \<noteq> i) (db_router_options db),
                 db_profiles := filter (\<lambda>r. pr_router_id r \<noteq> i) (db_profiles db)\<rparr>
      else db)"

definition with_parent :: "bool \<Rightarrow> Database \<Rightarrow> Database result" where
  "with_parent parent db = (if parent then Inr db else Inl (Runtime_error ''constraint failed''))"

definition set_config :: "bytes \<Rightarrow> bytes \<Rightarrow> Database \<Rightarrow> Database" where
  "set_config name val db = db\<lparr>db_config := filter (\<lambda>r. fst r \<noteq> name) (db_config db) @ [(name, val)]\<rparr>"

definition insert_router_raw :: "bytes \<Rightarrow> bytes \<Rightarrow> Database \<Rightarrow> Database" where
  "insert_router_raw i raw db = (let db = delete_raw i db in db\<lparr>db_routers_raw := db_routers_raw db @ [(i, raw)]\<rparr>)"

definition insert_router :: "router_row \<Rightarrow> Database \<Rightarrow> Database result" where
  "insert_router r db = with_parent (rr_id r \<in> fst ` set (db_routers_raw db)) (db\<lparr>db_routers := db_routers db @ [r]\<rparr>)"

definition insert_router_address :: "address_row \<Rightarrow> Database \<Rightarrow> Database result" where
  "insert_router_address r db =
     with_parent (ar_router_id r \<in> fst ` set (db_routers_raw db))
       (let db = delete_addresses (\<lambda>a. ar_router_id a = ar_router_id r \<and> ar_index a = ar_index r) db
        in db\<lparr>db_router_addresses := db_router_addresses db @ [r]\<rparr>)"

definition insert_router_address_option :: "address_option_row \<Rightarrow> Database \<Rightarrow> Database result" where
  "insert_router_address_option r db =
     with_parent (\<exists>a \<in> set (db_router_addresses db). ar_router_id a = ao_router_id r \<and> ar_index a = ao_index r)
       (db\<lparr>db_router_address_options :=
          filter (\<lambda>q. \<not> (ao_router_id q = ao_router_id r \<and> ao_index q = ao_index r \<and> ao_name q = ao_name r))
            (db_router_address_options db) @ [r]\<rparr>)"

definition insert_router_option :: "option_row \<Rightarrow> Database \<Rightarrow> Database result" where
  "insert_router_option r db =
     with_parent (op_router_id r \<in> fst ` set (db_routers_raw db))
       (db\<lparr>db_router_options :=
          filter (\<lambda>q. \<not> (op_router_id q = op_router_id r \<and> op_name q = op_name r)) (db_router_options db) @ [r]\<rparr>)"

fun delete_for :: "statement \<Rightarrow> bytes \<Rightarrow> Database \<Rightarrow> Database" where
  "delete_for Delete_profile i db = db\<lparr>db_profiles := filter (\<lambda>r. pr_router_id r \<noteq> i) (db_profiles db)\<rparr>"
| "delete_for Delete_router_address_options i db =
     db\<lparr>db_router_address_options := filter (\<lambda>r. ao_router_id r \<noteq> i) (db_router_address_options db)\<rparr>"
| "delete_for Delete_router_addresses i db = delete_addresses (\<lambda>a. ar_router_id a = i) db"
| "delete_for Delete_router_options i db = db\<lparr>db_router_options := filter (\<lambda>r. op_router_id r \<noteq> i) (db_router_options db)\<rparr>"
| "delete_for Delete_router i db = db\<lparr>db_routers := filter (\<lambda>r. rr_id r \<noteq> i) (db_routers db)\<rparr>"
| "delete_for _ i db = db"

fun truncate :: "statement \<Rightarrow> Database \<Rightarrow> Database" where
  "truncate Truncate_profiles db = db\<lparr>db_profiles := []\<rparr>"
| "truncate Truncate_router_address_options db = db\<lparr>db_router_address_options := []\<rparr>"
| "truncate Truncate_router_addresses db = delete_addresses (\<lambda>a. True) db"
| "truncate Truncate_router_options db = db\<lparr>db_router_options := []\<rparr>"
| "truncate Truncate_routers db = db\<lparr>db_routers := []\<rparr>"
| "truncate _ db = db"

text \<open>Running a statement with the values bound to its parameters; their number has to fit.\<close>

definition run :: "statement \<Rightarrow> sql_value list \<Rightarrow> Database \<Rightarrow> Database result" where
  "run s args db =
     (let bad = Inl (Runtime_error ''bind or column index out of range'') in
      if s \<in> {Truncate_profiles, Truncate_router_address_options, Truncate_router_addresses, Truncate_router_options, Truncate_routers}
      then (if args = [] then Inr (truncate s db) else bad)
      else if s \<in> {Delete_profile, Delete_router_address_options, Delete_router_addresses, Delete_router_options, Delete_router}
      then (case args of [Text i] \<Rightarrow> Inr (delete_for s i db) | _ \<Rightarrow> bad)
      else if s = Set_config then (case args of [Text name, Text val] \<Rightarrow> Inr (set_config name val db) | _ \<Rightarrow> bad)
      else if s = Insert_router_raw then (case args of [Text i, Text raw] \<Rightarrow> Inr (insert_router_raw i raw db) | _ \<Rightarrow> bad)
      else if s = Insert_router
      then (case args of [Text i, Text enc, Text sig, Text cert, Text pub, Text sg] \<Rightarrow>
              insert_router \<lparr>rr_id = i, rr_encryption_key = enc, rr_signing_key = sig, rr_certificate = cert,
                rr_published = pub, rr_signature = sg\<rparr> db | _ \<Rightarrow> bad)
      else if s = Insert_router_address
      then (case args of [Text i, Integer n, Integer cost, Text ex, Text tr] \<Rightarrow>
              insert_router_address \<lparr>ar_router_id = i, ar_index = n, ar_cost = cost, ar_expiration = ex, ar_transport = tr\<rparr> db
            | _ \<Rightarrow> bad)
      else if s = Insert_router_address_option
      then (case args of [Text i, Integer n, Text name, Text val] \<Rightarrow>
              insert_router_address_option \<lparr>ao_router_id = i, ao_index = n, ao_name = name, ao_value = val\<rparr> db | _ \<Rightarrow> bad)
      else (case args of [Text i, Text name, Text val] \<Rightarrow>
              insert_router_option \<lparr>op_router_id = i, op_name = name, op_value = val\<rparr> db | _ \<Rightarrow> bad))"

text \<open>\<open>statement_guard(Database::commands[name], args ..., sqlite::exec)\<close>: an unknown name is a null pointer.\<close>

definition exec :: "string \<Rightarrow> sql_value list \<Rightarrow> Database \<Rightarrow> Database result" where
  "exec name args db = (case command name of None \<Rightarrow> Inl Null_dereference | Some s \<Rightarrow> run s args db)"

fun exec_all :: "(string \<times> sql_value list) list \<Rightarrow> Database \<Rightarrow> Database result" where
  "exec_all [] db = Inr db"
| "exec_all ((name, args) # cs) db = ebind (exec name args db) (exec_all cs)"

subsection \<open>Members\<close>

definition Database_createDb :: "bytes \<Rightarrow> bytes \<Rightarrow> Database \<Rightarrow> Database result" where
  "Database_createDb elg_string dsa_string db =
     ebind (run Set_config [Text (map of_char ''private_encryption_key''), Text elg_string] db)
       (run Set_config [Text (map of_char ''private_signing_key''), Text dsa_string])"

definition Database_getConfigValue :: "bytes \<Rightarrow> Database \<Rightarrow> bytes result" where
  "Database_getConfigValue name db =
     (case map_of (db_config db) name of
        None \<Rightarrow> Inl (Runtime_error (''config value not found: '' @ map (\<lambda>b. char_of (unat b)) name))
      | Some val \<Rightarrow> Inr val)"

definition Database_setConfigValue :: "bytes \<Rightarrow> bytes \<Rightarrow> Database \<Rightarrow> Database result" where
  "Database_setConfigValue name val db = exec ''set_config'' [Text name, Text val] db"

text \<open>\<open>pick\<close> is the row \<open>ORDER BY RANDOM() LIMIT 1\<close> gives; \<open>junk\<close> the memory of the hash.\<close>

definition Database_getRandomRouter :: "nat \<Rightarrow> bytes \<Rightarrow> Database \<Rightarrow> bytes result" where
  "Database_getRandomRouter pick junk db =
     (if db_routers db = [] then Inl (Runtime_error ''couldn't fetch random router'')
      else Inr (toStaticByteArray 32 junk (decode (rr_id (db_routers db ! (pick mod length (db_routers db)))))))"

definition Database_routerExists :: "bytes \<Rightarrow> Database \<Rightarrow> bool" where
  "Database_routerExists routerHash db = (filter (\<lambda>r. fst r = encode routerHash) (db_routers_raw db) \<noteq> [])"

definition Database_getRouterInfo_string ::
  "(bytes \<Rightarrow> bytes) \<Rightarrow> (bytes \<Rightarrow> bytes \<Rightarrow> bytes \<Rightarrow> bool) \<Rightarrow> bytes \<Rightarrow> Database \<Rightarrow> RouterInfo result" where
  "Database_getRouterInfo_string sha1 dsa_verify routerHash db =
     (case map_of (db_routers_raw db) routerHash of
        None \<Rightarrow> Inl (Runtime_error ''router not found'')
      | Some info_str \<Rightarrow>
          (let info_raw = decode info_str in
           ebind (RouterInfo_parse (length info_raw) info_raw 0) (\<lambda>(ri, _).
           if RouterInfo_verifySignature sha1 dsa_verify ri then Inr ri
           else Inl (Runtime_error ''router info corrupt''))))"

definition Database_getRouterInfo ::
  "(bytes \<Rightarrow> bytes) \<Rightarrow> (bytes \<Rightarrow> bytes \<Rightarrow> bytes \<Rightarrow> bool) \<Rightarrow> bytes \<Rightarrow> Database \<Rightarrow> RouterInfo result" where
  "Database_getRouterInfo sha1 dsa_verify routerHash = Database_getRouterInfo_string sha1 dsa_verify (encode routerHash)"

definition Database_deleteRouter :: "bytes \<Rightarrow> Database \<Rightarrow> Database result" where
  "Database_deleteRouter rh =
     (let i = [Text (encode rh)]
      in exec_all [(''delete_profile'', i), (''delete_router_address_options'', i), (''delete_router_addresses'', i),
           (''delete_router_options'', i), (''delete_router'', i), (''detete_router_raw'', i)])"

definition Database_deleteAllRouters :: "Database \<Rightarrow> Database result" where
  "Database_deleteAllRouters =
     exec_all [(''truncate_profiles'', []), (''truncate_router_address_options'', []), (''truncate_router_addresses'', []),
       (''truncate_router_options'', []), (''truncate_router_options'', [])]"

definition address_commands :: "bytes \<Rightarrow> int \<times> RouterAddress \<Rightarrow> (string \<times> sql_value list) list" where
  "address_commands rh = (\<lambda>(i, a).
     (''insert_router_address'', [Text rh, Integer i, Integer (uint (ra_cost a)),
        Text (ByteArray_print (Date_serialize (ra_expiration a))), Text (ra_transport a)]) #
     map (\<lambda>(k, v). (''insert_router_address_option'', [Text rh, Integer i, Text k, Text v])) (ra_options a))"

definition Database_setRouterInfo :: "(bytes \<Rightarrow> bytes) \<Rightarrow> RouterInfo \<Rightarrow> Database \<Rightarrow> Database result" where
  "Database_setRouterInfo sha256 info =
     (let rh = encode (fst (RouterIdentity_getHash sha256 (ri_identity info)));
          ri = encode (RouterInfo_serialize info)
      in exec_all
           ([(''insert_router_raw'', [Text rh, Text ri]),
             (''insert_router'', [Text rh, Text (ByteArray_print (rid_encryptionKey (ri_identity info))),
                Text (ByteArray_print (rid_signingKey (ri_identity info))),
                Text (ByteArray_print (Certificate_serialize (rid_certificate (ri_identity info)))),
                Text (ByteArray_print (Date_serialize (ri_published info))), Text (ByteArray_print (ri_signature info))])] @
            concat (map (address_commands rh) (zip (map int [0..<length (ri_addresses info)]) (ri_addresses info))) @
            map (\<lambda>(k, v). (''insert_router_option'', [Text rh, Text k, Text v])) (ri_options info)))"

text \<open>All of them in one transaction: an exception rolls everything back.\<close>

fun Database_setRouterInfos :: "(bytes \<Rightarrow> bytes) \<Rightarrow> RouterInfo list \<Rightarrow> Database \<Rightarrow> Database result" where
  "Database_setRouterInfos sha256 [] db = Inr db"
| "Database_setRouterInfos sha256 (r # routers) db =
     ebind (Database_setRouterInfo sha256 r db) (Database_setRouterInfos sha256 routers)"

text \<open>\<open>push_front\<close> reverses the order of the rows.\<close>

definition Database_getAllHashes :: "bytes \<Rightarrow> Database \<Rightarrow> bytes list" where
  "Database_getAllHashes junk db = rev (map (\<lambda>r. toStaticByteArray 32 junk (decode (fst r))) (db_routers_raw db))"

subsection \<open>What the schema guarantees\<close>

definition raw_ids :: "Database \<Rightarrow> bytes set" where
  "raw_ids db = fst ` set (db_routers_raw db)"

definition db_wf :: "Database \<Rightarrow> bool" where
  "db_wf db \<longleftrightarrow> distinct (map fst (db_config db)) \<and> distinct (map fst (db_routers_raw db)) \<and>
     rr_id ` set (db_routers db) \<subseteq> raw_ids db \<and> ar_router_id ` set (db_router_addresses db) \<subseteq> raw_ids db \<and>
     op_router_id ` set (db_router_options db) \<subseteq> raw_ids db \<and> pr_router_id ` set (db_profiles db) \<subseteq> raw_ids db \<and>
     distinct (map (\<lambda>a. (ar_router_id a, ar_index a)) (db_router_addresses db)) \<and>
     distinct (map (\<lambda>r. (op_router_id r, op_name r)) (db_router_options db)) \<and>
     distinct (map (\<lambda>r. (ao_router_id r, ao_index r, ao_name r)) (db_router_address_options db)) \<and>
     (\<forall>r \<in> set (db_router_address_options db). \<exists>a \<in> set (db_router_addresses db).
        ar_router_id a = ao_router_id r \<and> ar_index a = ao_index r)"

lemma command_simps [simp]:
  "command ''set_config'' = Some Set_config"
  "command ''delete_profile'' = Some Delete_profile"
  "command ''delete_router_address_options'' = Some Delete_router_address_options"
  "command ''delete_router_addresses'' = Some Delete_router_addresses"
  "command ''delete_router_options'' = Some Delete_router_options"
  "command ''delete_router'' = Some Delete_router"
  "command ''detete_router_raw'' = None"
  "command ''truncate_profiles'' = Some Truncate_profiles"
  "command ''truncate_router_address_options'' = Some Truncate_router_address_options"
  "command ''truncate_router_addresses'' = Some Truncate_router_addresses"
  "command ''truncate_router_options'' = Some Truncate_routers"
  "command ''insert_router_raw'' = Some Insert_router_raw"
  "command ''insert_router'' = Some Insert_router"
  "command ''insert_router_address'' = Some Insert_router_address"
  "command ''insert_router_address_option'' = Some Insert_router_address_option"
  "command ''insert_router_option'' = Some Insert_router_option"
  by (simp_all add: command_def Database_commands_def)

lemma exec_all_append: "exec_all (xs @ ys) db = ebind (exec_all xs db) (exec_all ys)"
proof (induction xs arbitrary: db)
  case (Cons c xs)
  then show ?case by (cases c; cases "exec (fst c) (snd c) db") auto
qed simp

lemma delete_addresses_raw [simp]:
  "db_routers_raw (delete_addresses P db) = db_routers_raw db" "raw_ids (delete_addresses P db) = raw_ids db"
  "db_config (delete_addresses P db) = db_config db"
  by (simp_all add: delete_addresses_def raw_ids_def)

lemma distinct_filter_map: "distinct (map f xs) \<Longrightarrow> distinct (map f (filter P xs))"
  by (induction xs) auto

lemma delete_addresses_wf: "db_wf db \<Longrightarrow> db_wf (delete_addresses P db)"
  by (auto simp: db_wf_def delete_addresses_def raw_ids_def distinct_filter_map) metis

lemma delete_raw_ids: "raw_ids (delete_raw i db) = raw_ids db - {i}"
  by (auto simp: raw_ids_def delete_raw_def Let_def)

lemma fst_filter_other: "fst ` {r \<in> S. fst r \<noteq> i} = fst ` S - {i}"
  by auto

lemma drop_raw_wf:
  assumes "db_wf db" and "\<forall>a \<in> set (db_router_addresses db). ar_router_id a \<noteq> i"
  shows "db_wf (db\<lparr>db_routers_raw := filter (\<lambda>r. fst r \<noteq> i) (db_routers_raw db),
     db_routers := filter (\<lambda>r. rr_id r \<noteq> i) (db_routers db),
     db_router_options := filter (\<lambda>r. op_router_id r \<noteq> i) (db_router_options db),
     db_profiles := filter (\<lambda>r. pr_router_id r \<noteq> i) (db_profiles db)\<rparr>)"
  using assms unfolding db_wf_def raw_ids_def by (simp add: fst_filter_other distinct_filter_map image_subset_iff)

lemma delete_raw_wf:
  assumes "db_wf db"
  shows "db_wf (delete_raw i db)"
proof -
  have "db_wf (delete_addresses (\<lambda>a. ar_router_id a = i) db)" by (rule delete_addresses_wf [OF assms])
  from drop_raw_wf [OF this, of i] assms show ?thesis by (simp add: delete_raw_def delete_addresses_def)
qed

lemma with_parent_Inr [inr_iff]: "with_parent b db = Inr db' \<longleftrightarrow> b \<and> db' = db"
  by (auto simp: with_parent_def)

lemma insert_router_raw_wf: "db_wf db \<Longrightarrow> db_wf (insert_router_raw i raw db)"
  using delete_raw_wf [of db i] delete_raw_ids [of i db]
  unfolding insert_router_raw_def db_wf_def raw_ids_def Let_def by (simp add: image_subset_iff)

lemma insert_rows_wf:
  assumes "db_wf db"
  shows "insert_router r db = Inr db' \<Longrightarrow> db_wf db'" "insert_router_address a db = Inr db' \<Longrightarrow> db_wf db'"
    "insert_router_option q db = Inr db' \<Longrightarrow> db_wf db'" "insert_router_address_option p db = Inr db' \<Longrightarrow> db_wf db'"
proof -
  show "db_wf db'" if "insert_router r db = Inr db'"
    using that assms by (simp add: insert_router_def inr_iff db_wf_def raw_ids_def)
  show "db_wf db'" if "insert_router_option q db = Inr db'"
    using that assms by (auto simp: insert_router_option_def inr_iff db_wf_def raw_ids_def distinct_filter_map)
  show "db_wf db'" if "insert_router_address_option p db = Inr db'"
    using that assms by (auto simp: insert_router_address_option_def inr_iff db_wf_def raw_ids_def distinct_filter_map)
  show "db_wf db'" if "insert_router_address a db = Inr db'"
    using that delete_addresses_wf [OF assms, of "\<lambda>b. ar_router_id b = ar_router_id a \<and> ar_index b = ar_index a"]
    by (auto simp: insert_router_address_def inr_iff db_wf_def raw_ids_def Let_def) (auto simp: delete_addresses_def)
qed

lemma delete_for_wf: "db_wf db \<Longrightarrow> db_wf (delete_for s i db)"
  by (cases "(s, i, db)" rule: delete_for.cases)
    (simp_all add: delete_addresses_wf, auto simp: db_wf_def raw_ids_def distinct_filter_map)

lemma truncate_wf: "db_wf db \<Longrightarrow> db_wf (truncate s db)"
  by (cases "(s, db)" rule: truncate.cases) (simp_all add: delete_addresses_wf, auto simp: db_wf_def raw_ids_def)

lemma set_config_wf: "db_wf db \<Longrightarrow> db_wf (set_config name val db)"
  by (auto simp: set_config_def db_wf_def raw_ids_def distinct_filter_map)

lemma run_wf:
  assumes "run s args db = Inr db'" and "db_wf db"
  shows "db_wf db'"
  using assms
  by (auto simp: run_def Let_def truncate_wf delete_for_wf set_config_wf insert_router_raw_wf
      split: if_splits list.splits sql_value.splits dest: insert_rows_wf simp del: truncate.simps delete_for.simps)

lemma exec_wf: "exec name args db = Inr db' \<Longrightarrow> db_wf db \<Longrightarrow> db_wf db'"
  by (auto simp: exec_def split: option.splits intro: run_wf)

lemma exec_all_wf: "exec_all cs db = Inr db' \<Longrightarrow> db_wf db \<Longrightarrow> db_wf db'"
proof (induction cs arbitrary: db)
  case (Cons c cs)
  then show ?case by (cases c) (auto simp: inr_iff dest: exec_wf)
qed simp

subsection \<open>Storing a router info\<close>

text \<open>The insertions behind the raw row succeed and leave the raw rows and the configuration alone.\<close>

definition same_raw :: "Database \<Rightarrow> Database \<Rightarrow> bool" where
  "same_raw db db' \<longleftrightarrow> db_routers_raw db' = db_routers_raw db \<and> db_config db' = db_config db"

lemma same_raw_refl [simp]: "same_raw db db"
  by (simp add: same_raw_def)

lemma same_raw_trans [trans]: "same_raw a b \<Longrightarrow> same_raw b c \<Longrightarrow> same_raw a c"
  by (simp add: same_raw_def)

lemma same_raw_ids: "same_raw db db' \<Longrightarrow> raw_ids db' = raw_ids db"
  by (simp add: same_raw_def raw_ids_def)

lemma options_inserted:
  assumes "rh \<in> raw_ids db"
  shows "\<exists>db'. exec_all (map (\<lambda>(k, v). (''insert_router_option'', [Text rh, Text k, Text v])) kvs) db = Inr db' \<and>
    same_raw db db' \<and> db_routers db' = db_routers db"
  using assms
proof (induction kvs arbitrary: db)
  case (Cons kv kvs)
  obtain k v where kv: "kv = (k, v)" by (cases kv)
  obtain db1 where 1: "exec ''insert_router_option'' [Text rh, Text k, Text v] db = Inr db1" "same_raw db db1" "db_routers db1 = db_routers db"
    using Cons.prems by (auto simp: exec_def run_def insert_router_option_def with_parent_def raw_ids_def same_raw_def)
  then show ?case
    using Cons.IH [of db1] Cons.prems same_raw_ids [OF 1(2)] by (auto simp: kv intro: same_raw_trans)
qed simp

lemma address_options_inserted:
  assumes "\<exists>a \<in> set (db_router_addresses db). ar_router_id a = rh \<and> ar_index a = n"
  shows "\<exists>db'. exec_all (map (\<lambda>(k, v). (''insert_router_address_option'', [Text rh, Integer n, Text k, Text v])) kvs) db = Inr db' \<and>
    same_raw db db' \<and> db_routers db' = db_routers db"
  using assms
proof (induction kvs arbitrary: db)
  case (Cons kv kvs)
  obtain k v where kv: "kv = (k, v)" by (cases kv)
  obtain db1 where 1: "exec ''insert_router_address_option'' [Text rh, Integer n, Text k, Text v] db = Inr db1" "same_raw db db1"
    "db_routers db1 = db_routers db" "db_router_addresses db1 = db_router_addresses db"
    using Cons.prems by (auto simp: exec_def run_def insert_router_address_option_def with_parent_def same_raw_def)
  then show ?case
    using Cons.IH [of db1] Cons.prems by (auto simp: kv intro: same_raw_trans)
qed simp

lemma address_inserted:
  assumes "rh \<in> raw_ids db"
  shows "\<exists>db'. exec_all (address_commands rh ia) db = Inr db' \<and> same_raw db db' \<and> db_routers db' = db_routers db"
proof -
  obtain i a where ia: "ia = (i, a)" by (cases ia)
  let ?args = "[Text rh, Integer i, Integer (uint (ra_cost a)), Text (ByteArray_print (Date_serialize (ra_expiration a))), Text (ra_transport a)]"
  obtain db1 where 1: "exec ''insert_router_address'' ?args db = Inr db1" "same_raw db db1" "db_routers db1 = db_routers db"
    "\<exists>a \<in> set (db_router_addresses db1). ar_router_id a = rh \<and> ar_index a = i"
    using assms by (auto simp: exec_def run_def insert_router_address_def with_parent_def raw_ids_def same_raw_def Let_def
        delete_addresses_def)
  with address_options_inserted [OF 1(4), of "ra_options a"] show ?thesis
    by (auto simp: ia address_commands_def intro: same_raw_trans)
qed

lemma addresses_inserted:
  "rh \<in> raw_ids db \<Longrightarrow> \<exists>db'. exec_all (concat (map (address_commands rh) ias)) db = Inr db' \<and> same_raw db db' \<and> db_routers db' = db_routers db"
proof (induction ias arbitrary: db)
  case (Cons ia ias)
  obtain db1 where 1: "exec_all (address_commands rh ia) db = Inr db1" "same_raw db db1" "db_routers db1 = db_routers db"
    using address_inserted [OF Cons.prems] by blast
  with Cons.IH [of db1] Cons.prems same_raw_ids [OF 1(2)] show ?case
    by (auto simp: exec_all_append intro: same_raw_trans)
qed simp

lemma setRouterInfo_stored:
  assumes "rh = fst (RouterIdentity_getHash sha256 (ri_identity info))"
  shows "\<exists>db'. Database_setRouterInfo sha256 info db = Inr db' \<and> db_config db' = db_config db \<and>
    db_routers_raw db' = filter (\<lambda>r. fst r \<noteq> encode rh) (db_routers_raw db) @ [(encode rh, encode (RouterInfo_serialize info))] \<and>
    rr_id ` set (db_routers db') = insert (encode rh) (rr_id ` {r \<in> set (db_routers db). rr_id r \<noteq> encode rh \<or> encode rh \<notin> raw_ids db})"
proof -
  let ?h = "encode rh" and ?db1 = "insert_router_raw (encode rh) (encode (RouterInfo_serialize info)) db"
  have same: "filter (\<lambda>r. fst r \<noteq> ?h) (db_routers_raw db) = db_routers_raw db" if "?h \<notin> raw_ids db"
    using that by (auto simp: raw_ids_def filter_id_conv image_iff)
  have raw: "db_routers_raw ?db1 = filter (\<lambda>r. fst r \<noteq> ?h) (db_routers_raw db) @ [(?h, encode (RouterInfo_serialize info))]"
    "db_config ?db1 = db_config db"
    "rr_id ` set (db_routers ?db1) = rr_id ` {r \<in> set (db_routers db). rr_id r \<noteq> encode rh \<or> encode rh \<notin> raw_ids db}"
    using same by (auto simp: insert_router_raw_def delete_raw_def Let_def raw_ids_def delete_addresses_def)
  define args where "args = [Text ?h, Text (ByteArray_print (rid_encryptionKey (ri_identity info))),
    Text (ByteArray_print (rid_signingKey (ri_identity info))),
    Text (ByteArray_print (Certificate_serialize (rid_certificate (ri_identity info)))),
    Text (ByteArray_print (Date_serialize (ri_published info))), Text (ByteArray_print (ri_signature info))]"
  have 1: "exec ''insert_router_raw'' [Text ?h, Text (encode (RouterInfo_serialize info))] db = Inr ?db1"
    by (simp add: exec_def run_def)
  have h1: "?h \<in> raw_ids ?db1" by (simp add: raw_ids_def raw(1))
  obtain db2 where 2: "exec ''insert_router'' args ?db1 = Inr db2" "same_raw ?db1 db2"
    "rr_id ` set (db_routers db2) = insert ?h (rr_id ` set (db_routers ?db1))"
    using h1 by (auto simp: args_def exec_def run_def insert_router_def with_parent_def raw_ids_def same_raw_def)
  have h2: "?h \<in> raw_ids db2" using h1 same_raw_ids [OF 2(2)] by simp
  obtain db3 where 3: "exec_all (concat (map (address_commands ?h) (zip (map int [0..<length (ri_addresses info)]) (ri_addresses info)))) db2 = Inr db3"
    "same_raw db2 db3" "db_routers db3 = db_routers db2"
    using addresses_inserted [OF h2] by blast
  have h3: "?h \<in> raw_ids db3" using h2 same_raw_ids [OF 3(2)] by simp
  obtain db4 where 4: "exec_all (map (\<lambda>(k, v). (''insert_router_option'', [Text ?h, Text k, Text v])) (ri_options info)) db3 = Inr db4"
    "same_raw db3 db4" "db_routers db4 = db_routers db3"
    using options_inserted [OF h3] by blast
  have "Database_setRouterInfo sha256 info db = Inr db4"
    by (simp add: Database_setRouterInfo_def Let_def assms [symmetric] 1 2(1) [unfolded args_def] exec_all_append 3(1) 4(1))
  moreover have "same_raw ?db1 db4" using 2(2) 3(2) 4(2) by (blast intro: same_raw_trans)
  ultimately show ?thesis using raw 2(3) 3(3) 4(3) by (simp add: same_raw_def)
qed

lemma setRouterInfos_stores: "\<exists>db'. Database_setRouterInfos sha256 infos db = Inr db'"
proof (induction infos arbitrary: db)
  case (Cons info infos)
  obtain db1 where "Database_setRouterInfo sha256 info db = Inr db1" using setRouterInfo_stored [OF refl, of sha256 info db] by blast
  with Cons [of db1] show ?case by simp
qed simp

subsection \<open>The life of a database\<close>

text \<open>What the rest of the router does to it: an operation that fails is rolled back.\<close>

datatype db_event =
    Db_create bytes bytes
  | Db_config bytes bytes
  | Db_store RouterInfo
  | Db_store_all "RouterInfo list"
  | Db_delete bytes
  | Db_delete_all

fun db_run :: "(bytes \<Rightarrow> bytes) \<Rightarrow> db_event \<Rightarrow> Database \<Rightarrow> Database result" where
  "db_run sha256 (Db_create elg dsa) db = Database_createDb elg dsa db"
| "db_run sha256 (Db_config name val) db = Database_setConfigValue name val db"
| "db_run sha256 (Db_store ri) db = Database_setRouterInfo sha256 ri db"
| "db_run sha256 (Db_store_all ris) db = Database_setRouterInfos sha256 ris db"
| "db_run sha256 (Db_delete rh) db = Database_deleteRouter rh db"
| "db_run sha256 Db_delete_all db = Database_deleteAllRouters db"

definition signed_info :: "(bytes \<Rightarrow> bytes) \<Rightarrow> (bytes \<Rightarrow> bytes \<Rightarrow> bytes \<Rightarrow> bool) \<Rightarrow> RouterInfo \<Rightarrow> bool" where
  "signed_info sha1 dsa_verify ri \<longleftrightarrow> RouterInfo_wf ri \<and> RouterInfo_verifySignature sha1 dsa_verify ri"

text \<open>The condition on what is stored. \<open>handle_DatabaseStore\<close> and the import of a directory check it before they
  store; the import of a single file on the command line does not.\<close>

fun event_signed :: "(bytes \<Rightarrow> bytes) \<Rightarrow> (bytes \<Rightarrow> bytes \<Rightarrow> bytes \<Rightarrow> bool) \<Rightarrow> db_event \<Rightarrow> bool" where
  "event_signed sha1 dsa_verify (Db_store ri) = signed_info sha1 dsa_verify ri"
| "event_signed sha1 dsa_verify (Db_store_all ris) = list_all (signed_info sha1 dsa_verify) ris"
| "event_signed sha1 dsa_verify _ = True"

inductive db_reachable :: "(bytes \<Rightarrow> bytes) \<Rightarrow> (bytes \<Rightarrow> bytes) \<Rightarrow> (bytes \<Rightarrow> bytes \<Rightarrow> bytes \<Rightarrow> bool) \<Rightarrow> Database \<Rightarrow> bool"
  for sha1 sha256 dsa_verify where
  start: "db_reachable sha1 sha256 dsa_verify empty_db"
| step: "db_reachable sha1 sha256 dsa_verify db \<Longrightarrow> event_signed sha1 dsa_verify ev \<Longrightarrow> db_run sha256 ev db = Inr db' \<Longrightarrow>
    db_reachable sha1 sha256 dsa_verify db'"

definition info_hash :: "(bytes \<Rightarrow> bytes) \<Rightarrow> RouterInfo \<Rightarrow> bytes" where
  "info_hash sha256 ri = fst (RouterIdentity_getHash sha256 (ri_identity ri))"

definition stored_ok :: "(bytes \<Rightarrow> bytes) \<Rightarrow> (bytes \<Rightarrow> bytes) \<Rightarrow> (bytes \<Rightarrow> bytes \<Rightarrow> bytes \<Rightarrow> bool) \<Rightarrow> Database \<Rightarrow> bool" where
  "stored_ok sha1 sha256 dsa_verify db \<longleftrightarrow> (\<forall>(i, raw) \<in> set (db_routers_raw db). \<exists>ri. signed_info sha1 dsa_verify ri \<and>
     i = encode (info_hash sha256 ri) \<and> raw = encode (RouterInfo_serialize ri))"

lemma deleteRouter_crashes: "Database_deleteRouter rh db = Inl Null_dereference"
  by (simp add: Database_deleteRouter_def Let_def exec_def run_def)

lemma deleteAllRouters_leaves:
  "\<exists>db'. Database_deleteAllRouters db = Inr db' \<and> same_raw db db' \<and> db_routers db' = [] \<and> db_router_options db' = db_router_options db \<and>
     db_router_addresses db' = [] \<and> db_router_address_options db' = [] \<and> db_profiles db' = []"
  by (simp add: Database_deleteAllRouters_def exec_def run_def same_raw_def delete_addresses_def)

lemma getRouterInfo_stored:
  assumes "signed_info sha1 dsa_verify ri" and "map_of (db_routers_raw db) (encode h) = Some (encode (RouterInfo_serialize ri))"
  shows "Database_getRouterInfo sha1 dsa_verify h db = Inr ri"
  using assms RouterInfo_par_ser [of ri "RouterInfo_serialize ri" 0]
  by (simp add: Database_getRouterInfo_def Database_getRouterInfo_string_def signed_info_def)

lemma set_info_ok:
  assumes "stored_ok sha1 sha256 dsa_verify db" "signed_info sha1 dsa_verify ri" "Database_setRouterInfo sha256 ri db = Inr db'"
  shows "stored_ok sha1 sha256 dsa_verify db'"
  using setRouterInfo_stored [OF refl, of sha256 ri db] assms by (auto simp: stored_ok_def info_hash_def)

lemma set_infos_ok:
  "Database_setRouterInfos sha256 ris db = Inr db' \<Longrightarrow> stored_ok sha1 sha256 dsa_verify db \<Longrightarrow> list_all (signed_info sha1 dsa_verify) ris \<Longrightarrow>
   stored_ok sha1 sha256 dsa_verify db'"
  by (induction sha256 ris db rule: Database_setRouterInfos.induct) (auto simp: inr_iff intro: set_info_ok)

lemma set_info_wf: "Database_setRouterInfo sha256 ri db = Inr db' \<Longrightarrow> db_wf db \<Longrightarrow> db_wf db'"
  unfolding Database_setRouterInfo_def Let_def by (rule exec_all_wf)

lemma set_infos_wf: "Database_setRouterInfos sha256 ris db = Inr db' \<Longrightarrow> db_wf db \<Longrightarrow> db_wf db'"
  by (induction sha256 ris db rule: Database_setRouterInfos.induct) (auto simp: inr_iff dest: set_info_wf)

lemma db_run_wf: "db_run sha256 ev db = Inr db' \<Longrightarrow> db_wf db \<Longrightarrow> db_wf db'"
  by (cases ev) (auto simp: Database_createDb_def Database_setConfigValue_def deleteRouter_crashes
      Database_deleteAllRouters_def inr_iff dest: set_info_wf set_infos_wf exec_all_wf exec_wf run_wf simp del: exec_all.simps)

lemma stored_ok_cong: "db_routers_raw db' = db_routers_raw db \<Longrightarrow> stored_ok sha1 sha256 dsa_verify db' = stored_ok sha1 sha256 dsa_verify db"
  by (simp add: stored_ok_def)

lemma set_config_raw: "run Set_config [Text n, Text v] db = Inr db' \<Longrightarrow> db_routers_raw db' = db_routers_raw db"
  by (auto simp: run_def set_config_def)

lemma db_run_ok:
  assumes "db_run sha256 ev db = Inr db'" "stored_ok sha1 sha256 dsa_verify db" "event_signed sha1 dsa_verify ev"
  shows "stored_ok sha1 sha256 dsa_verify db'"
proof (cases ev)
  case (Db_store ri)
  then show ?thesis using assms by (auto intro: set_info_ok)
next
  case (Db_store_all ris)
  then show ?thesis using assms by (auto intro: set_infos_ok)
next
  case (Db_delete rh)
  then show ?thesis using assms by (simp add: deleteRouter_crashes)
next
  case (Db_create elg dsa)
  then have "db_routers_raw db' = db_routers_raw db"
    using assms(1) by (auto simp: Database_createDb_def inr_iff dest!: set_config_raw)
  then show ?thesis using assms(2) stored_ok_cong by blast
next
  case (Db_config name val)
  then have "db_routers_raw db' = db_routers_raw db"
    using assms(1) by (auto simp: Database_setConfigValue_def exec_def dest!: set_config_raw)
  then show ?thesis using assms(2) stored_ok_cong by blast
next
  case Db_delete_all
  then have "db_routers_raw db' = db_routers_raw db"
    using assms(1) deleteAllRouters_leaves [of db] by (auto simp: same_raw_def)
  then show ?thesis using assms(2) stored_ok_cong by blast
qed

lemma reachable_ok: "db_reachable sha1 sha256 dsa_verify db \<Longrightarrow> db_wf db \<and> stored_ok sha1 sha256 dsa_verify db"
proof (induction rule: db_reachable.induct)
  case start
  show ?case by (simp add: empty_db_def db_wf_def stored_ok_def)
next
  case (step db ev db')
  then show ?case by (blast intro: db_run_wf db_run_ok)
qed

lemma map_of_replaced: "map_of (filter (\<lambda>r. fst r \<noteq> i) l @ [(i, x)]) k = (if k = i then Some x else map_of l k)"
  by (induction l) auto

lemma routerExists_iff: "Database_routerExists h db \<longleftrightarrow> map_of (db_routers_raw db) (encode h) \<noteq> None"
  by (force simp: Database_routerExists_def filter_empty_conv map_of_eq_None_iff)

lemma getRouterInfo_cong:
  "map_of (db_routers_raw db') (encode h) = map_of (db_routers_raw db) (encode h) \<Longrightarrow>
   Database_getRouterInfo sha1 dsa_verify h db' = Database_getRouterInfo sha1 dsa_verify h db"
  by (simp add: Database_getRouterInfo_def Database_getRouterInfo_string_def)

lemma config_roundtrip:
  "\<exists>db'. Database_setConfigValue name val db = Inr db' \<and> Database_getConfigValue name db' = Inr val \<and>
     (\<forall>k. k \<noteq> name \<longrightarrow> Database_getConfigValue k db' = Database_getConfigValue k db)"
  by (auto simp: Database_setConfigValue_def exec_def run_def set_config_def Database_getConfigValue_def map_of_replaced
      simp del: map_of_append)

lemma setRouterInfo_readable:
  assumes "signed_info sha1 dsa_verify ri" and "h = info_hash sha256 ri" and "length h = 32"
  shows "\<exists>db'. Database_setRouterInfo sha256 ri db = Inr db' \<and> Database_routerExists h db' \<and>
    Database_getRouterInfo sha1 dsa_verify h db' = Inr ri \<and> h \<in> set (Database_getAllHashes junk db') \<and>
    (\<forall>k. k \<noteq> h \<longrightarrow> Database_routerExists k db' = Database_routerExists k db \<and>
       Database_getRouterInfo sha1 dsa_verify k db' = Database_getRouterInfo sha1 dsa_verify k db)"
proof -
  obtain db' where db': "Database_setRouterInfo sha256 ri db = Inr db'"
    "db_routers_raw db' = filter (\<lambda>r. fst r \<noteq> encode h) (db_routers_raw db) @ [(encode h, encode (RouterInfo_serialize ri))]"
    using setRouterInfo_stored [of h sha256 ri db] assms(2) by (auto simp: info_hash_def)
  have m: "map_of (db_routers_raw db') (encode k) =
      (if k = h then Some (encode (RouterInfo_serialize ri)) else map_of (db_routers_raw db) (encode k))" for k
    unfolding db'(2) map_of_replaced by simp
  have "h \<in> set (Database_getAllHashes junk db')"
    using assms(3) by (simp add: Database_getAllHashes_def db'(2) toStaticByteArray_def)
  then show ?thesis
    using db'(1) getRouterInfo_stored [OF assms(1), of db' h] getRouterInfo_cong [of db' _ db] by (auto simp: routerExists_iff m)
qed

lemma known_router:
  assumes "db_wf db" and "stored_ok sha1 sha256 dsa_verify db" and "Database_routerExists h db"
  shows "\<exists>ri. Database_getRouterInfo sha1 dsa_verify h db = Inr ri \<and> signed_info sha1 dsa_verify ri \<and> info_hash sha256 ri = h"
proof -
  obtain raw where raw: "map_of (db_routers_raw db) (encode h) = Some raw" using assms(3) by (auto simp: routerExists_iff)
  then have "(encode h, raw) \<in> set (db_routers_raw db)" by (rule map_of_SomeD)
  then obtain ri where ri: "signed_info sha1 dsa_verify ri" "encode h = encode (info_hash sha256 ri)" "raw = encode (RouterInfo_serialize ri)"
    using assms(2) by (auto simp: stored_ok_def)
  with getRouterInfo_stored [OF ri(1), of db h] raw show ?thesis by auto
qed

lemma info_hash_length: "signed_info sha1 dsa_verify ri \<Longrightarrow> \<forall>x. length (sha256 x) = 32 \<Longrightarrow> length (info_hash sha256 ri) = 32"
  by (simp add: signed_info_def RouterInfo_wf_def RouterIdentity_wf_def info_hash_def RouterIdentity_getHash_def Let_def)

lemma random_router:
  assumes "db_wf db" and "stored_ok sha1 sha256 dsa_verify db" and "\<forall>x. length (sha256 x) = 32" and "db_routers db \<noteq> []"
  shows "\<exists>h. Database_getRandomRouter pick junk db = Inr h \<and> Database_routerExists h db"
proof -
  let ?r = "db_routers db ! (pick mod length (db_routers db))"
  have "?r \<in> set (db_routers db)" using assms(4) by simp
  then have "rr_id ?r \<in> raw_ids db" using assms(1) by (auto simp: db_wf_def)
  then obtain ri raw where ri: "signed_info sha1 dsa_verify ri" "rr_id ?r = encode (info_hash sha256 ri)" "(rr_id ?r, raw) \<in> set (db_routers_raw db)"
    using assms(2) by (fastforce simp: stored_ok_def raw_ids_def)
  have len: "length (info_hash sha256 ri) = 32" by (rule info_hash_length [OF ri(1) assms(3)])
  have "Database_getRandomRouter pick junk db = Inr (info_hash sha256 ri)"
    using assms(4) len by (simp add: Database_getRandomRouter_def ri(2) toStaticByteArray_def)
  moreover have "Database_routerExists (info_hash sha256 ri) db"
    using ri(2,3) by (force simp: Database_routerExists_def filter_empty_conv)
  ultimately show ?thesis by blast
qed

subsection \<open>Properties\<close>

text \<open>C14. \<open>setRouterInfo\<close> always succeeds, also when the router was known before; then the router
  exists, \<open>getRouterInfo\<close> parses the stored text back into exactly the info that was stored, its hash is
  among \<open>getAllHashes\<close>, and what is answered about any other router is unchanged.\<close>

theorem database_roundtrip:
  assumes "signed_info sha1 dsa_verify ri" and "h = info_hash sha256 ri" and "length h = 32"
  shows "\<exists>db'. Database_setRouterInfo sha256 ri db = Inr db' \<and> Database_routerExists h db' \<and>
    Database_getRouterInfo sha1 dsa_verify h db' = Inr ri \<and> h \<in> set (Database_getAllHashes junk db') \<and>
    (\<forall>k. k \<noteq> h \<longrightarrow> Database_routerExists k db' = Database_routerExists k db \<and>
       Database_getRouterInfo sha1 dsa_verify k db' = Database_getRouterInfo sha1 dsa_verify k db)"
  by (rule setRouterInfo_readable [OF assms])


text \<open>C38. What deleting does. \<open>deleteRouter\<close> looks up a statement under a misspelt name, gets a null pointer and
  dereferences it, for every router. \<open>deleteAllRouters\<close> empties \<open>routers\<close>, \<open>router_addresses\<close>, their
  options and \<open>profiles\<close>, but the statement that should empty \<open>router_options\<close> was replaced by another, and
  no statement empties \<open>routers_raw\<close>: every router still exists and its info is still answered, while a
  random router is no longer found.\<close>

theorem deletion_incomplete:
  "Database_deleteRouter rh db = Inl Null_dereference \<and>
   (\<exists>db'. Database_deleteAllRouters db = Inr db' \<and> db_routers db' = [] \<and> db_router_addresses db' = [] \<and>
      db_router_options db' = db_router_options db \<and> Database_getAllHashes junk db' = Database_getAllHashes junk db \<and>
      (\<forall>h. Database_routerExists h db' = Database_routerExists h db \<and>
         Database_getRouterInfo sha1 dsa_verify h db' = Database_getRouterInfo sha1 dsa_verify h db) \<and>
      Database_getRandomRouter pick junk db' = Inl (Runtime_error ''couldn't fetch random router''))"
proof -
  obtain db' where "Database_deleteAllRouters db = Inr db'" "db_routers_raw db' = db_routers_raw db" "db_routers db' = []"
    "db_router_options db' = db_router_options db" "db_router_addresses db' = []"
    using deleteAllRouters_leaves [of db] by (auto simp: same_raw_def)
  then show ?thesis
    using getRouterInfo_cong [of db' _ db sha1 dsa_verify]
    by (auto simp: deleteRouter_crashes Database_getAllHashes_def routerExists_iff Database_getRandomRouter_def)
qed

definition toy_verify :: "bytes \<Rightarrow> bytes \<Rightarrow> bytes \<Rightarrow> bool" where
  "toy_verify k h s = True"

lemma sample_signed: "signed_info (\<lambda>x. x) toy_verify sample_info"
  using sample_info_wf by (simp add: signed_info_def RouterInfo_verifySignature_def toy_verify_def)

theorem database_roundtrip_witness:
  "\<exists>db'. Database_setRouterInfo (\<lambda>x. replicate 32 4) sample_info empty_db = Inr db' \<and>
     Database_getRouterInfo (\<lambda>x. x) toy_verify (replicate 32 4) db' = Inr sample_info"
proof -
  have "replicate 32 4 = info_hash (\<lambda>x. replicate 32 4) sample_info"
    using sample_signed by (simp add: signed_info_def RouterInfo_wf_def RouterIdentity_wf_def info_hash_def RouterIdentity_getHash_def Let_def)
  from database_roundtrip [OF sample_signed this, of empty_db "[]"] show ?thesis by auto
qed


end
