(* ===== verification/Router.thy ===== *)
theory Router
  imports Search Dispatch Database
begin

text \<open>
  The router as a whole: \<open>lib/i2p/RouterContext.cpp\<close> builds the components on one database,
  \<open>Router.cpp\<close> connects the signals of \<open>Signals.cpp\<close>, of the transport and of the search manager with
  the members that handle them, and the service thread runs what is posted. A posted handler is a
  \<open>task\<close>; the queue of the service is a list. What the transport, the clock and the generators
  answer while a task runs is a \<open>world\<close>; the database and the search manager answer for themselves.
  The calls a component makes are carried out in their order when its own part of the handler has run.
\<close>

record world =
  w_env :: node_env
  w_tunnel :: "nat \<Rightarrow> tunnel_env"
  w_date :: bytes
  w_time :: int
  w_dangling :: "bytes \<Rightarrow> bytes"
  w_lookup :: bool
  w_pick :: nat
  w_junkHash :: bytes

datatype task =
    Task_message bytes u32 bytes
  | Task_handle bytes Message
  | Task_databaseStore bytes bytes bool
  | Task_tunnelRecords u32 "BuildRecord list"
  | Task_peerConnected bytes
  | Task_connectionFailure bytes
  | Task_searchReply bytes bytes "bytes list"
  | Task_tunnelGatewayData bytes u32 bytes
  | Task_tunnelData bytes u32 bytes
  | Task_dhtSuccess bytes bytes
  | Task_dhtFailure bytes

datatype rt_out = Out_node node_out | Out_tunnel mg_out

record Router =
  rt_db :: Database
  rt_dispatcher :: OutboundDispatcher
  rt_dht :: DHTFacade
  rt_tunnels :: Manager
  rt_peers :: PeerManager
  rt_queue :: "task list"
  rt_stopped :: bool
  rt_running :: bool

type_synonym rt_result = "Router \<times> rt_out list \<times> cpp_error option"

text \<open>An exception ends the handler.\<close>

definition andThen :: "rt_result \<Rightarrow> (Router \<Rightarrow> rt_result) \<Rightarrow> rt_result" where
  "andThen r f =
     (case r of (s, out, Some err) \<Rightarrow> (s, out, Some err) | (s, out, None) \<Rightarrow> (let (s, out', err) = f s in (s, out @ out', err)))"

fun each :: "('a \<Rightarrow> Router \<Rightarrow> rt_result) \<Rightarrow> 'a list \<Rightarrow> Router \<Rightarrow> rt_result" where
  "each f [] s = (s, [], None)"
| "each f (x # xs) s = andThen (f x s) (each f xs)"

definition post :: "task \<Rightarrow> Router \<Rightarrow> Router" where
  "post t s = s\<lparr>rt_queue := rt_queue s @ [t]\<rparr>"

subsection \<open>What the components see\<close>

definition sm_env_of :: "world \<Rightarrow> Router \<Rightarrow> sm_env" where
  "sm_env_of w s =
     \<lparr>env_exists = (\<lambda>h. Database_routerExists h (rt_db s)),
      env_info = (\<lambda>h. Database_getRouterInfo (ne_sha1 (w_env w)) (ne_dsa_verify (w_env w)) h (rt_db s)),
      env_self = my_hash (w_env w), env_now = w_time w, env_sha256 = ne_sha256 (w_env w), env_dangling = w_dangling w\<rparr>"

text \<open>A lookup that throws leaves the message queued, as one that answers true does.\<close>

definition env_of :: "world \<Rightarrow> Router \<Rightarrow> node_env" where
  "env_of w s = (w_env w)
     \<lparr>ne_config := (\<lambda>name. Database_getConfigValue name (rt_db s)),
      ne_routerExists := (\<lambda>h. Database_routerExists h (rt_db s)),
      ne_routerInfo := (\<lambda>h. Database_getRouterInfo (ne_sha1 (w_env w)) (ne_dsa_verify (w_env w)) h (rt_db s)),
      ne_randomRouter := Database_getRandomRouter (w_pick w) (w_junkHash w) (rt_db s),
      ne_lookup := (\<lambda>h. case DHTFacade_lookup (sm_env_of w s) (w_date w) (w_lookup w) h (rt_dht s) of
         (b, _, _, err) \<Rightarrow> b \<or> err \<noteq> None)\<rparr>"

subsection \<open>Calls between components\<close>

definition router_receive :: "world \<Rightarrow> bytes \<Rightarrow> u32 \<Rightarrow> bytes \<Rightarrow> Router \<Rightarrow> rt_result" where
  "router_receive w from msgId data s =
     (case messageReceived (env_of w s) from msgId data of
        Inl err \<Rightarrow> (s, [], Some err)
      | Inr outs \<Rightarrow> (fold (\<lambda>out s. case out of No_post from m \<Rightarrow> post (Task_handle from m) s | _ \<Rightarrow> s) outs s, [], None))"

definition transport_connect :: "world \<Rightarrow> RouterInfo \<Rightarrow> Router \<Rightarrow> rt_result" where
  "transport_connect w ri s = (s, [Out_node (Tr_connect ri)], ne_connect (w_env w) ri)"

text \<open>What \<open>createSearch\<close> does outside the search manager.\<close>

fun created_out :: "world \<Rightarrow> sm_out \<Rightarrow> Router \<Rightarrow> rt_result" where
  "created_out w (Post_failure k) s = (post (Task_dhtFailure k) s, [], None)"
| "created_out w (Post_success g h) s = (post (Task_dhtSuccess g h) s, [], None)"
| "created_out w (Connect ri) s = transport_connect w ri s"
| "created_out w (Send_lookup to dbl) s = (s, [], None)"

definition router_lookup :: "world \<Rightarrow> bytes \<Rightarrow> Router \<Rightarrow> rt_result" where
  "router_lookup w h s =
     (case DHTFacade_lookup (sm_env_of w s) (w_date w) (w_lookup w) h (rt_dht s) of
        (b, f, outs, err) \<Rightarrow> andThen (each (created_out w) outs (s\<lparr>rt_dht := f\<rparr>)) (\<lambda>s. (s, [], err)))"

text \<open>\<open>locked\<close> tells that the caller holds the mutex of the searches, which \<open>createSearch\<close> locks again
  unless the key is in the negative cache.\<close>

definition router_send :: "world \<Rightarrow> bool \<Rightarrow> bytes \<Rightarrow> Message \<Rightarrow> Router \<Rightarrow> rt_result" where
  "router_send w locked to msg s =
     (case sendMessage (env_of w s) to msg (rt_dispatcher s) of
        (d, outs, err) \<Rightarrow>
          let s = s\<lparr>rt_dispatcher := d\<rparr> in
          case outs of
            [Tr_receive from msgId data] \<Rightarrow> router_receive w from msgId data s
          | [Dht_lookup h] \<Rightarrow>
              if locked \<and> \<not> NegativeLookupCache_contains h (sm_nlc (df_searchManager (rt_dht s))) \<and>
                 Kademlia_find (Kademlia_makeKey (ne_sha256 (w_env w)) (w_date w) h) (df_dht (rt_dht s)) \<noteq> []
              then (s, [], Some Deadlock) else router_lookup w h s
          | _ \<Rightarrow> (s, map Out_node outs, err))"

fun search_out :: "world \<Rightarrow> sm_out \<Rightarrow> Router \<Rightarrow> rt_result" where
  "search_out w (Send_lookup to dbl) s = router_send w True to (ne_newMessage (w_env w) (DatabaseLookup_body dbl)) s"
| "search_out w out s = created_out w out s"

definition on_search :: "world \<Rightarrow> (sm_env \<Rightarrow> SearchManager \<Rightarrow> sm_result) \<Rightarrow> Router \<Rightarrow> rt_result" where
  "on_search w f s =
     (case f (sm_env_of w s) (df_searchManager (rt_dht s)) of
        (m, outs, err) \<Rightarrow>
          andThen (each (search_out w) outs (s\<lparr>rt_dht := (rt_dht s)\<lparr>df_searchManager := m\<rparr>\<rparr>)) (\<lambda>s. (s, [], err)))"

fun tunnel_out :: "world \<Rightarrow> mg_out \<Rightarrow> Router \<Rightarrow> rt_result" where
  "tunnel_out w (Mg_send to m) s = router_send w False to m s"
| "tunnel_out w (Mg_recirculate from data) s = (post (Task_message from 0 data) s, [], None)"
| "tunnel_out w out s = (s, [Out_tunnel out], None)"

definition on_tunnels :: "world \<Rightarrow> (Manager \<Rightarrow> mg_result) \<Rightarrow> Router \<Rightarrow> rt_result" where
  "on_tunnels w f s =
     (case f (rt_tunnels s) of
        (mg, outs, err) \<Rightarrow> andThen (each (tunnel_out w) outs (s\<lparr>rt_tunnels := mg\<rparr>)) (\<lambda>s. (s, [], err)))"

definition on_dispatcher :: "(OutboundDispatcher \<Rightarrow> od_result) \<Rightarrow> Router \<Rightarrow> rt_result" where
  "on_dispatcher f s = (case f (rt_dispatcher s) of (d, outs, err) \<Rightarrow> (s\<lparr>rt_dispatcher := d\<rparr>, map Out_node outs, err))"

text \<open>The members of \<open>Signals\<close> post the signal they are named after.\<close>

fun handler_out :: "world \<Rightarrow> node_out \<Rightarrow> Router \<Rightarrow> rt_result" where
  "handler_out w (No_sendMessage to m) s = router_send w False to m s"
| "handler_out w (No_setRouterInfo ri) s =
     (case Database_setRouterInfo (ne_sha256 (w_env w)) ri (rt_db s) of
        Inl err \<Rightarrow> (s, [], Some err) | Inr db \<Rightarrow> (s\<lparr>rt_db := db\<rparr>, [], None))"
| "handler_out w (Sig_databaseStore from k b) s = (post (Task_databaseStore from k b) s, [], None)"
| "handler_out w (Sig_searchReply from query hashes) s = (post (Task_searchReply from query hashes) s, [], None)"
| "handler_out w (Sig_tunnelRecords msgId rs) s = (post (Task_tunnelRecords msgId rs) s, [], None)"
| "handler_out w (Sig_tunnelGateway from tid data) s = (post (Task_tunnelGatewayData from tid data) s, [], None)"
| "handler_out w (Sig_tunnelData from tid data) s = (post (Task_tunnelData from tid data) s, [], None)"
| "handler_out w (Sig_peerConnected rh) s = (post (Task_peerConnected rh) s, [], None)"
| "handler_out w (Sig_connectionFailure rh) s = (post (Task_connectionFailure rh) s, [], None)"
| "handler_out w (Tr_connect ri) s = transport_connect w ri s"
| "handler_out w out s = (s, [Out_node out], None)"

subsection \<open>The service\<close>

text \<open>A signal calls its slots in the order \<open>Router::start\<close> registered them; \<open>PeerManager\<close>'s members do nothing.\<close>

fun run_task :: "world \<Rightarrow> task \<Rightarrow> Router \<Rightarrow> rt_result" where
  "run_task w (Task_message from msgId data) s = router_receive w from msgId data s"
| "run_task w (Task_handle from m) s =
     (case handleMessage (env_of w s) from m of Inl err \<Rightarrow> (s, [], Some err) | Inr outs \<Rightarrow> each (handler_out w) outs s)"
| "run_task w (Task_peerConnected rh) s =
     andThen (on_dispatcher (od_connected (env_of w s) rh) s) (on_search w (\<lambda>env. SearchManager_connected env rh))"
| "run_task w (Task_connectionFailure rh) s = on_search w (\<lambda>env. SearchManager_connectionFailure env rh) s"
| "run_task w (Task_searchReply from query hashes) s = on_search w (\<lambda>env. SearchManager_searchReply env from query hashes) s"
| "run_task w (Task_databaseStore from k isRouterInfo) s = on_search w (\<lambda>env. SearchManager_databaseStore env from k isRouterInfo) s"
| "run_task w (Task_tunnelRecords msgId rs) s = on_tunnels w (receiveRecords (w_tunnel w 0) msgId rs) s"
| "run_task w (Task_tunnelGatewayData from tid data) s = on_tunnels w (receiveGatewayData (w_tunnel w) from tid data) s"
| "run_task w (Task_tunnelData from tid data) s = on_tunnels w (tunnel_receiveData (w_tunnel w 0) tid data) s"
| "run_task w (Task_dhtSuccess k v) s = on_dispatcher (od_dhtSuccess (env_of w s) k v) s"
| "run_task w (Task_dhtFailure k) s = on_dispatcher (\<lambda>d. (od_dhtFailure k d, [], None)) s"

definition service_step :: "world \<Rightarrow> Router \<Rightarrow> rt_result" where
  "service_step w s = (case rt_queue s of [] \<Rightarrow> (s, [], None) | t # ts \<Rightarrow> run_task w t (s\<lparr>rt_queue := ts\<rparr>))"

text \<open>Posted handlers and timers run in the service thread, which catches \<open>std::exception\<close> and goes on until
  the service is stopped; undefined behaviour and a deadlock are not exceptions.\<close>

definition is_exception :: "cpp_error \<Rightarrow> bool" where
  "is_exception err \<longleftrightarrow> err \<noteq> Null_dereference \<and> err \<noteq> Out_of_bounds \<and> err \<noteq> Deadlock"

definition on_service :: "(Router \<Rightarrow> rt_result) \<Rightarrow> Router \<Rightarrow> rt_result" where
  "on_service f s =
     (if rt_stopped s then (s, [], None)
      else case f s of (s, out, err) \<Rightarrow>
        (s, out, case err of None \<Rightarrow> None | Some err \<Rightarrow> if is_exception err then None else Some err))"

subsection \<open>The transport's signals\<close>

definition transport_received :: "world \<Rightarrow> bytes \<Rightarrow> u32 \<Rightarrow> bytes \<Rightarrow> Router \<Rightarrow> rt_result" where
  "transport_received w from msgId data s = router_receive w from msgId data s"

definition transport_established :: "world \<Rightarrow> bytes \<Rightarrow> bool \<Rightarrow> Router \<Rightarrow> rt_result" where
  "transport_established w rh inbound s =
     (case connectionEstablished (env_of w s) rh inbound of
        (outs, err) \<Rightarrow> andThen (each (handler_out w) outs s) (\<lambda>s. (s, [], err)))"

definition transport_failure :: "world \<Rightarrow> bytes \<Rightarrow> Router \<Rightarrow> rt_result" where
  "transport_failure w rh s = each (handler_out w) (connectionFailure rh) s"

subsection \<open>The members of Router and RouterContext\<close>

text \<open>\<open>load_elg\<close> and \<open>load_dsa\<close> are the public values of the private keys in the two PEM texts, encoded
  without leading zeros; \<open>junkE\<close>, \<open>junkS\<close> and \<open>junkRunning\<close> the memory of the identity and of \<open>running\<close>.\<close>

definition RouterContext_make ::
  "world \<Rightarrow> (bytes \<Rightarrow> bytes result) \<Rightarrow> (bytes \<Rightarrow> bytes result) \<Rightarrow> bytes \<Rightarrow> bytes \<Rightarrow> bool \<Rightarrow> Database \<Rightarrow> (RouterIdentity \<times> Router) result" where
  "RouterContext_make w load_elg load_dsa junkE junkS junkRunning db =
     ebind (Database_getConfigValue (ascii ''private_encryption_key'') db) (\<lambda>encryptingKeyPEM.
     ebind (load_elg encryptingKeyPEM) (\<lambda>encryptionKeyBytes.
     ebind (Database_getConfigValue (ascii ''private_signing_key'') db) (\<lambda>signingKeyPEM.
     ebind (load_dsa signingKeyPEM) (\<lambda>signingKeyBytes.
     ebind (RouterIdentity_make junkE junkS encryptionKeyBytes signingKeyBytes Certificate_default) (\<lambda>identity.
     let (h, identity) = RouterIdentity_getHash (ne_sha256 (w_env w)) identity in
     Inr (identity,
       \<lparr>rt_db = db, rt_dispatcher = \<lparr>od_transport = False, od_pending = []\<rparr>,
        rt_dht = DHTFacade_make (ne_sha256 (w_env w)) (w_date w) h (Database_getAllHashes (w_junkHash w) db),
        rt_tunnels = Manager_make, rt_peers = PeerManager_make, rt_queue = [], rt_stopped = False, rt_running = junkRunning\<rparr>))))))"

definition Router_addTransport :: "Router \<Rightarrow> Router" where
  "Router_addTransport s = s\<lparr>rt_dispatcher := registerTransport (rt_dispatcher s)\<rparr>"

definition Router_start :: "Router \<Rightarrow> rt_result" where
  "Router_start s = (s\<lparr>rt_running := True\<rparr>, map Out_node PeerManager_begin @ [Out_tunnel Mg_arm_callback], None)"

definition Router_stop :: "Router \<Rightarrow> Router" where
  "Router_stop s = s\<lparr>rt_stopped := True, rt_running := False\<rparr>"

definition Router_isRunning :: "Router \<Rightarrow> bool" where
  "Router_isRunning s = rt_running s"

definition Router_isActive :: "Router \<Rightarrow> bool" where
  "Router_isActive s = (getParticipatingTunnelCount (rt_tunnels s) > 0)"

definition RouterContext_gracefulShutdown :: "Router \<Rightarrow> Router" where
  "RouterContext_gracefulShutdown s =
     s\<lparr>rt_tunnels := tunnel_gracefulShutdown (rt_tunnels s), rt_peers := PeerManager_gracefulShutdown (rt_peers s)\<rparr>"

text \<open>\<open>trans\<close> is never assigned.\<close>

definition Router_gracefulShutdown :: "Router \<Rightarrow> rt_result" where
  "Router_gracefulShutdown s = (RouterContext_gracefulShutdown s, [], Some Null_dereference)"

definition router_peers_timer :: "(nat \<Rightarrow> world) \<Rightarrow> Router \<Rightarrow> rt_result" where
  "router_peers_timer w s =
     (case PeerManager_callback (\<lambda>i. env_of (w i) s) (rt_dispatcher s) (rt_peers s) of
        (outs, err) \<Rightarrow> (s, map Out_node outs, err))"

definition router_tunnels_timer :: "Router \<Rightarrow> rt_result" where
  "router_tunnels_timer s = (s, map Out_tunnel (tunnel_callback (rt_tunnels s)), None)"

definition router_search_timer :: "world \<Rightarrow> bool \<Rightarrow> bytes \<Rightarrow> Router \<Rightarrow> rt_result" where
  "router_search_timer w e k s = on_search w (\<lambda>env. SearchManager_timeout env e k) s"

subsection \<open>Runs of the router\<close>

datatype rt_event =
    Rt_send bytes Message
  | Rt_received bytes u32 bytes
  | Rt_established bytes bool
  | Rt_failure bytes
  | Rt_service
  | Rt_search_timer bool bytes
  | Rt_peers_timer "nat \<Rightarrow> nat"
  | Rt_tunnels_timer
  | Rt_gracefulShutdown
  | Rt_stop

fun router_event :: "world \<Rightarrow> rt_event \<Rightarrow> Router \<Rightarrow> rt_result" where
  "router_event w (Rt_send to msg) s = router_send w False to msg s"
| "router_event w (Rt_received from msgId data) s = transport_received w from msgId data s"
| "router_event w (Rt_established rh inbound) s = transport_established w rh inbound s"
| "router_event w (Rt_failure rh) s = transport_failure w rh s"
| "router_event w Rt_service s = on_service (service_step w) s"
| "router_event w (Rt_search_timer e k) s = on_service (router_search_timer w e k) s"
| "router_event w (Rt_peers_timer picks) s = on_service (router_peers_timer (\<lambda>i. w\<lparr>w_pick := picks i\<rparr>)) s"
| "router_event w Rt_tunnels_timer s = on_service router_tunnels_timer s"
| "router_event w Rt_gracefulShutdown s = Router_gracefulShutdown s"
| "router_event w Rt_stop s = (Router_stop s, [], None)"

definition router_run :: "(world \<times> rt_event) list \<Rightarrow> Router \<Rightarrow> rt_result" where
  "router_run = each (\<lambda>(w, ev). router_event w ev)"

lemma router_run_simps [simp]:
  "router_run [] s = (s, [], None)"
  "router_run ((w, ev) # evs) s = andThen (router_event w ev s) (router_run evs)"
  by (simp_all add: router_run_def)

lemma andThen_simps [simp]:
  "andThen (s, out, None) f = (let (s, out', err) = f s in (s, out @ out', err))"
  "andThen (s, out, Some err) f = (s, out, Some err)"
  by (simp_all add: andThen_def)

lemma andThen_assoc: "andThen (andThen r f) g = andThen r (\<lambda>s. andThen (f s) g)"
  by (auto simp: andThen_def Let_def split: prod.splits option.splits)

lemma router_run_append: "router_run (evs @ evs') s = andThen (router_run evs s) (router_run evs')"
proof (induction evs arbitrary: s)
  case (Cons e evs)
  have "router_run (evs @ evs') = (\<lambda>s. andThen (router_run evs s) (router_run evs'))" using Cons.IH by blast
  then show ?case by (cases e) (simp add: andThen_assoc)
qed simp

lemma env_of_simps [simp]:
  "my_hash (env_of w s) = my_hash (w_env w)" "ne_isConnected (env_of w s) = ne_isConnected (w_env w)"
  "ne_connect (env_of w s) = ne_connect (w_env w)" "short_bytes (env_of w s) = short_bytes (w_env w)"
  "ne_routerExists (env_of w s) = (\<lambda>h. Database_routerExists h (rt_db s))"
  "ne_routerInfo (env_of w s) = (\<lambda>h. Database_getRouterInfo (ne_sha1 (w_env w)) (ne_dsa_verify (w_env w)) h (rt_db s))"
  "ne_sha1 (env_of w s) = ne_sha1 (w_env w)" "ne_sha256 (env_of w s) = ne_sha256 (w_env w)"
  "ne_dsa_verify (env_of w s) = ne_dsa_verify (w_env w)" "ne_gunzip (env_of w s) = ne_gunzip (w_env w)"
  "ne_junkMessage (env_of w s) = ne_junkMessage (w_env w)" "ne_now (env_of w s) = ne_now (w_env w)"
  by (simp_all add: env_of_def my_hash_def short_bytes_def fun_eq_iff)

lemma sm_env_of_simps [simp]:
  "env_sha256 (sm_env_of w s) = ne_sha256 (w_env w)" "env_self (sm_env_of w s) = my_hash (w_env w)"
  "env_info (sm_env_of w s) = (\<lambda>h. Database_getRouterInfo (ne_sha1 (w_env w)) (ne_dsa_verify (w_env w)) h (rt_db s))"
  by (simp_all add: sm_env_of_def)

subsection \<open>Invariants of the whole router\<close>

lemma connects_known: "sm_handle env ev m = (m', out, err) \<Longrightarrow> Connect ri \<in> set out \<Longrightarrow> \<exists>h. env_info env h = Inr ri"
  by (cases ev) (auto simp: SearchManager_createSearch_def SearchManager_timeout_def SearchManager_cancel_def SearchManager_connected_def
      SearchManager_connectionFailure_def SearchManager_searchReply_def SearchManager_databaseStore_def sm_connect_def Let_def
      split: if_splits option.splits list.splits sum.splits)

lemma send_outs:
  assumes "sendMessage env to msg d = (d', outs, err)"
  shows "(\<exists>ri. outs = [Tr_connect ri] \<and> ne_routerInfo env to = Inr ri) \<or> (\<forall>ri. Tr_connect ri \<notin> set outs)"
  using assms by (auto simp: sendMessage_def Let_def split: if_splits sum.splits)

lemma handler_stores:
  assumes "handleMessage env from m = Inr outs" and "No_setRouterInfo ri \<in> set outs"
  shows "signed_info (ne_sha1 env) (ne_dsa_verify env) ri"
  using assms by (auto simp: handleMessage_def handle_DeliveryStatus_def handle_DatabaseStore_def simple_handlers inr_iff signed_info_def
      split: msg_body.splits if_splits sum.splits cpp_error.splits dest: RouterInfo_parse_wf)

lemma handler_never_connects: "handleMessage env from m = Inr outs \<Longrightarrow> Tr_connect ri \<notin> set outs"
  by (auto simp: handleMessage_def handle_DeliveryStatus_def handle_DatabaseStore_def simple_handlers inr_iff
      split: msg_body.splits if_splits sum.splits cpp_error.splits)

lemma connect_peers_known: "Tr_connect ri \<in> set (connect_peers env i n) \<Longrightarrow> \<exists>h j. ne_routerInfo (env j) h = Inr ri"
proof (induction n arbitrary: i)
  case (Suc n)
  then show ?case
    by (cases "ne_randomRouter (env i)") (auto simp: ProfileManager_getPeer_def split: sum.splits if_splits, metis)
qed simp

lemma peers_callback_known:
  "PeerManager_callback env d pm = (outs, err) \<Longrightarrow> Tr_connect ri \<in> set outs \<Longrightarrow> \<exists>h j. ne_routerInfo (env j) h = Inr ri"
  by (auto simp: PeerManager_callback_def Let_def split: sum.splits if_splits dest: connect_peers_known)

text \<open>What has to be shown of an invariant and of the outputs it allows, per kind of change: then every event
  of the router keeps the one and makes only the others.\<close>

definition with_searches :: "SearchManager \<Rightarrow> Router \<Rightarrow> Router" where
  "with_searches m s = s\<lparr>rt_dht := (rt_dht s)\<lparr>df_searchManager := m\<rparr>\<rparr>"

locale router_invariant =
  fixes inv :: "Router \<Rightarrow> bool" and allowed :: "rt_out \<Rightarrow> bool" and fine :: "world \<Rightarrow> bool"
  assumes inv_queue: "inv s \<Longrightarrow> inv (s\<lparr>rt_queue := q\<rparr>)"
    and inv_dispatcher: "inv s \<Longrightarrow> inv (s\<lparr>rt_dispatcher := d\<rparr>)"
    and inv_tunnels: "inv s \<Longrightarrow> inv (s\<lparr>rt_tunnels := mg\<rparr>)"
    and inv_peers: "inv s \<Longrightarrow> inv (s\<lparr>rt_peers := pm\<rparr>)"
    and inv_stopped: "inv s \<Longrightarrow> inv (s\<lparr>rt_stopped := c, rt_running := b\<rparr>)"
    and inv_search: "fine w \<Longrightarrow> inv s \<Longrightarrow> sm_handle (sm_env_of w s) ev (df_searchManager (rt_dht s)) = (m, outs, err) \<Longrightarrow>
      inv (with_searches m s)"
    and inv_store: "fine w \<Longrightarrow> inv s \<Longrightarrow> signed_info (ne_sha1 (w_env w)) (ne_dsa_verify (w_env w)) ri \<Longrightarrow>
      Database_setRouterInfo (ne_sha256 (w_env w)) ri (rt_db s) = Inr db \<Longrightarrow> inv (s\<lparr>rt_db := db\<rparr>)"
    and connect_allowed: "fine w \<Longrightarrow> inv s \<Longrightarrow>
      Database_getRouterInfo (ne_sha1 (w_env w)) (ne_dsa_verify (w_env w)) h (rt_db s) = Inr ri \<Longrightarrow> allowed (Out_node (Tr_connect ri))"
    and other_allowed: "(\<forall>ri. out \<noteq> Out_node (Tr_connect ri)) \<Longrightarrow> allowed out"
begin

definition good :: "rt_result \<Rightarrow> bool" where
  "good r \<longleftrightarrow> (case r of (s, out, err) \<Rightarrow> inv s \<and> list_all allowed out)"

lemma good_simp [simp]: "good (s, out, err) \<longleftrightarrow> inv s \<and> list_all allowed out"
  by (simp add: good_def)

lemma good_andThen: "good r \<Longrightarrow> (\<And>s. inv s \<Longrightarrow> good (f s)) \<Longrightarrow> good (andThen r f)"
  by (auto simp: good_def andThen_def split: prod.splits option.splits) fastforce+

lemma good_each: "inv s \<Longrightarrow> (\<And>x s. x \<in> set xs \<Longrightarrow> inv s \<Longrightarrow> good (f x s)) \<Longrightarrow> good (each f xs s)"
  by (induction xs arbitrary: s) (auto intro!: good_andThen)

lemma inv_post: "inv s \<Longrightarrow> inv (post t s)"
  by (simp add: post_def inv_queue)

lemma receive_good: "inv s \<Longrightarrow> good (router_receive w from msgId data s)"
proof -
  assume "inv s"
  then have "inv (fold (\<lambda>out s. case out of No_post from m \<Rightarrow> post (Task_handle from m) s | _ \<Rightarrow> s) outs s)" for outs
    by (induction outs arbitrary: s) (auto simp: inv_post split: node_out.split)
  with \<open>inv s\<close> show ?thesis by (auto simp: router_receive_def split: sum.split)
qed

definition sm_allowed :: "sm_out \<Rightarrow> bool" where
  "sm_allowed out \<longleftrightarrow> (\<forall>ri. out = Connect ri \<longrightarrow> allowed (Out_node (Tr_connect ri)))"

lemma created_good: "sm_allowed out \<Longrightarrow> inv s \<Longrightarrow> good (created_out w out s)"
  by (cases out) (auto simp: sm_allowed_def inv_post transport_connect_def)

lemma handled_allowed:
  "fine w \<Longrightarrow> inv s \<Longrightarrow> sm_handle (sm_env_of w s) ev m = (m', outs, err) \<Longrightarrow> out \<in> set outs \<Longrightarrow> sm_allowed out"
  using connects_known [of "sm_env_of w s" ev m m' outs err] connect_allowed [of w s] by (fastforce simp: sm_allowed_def)

lemma lookup_good: "fine w \<Longrightarrow> inv s \<Longrightarrow> good (router_lookup w h s)"
proof -
  assume "fine w" "inv s"
  obtain b f outs err where l: "DHTFacade_lookup (sm_env_of w s) (w_date w) (w_lookup w) h (rt_dht s) = (b, f, outs, err)"
    by (metis prod_cases4)
  let ?ps = "map snd (Kademlia_find (Kademlia_makeKey (ne_sha256 (w_env w)) (w_date w) h) (df_dht (rt_dht s)))"
  define m where "m = df_searchManager f"
  have m: "f = (rt_dht s)\<lparr>df_searchManager := m\<rparr>"
    "(m = df_searchManager (rt_dht s) \<and> outs = []) \<or> sm_handle (sm_env_of w s) (Create h ?ps) (df_searchManager (rt_dht s)) = (m, outs, err)"
    using l by (auto simp: DHTFacade_lookup_def Let_def m_def split: if_splits prod.splits)
  have "inv (with_searches m s)"
    using m(2) \<open>fine w\<close> \<open>inv s\<close> by (auto simp: with_searches_def simp del: sm_handle.simps intro: inv_search [unfolded with_searches_def])
  then have "inv (s\<lparr>rt_dht := f\<rparr>)" by (simp add: with_searches_def m(1))
  moreover have "sm_allowed out" if "out \<in> set outs" for out
    using m(2) that handled_allowed [OF \<open>fine w\<close> \<open>inv s\<close>] by (auto simp del: sm_handle.simps)
  ultimately show ?thesis
    unfolding router_lookup_def l by (auto intro!: good_andThen good_each created_good)
qed

lemma send_good: "fine w \<Longrightarrow> inv s \<Longrightarrow> good (router_send w locked to msg s)"
proof -
  assume fi: "fine w" "inv s"
  obtain d outs err where r: "sendMessage (env_of w s) to msg (rt_dispatcher s) = (d, outs, err)" by (metis prod_cases3)
  have "allowed (Out_node out)" if "out \<in> set outs" for out
    using send_outs [OF r] connect_allowed [OF fi] other_allowed [of "Out_node out"] that by fastforce
  then have "list_all allowed (map Out_node outs)" by (simp add: list_all_iff)
  with fi show ?thesis
    by (auto simp: router_send_def r Let_def inv_dispatcher receive_good lookup_good split: list.split node_out.split)
qed

lemma search_good: "fine w \<Longrightarrow> sm_allowed out \<Longrightarrow> inv s \<Longrightarrow> good (search_out w out s)"
  by (cases out) (auto simp: send_good created_good simp del: created_out.simps)

lemma on_search_good:
  assumes "fine w" "inv s" "\<And>env m. f env m = sm_handle env ev m"
  shows "good (on_search w f s)"
proof -
  obtain m outs err where r: "sm_handle (sm_env_of w s) ev (df_searchManager (rt_dht s)) = (m, outs, err)" by (metis prod_cases3)
  have "good (each (search_out w) outs (with_searches m s))"
    using inv_search [OF assms(1,2) r] handled_allowed [OF assms(1,2) r] search_good [OF assms(1)] by (intro good_each) auto
  then show ?thesis
    unfolding on_search_def assms(3) r by (auto simp: with_searches_def intro!: good_andThen)
qed

lemma on_tunnels_good:
  assumes "fine w" "inv s"
  shows "good (on_tunnels w f s)"
proof -
  obtain mg outs err where r: "f (rt_tunnels s) = (mg, outs, err)" by (metis prod_cases3)
  have "good (tunnel_out w out s)" if "inv s" for out s
    using that assms(1) by (cases out) (auto simp: send_good inv_post other_allowed)
  then have "good (each (tunnel_out w) outs (s\<lparr>rt_tunnels := mg\<rparr>))"
    using assms(2) by (intro good_each) (auto simp: inv_tunnels)
  then show ?thesis unfolding on_tunnels_def r by (auto intro!: good_andThen)
qed

lemma handler_good:
  assumes "fine w" "inv s" "\<forall>ri. out = No_setRouterInfo ri \<longrightarrow> signed_info (ne_sha1 (w_env w)) (ne_dsa_verify (w_env w)) ri"
    and "\<forall>ri. out \<noteq> Tr_connect ri"
  shows "good (handler_out w out s)"
  using assms by (cases out) (auto simp: send_good inv_post other_allowed inv_store split: sum.split)

lemma task_good:
  assumes "fine w" "inv s"
  shows "good (run_task w t s)"
proof (cases t)
  case (Task_handle frm m)
  have "good (each (handler_out w) outs s)" if "handleMessage (env_of w s) frm m = Inr outs" for outs
    using handler_stores [OF that] handler_never_connects [OF that] assms by (intro good_each handler_good) auto
  with Task_handle assms(2) show ?thesis by (simp split: sum.split)
next
  case (Task_peerConnected rh)
  have "good (on_dispatcher (od_connected (env_of w s) rh) s)"
    using assms(2) by (auto simp: on_dispatcher_def od_connected_def Let_def inv_dispatcher list_all_iff other_allowed)
  then show ?thesis
    using assms(1) Task_peerConnected by (auto intro!: good_andThen on_search_good [where ev = "Connected rh"])
next
  case (Task_dhtSuccess k v)
  then show ?thesis
    using assms connect_allowed [OF assms] by (auto simp: on_dispatcher_def od_dhtSuccess_def inv_dispatcher split: sum.split)
next
  case (Task_connectionFailure rh)
  with assms show ?thesis by (auto intro!: on_search_good [where ev = "ConnectionFailure rh"])
next
  case (Task_searchReply frm q hs)
  with assms show ?thesis by (auto intro!: on_search_good [where ev = "SearchReply frm q hs"])
next
  case (Task_databaseStore frm k b)
  with assms show ?thesis by (auto intro!: on_search_good [where ev = "Store frm k b"])
qed (use assms in \<open>auto simp: receive_good on_tunnels_good on_dispatcher_def inv_dispatcher\<close>)

lemma established_good: "fine w \<Longrightarrow> inv s \<Longrightarrow> good (transport_established w rh inbound s)"
  unfolding transport_established_def connectionEstablished_def
  by (auto simp: Let_def split: sum.split intro!: good_andThen handler_good inv_post send_good)

lemma peers_timer_good: "fine w \<Longrightarrow> inv s \<Longrightarrow> good (router_peers_timer (\<lambda>i. w\<lparr>w_pick := picks i\<rparr>) s)"
proof -
  assume fi: "fine w" "inv s"
  obtain outs err where r: "PeerManager_callback (\<lambda>i. env_of (w\<lparr>w_pick := picks i\<rparr>) s) (rt_dispatcher s) (rt_peers s) = (outs, err)"
    by (metis surj_pair)
  have "allowed (Out_node out)" if "out \<in> set outs" for out
    using peers_callback_known [OF r] connect_allowed [OF fi] other_allowed [of "Out_node out"] that by fastforce
  then show ?thesis using fi by (simp add: router_peers_timer_def r list_all_iff)
qed

lemma service_good: "fine w \<Longrightarrow> inv s \<Longrightarrow> good (service_step w s)"
  by (auto simp: service_step_def inv_queue task_good split: list.split)

lemma on_service_good: "inv s \<Longrightarrow> good (f s) \<Longrightarrow> good (on_service f s)"
  by (auto simp: on_service_def good_def split: prod.splits)

lemma search_timer_good: "fine w \<Longrightarrow> inv s \<Longrightarrow> good (router_search_timer w e k s)"
  unfolding router_search_timer_def by (rule on_search_good [where ev = "Timeout e k"]) auto

theorem event_good:
  assumes "fine w" "inv s"
  shows "good (router_event w ev s)"
  using assms
  by (cases ev) (auto simp: send_good transport_received_def receive_good established_good transport_failure_def connectionFailure_def
      router_tunnels_timer_def list_all_iff other_allowed Router_gracefulShutdown_def RouterContext_gracefulShutdown_def
      inv_tunnels inv_peers Router_stop_def inv_stopped
      intro!: good_andThen inv_post on_service_good service_good search_timer_good peers_timer_good)

theorem run_good: "list_all (\<lambda>(w, ev). fine w) evs \<Longrightarrow> inv s \<Longrightarrow> good (router_run evs s)"
  unfolding router_run_def by (rule good_each) (auto simp: list_all_iff event_good)

end

definition router_consistent :: "(bytes \<Rightarrow> bytes) \<Rightarrow> (bytes \<Rightarrow> bytes) \<Rightarrow> (bytes \<Rightarrow> bytes \<Rightarrow> bytes \<Rightarrow> bool) \<Rightarrow> Router \<Rightarrow> bool" where
  "router_consistent sha1 sha256 dsa_verify s \<longleftrightarrow> db_wf (rt_db s) \<and> stored_ok sha1 sha256 dsa_verify (rt_db s) \<and> sm_inv (df_searchManager (rt_dht s))"

definition connects_signed :: "(bytes \<Rightarrow> bytes) \<Rightarrow> (bytes \<Rightarrow> bytes \<Rightarrow> bytes \<Rightarrow> bool) \<Rightarrow> rt_out \<Rightarrow> bool" where
  "connects_signed sha1 dsa_verify out \<longleftrightarrow> (\<forall>ri. out = Out_node (Tr_connect ri) \<longrightarrow> signed_info sha1 dsa_verify ri)"

definition world_of :: "(bytes \<Rightarrow> bytes) \<Rightarrow> (bytes \<Rightarrow> bytes) \<Rightarrow> (bytes \<Rightarrow> bytes \<Rightarrow> bytes \<Rightarrow> bool) \<Rightarrow> world \<Rightarrow> bool" where
  "world_of sha1 sha256 dsa_verify w \<longleftrightarrow> ne_sha1 (w_env w) = sha1 \<and> ne_sha256 (w_env w) = sha256 \<and> ne_dsa_verify (w_env w) = dsa_verify"

lemma getRouterInfo_signed: "Database_getRouterInfo sha1 dsa_verify h db = Inr ri \<Longrightarrow> signed_info sha1 dsa_verify ri"
  by (auto simp: Database_getRouterInfo_def Database_getRouterInfo_string_def Let_def inr_iff signed_info_def
      split: option.splits if_splits dest: RouterInfo_parse_wf)

interpretation sound: router_invariant "router_consistent sha1 sha256 dsa_verify" "connects_signed sha1 dsa_verify" "world_of sha1 sha256 dsa_verify"
  for sha1 sha256 dsa_verify
proof unfold_locales
  fix w s ev m outs err
  assume "world_of sha1 sha256 dsa_verify w" "router_consistent sha1 sha256 dsa_verify s"
    "sm_handle (sm_env_of w s) ev (df_searchManager (rt_dht s)) = (m, outs, err)"
  then show "router_consistent sha1 sha256 dsa_verify (with_searches m s)"
    using sm_handle_inv by (auto simp: router_consistent_def with_searches_def)
next
  fix w s ri db
  assume "world_of sha1 sha256 dsa_verify w" "router_consistent sha1 sha256 dsa_verify s"
    "signed_info (ne_sha1 (w_env w)) (ne_dsa_verify (w_env w)) ri" "Database_setRouterInfo (ne_sha256 (w_env w)) ri (rt_db s) = Inr db"
  then show "router_consistent sha1 sha256 dsa_verify (s\<lparr>rt_db := db\<rparr>)"
    using set_info_wf set_info_ok by (auto simp: router_consistent_def world_of_def)
next
  fix w s h ri
  assume "world_of sha1 sha256 dsa_verify w"
    "Database_getRouterInfo (ne_sha1 (w_env w)) (ne_dsa_verify (w_env w)) h (rt_db s) = Inr ri"
  then show "connects_signed sha1 dsa_verify (Out_node (Tr_connect ri))"
    using getRouterInfo_signed by (auto simp: connects_signed_def world_of_def)
qed (auto simp: router_consistent_def connects_signed_def)

lemma made_ok:
  assumes "db_reachable sha1 sha256 dsa_verify db" "RouterContext_make w load_elg load_dsa junkE junkS junkR db = Inr (identity, s)"
  shows "router_consistent sha1 sha256 dsa_verify (fst (Router_start (Router_addTransport s)))"
proof -
  from assms(2) have "rt_db s = db" "df_searchManager (rt_dht s) = SearchManager_make"
    by (auto simp: RouterContext_make_def inr_iff DHTFacade_make_def case_prod_beta Let_def)
  then show ?thesis
    using reachable_ok [OF assms(1)]
    by (simp add: router_consistent_def Router_start_def Router_addTransport_def SearchManager_make_def sm_inv_def)
qed

subsection \<open>From a lookup to the delivery\<close>

definition started_search :: "bytes \<Rightarrow> bytes list \<Rightarrow> SearchState" where
  "started_search k ps = fold SearchState_addAlternate (tl ps) (SearchState_make k (hd ps))"

lemma current_fold [simp]:
  "ss_current (fold SearchState_addAlternate hs s) = ss_current s" "ss_state (fold SearchState_addAlternate hs s) = ss_state s"
  "ss_excluded (fold SearchState_addAlternate hs s) = ss_excluded s"
  by (induction hs arbitrary: s) (auto simp: SearchState_addAlternate_def)

lemma started_search_simps [simp]:
  "ss_current (started_search k ps) = hd ps" "ss_goal (started_search k ps) = k" "ss_state (started_search k ps) = CONNECTING"
  "ss_excluded (started_search k ps) = []"
  by (simp_all add: started_search_def SearchState_make_def)

lemma current_make: "ss_current (SearchState_make k f) = f"
  by (simp add: SearchState_make_def)

lemma started_search_copy: "SearchState_copy (fold SearchState_addAlternate fs (SearchState_make k f)) = started_search k (f # fs)"
  by (simp add: search_ok_copy [OF search_ok_fold [OF search_ok_make]] started_search_def)

definition enqueue_for :: "bytes \<Rightarrow> Message \<Rightarrow> OutboundDispatcher \<Rightarrow> OutboundDispatcher" where
  "enqueue_for to msg d = d\<lparr>od_pending := od_pending d @ [(to, msg)]\<rparr>"

definition add_search :: "SearchState \<Rightarrow> SearchManager \<Rightarrow> SearchManager" where
  "add_search ss m = m\<lparr>sm_searches := sm_searches m @ [ss], sm_timers := smap_put (ss_goal ss) () (sm_timers m)\<rparr>"

definition in_searches :: "(SearchManager \<Rightarrow> SearchManager) \<Rightarrow> Router \<Rightarrow> Router" where
  "in_searches f s = s\<lparr>rt_dht := (rt_dht s)\<lparr>df_searchManager := f (df_searchManager (rt_dht s))\<rparr>\<rparr>"

lemma send_unknown:
  assumes "od_transport (rt_dispatcher s)" "to \<noteq> my_hash (w_env w)" "\<not> ne_isConnected (w_env w) to"
    and "\<not> Database_routerExists to (rt_db s)" "w_lookup w"
    and found: "map snd (Kademlia_find (Kademlia_makeKey (ne_sha256 (w_env w)) (w_date w) to) (df_dht (rt_dht s))) = f # fs"
    and "\<not> NegativeLookupCache_contains to (sm_nlc (df_searchManager (rt_dht s)))" "by_goal to (df_searchManager (rt_dht s)) = None"
    and "Database_getRouterInfo (ne_sha1 (w_env w)) (ne_dsa_verify (w_env w)) f (rt_db s) = Inr ri" "ne_connect (w_env w) ri = None"
  shows "router_send w False to msg s =
    (in_searches (add_search (started_search to (f # fs))) (s\<lparr>rt_dispatcher := enqueue_for to msg (rt_dispatcher s)\<rparr>),
     [Out_node (Tr_connect ri)], None)"
proof -
  have ss: "SearchManager_createSearch (sm_env_of w s') to (f # fs) (df_searchManager (rt_dht s)) =
      (add_search (started_search to (f # fs)) (df_searchManager (rt_dht s)), [Connect ri], None)" if "rt_db s' = rt_db s" for s'
    using assms that
    by (simp add: SearchManager_createSearch_def sm_connect_def sm_env_of_def add_search_def Let_def started_search_copy
        current_make)
  have len: "\<not> length (Kademlia_find (Kademlia_makeKey (ne_sha256 (w_env w)) (w_date w) to) (df_dht (rt_dht s))) < 1"
    using found by (metis length_map length_Cons less_one nat.distinct(1))
  have l: "DHTFacade_lookup (sm_env_of w s') (w_date w) (w_lookup w) to (rt_dht s) =
      (True, (rt_dht s)\<lparr>df_searchManager := add_search (started_search to (f # fs)) (df_searchManager (rt_dht s))\<rparr>, [Connect ri], None)"
    if "rt_db s' = rt_db s" for s'
    using ss [OF that] len assms(5) by (simp add: DHTFacade_lookup_def found Let_def)
  have "sendMessage (env_of w s) to msg (rt_dispatcher s) = (enqueue_for to msg (rt_dispatcher s), [Dht_lookup to], None)"
    using assms l [OF refl] by (simp add: sendMessage_def enqueue_for_def) (simp add: env_of_def)
  then show ?thesis
    using assms(10) by (simp add: router_send_def router_lookup_def l in_searches_def transport_connect_def)
qed

text \<open>The router asked connects: it is sent the lookup.\<close>

lemma find_snoc: "find P xs = None \<Longrightarrow> find P (xs @ [x]) = (if P x then Some x else None)"
  by (induction xs) (auto split: if_splits)

lemma asked_connects:
  assumes m: "df_searchManager (rt_dht s) = add_search (started_search to (f # fs)) m" "by_current f m = None"
    and d: "od_transport (rt_dispatcher s)" "queued f (rt_dispatcher s) = []"
    and q: "rt_queue s = [Task_peerConnected f]"
    and c: "f \<noteq> my_hash (w_env w)" "ne_isConnected (w_env w) f"
    and l: "lookup = ne_newMessage (w_env w) (DatabaseLookup_body (DatabaseLookup_make to (my_hash (w_env w)) 0 []))"
  shows "service_step w s =
    (in_searches (\<lambda>_. sm_modify to (ModifyState_state LOOKUP_SENT) (add_search (started_search to (f # fs)) m)) (s\<lparr>rt_queue := []\<rparr>),
     [Out_node (Tr_send f (msg_id lookup) (short_bytes (w_env w) lookup))], None)"
proof -
  have e: "filter (\<lambda>(k, _). k = f) (od_pending (rt_dispatcher s)) = []" using d(2) by (simp add: queued_def)
  have "filter (\<lambda>(k, _). k \<noteq> f) (od_pending (rt_dispatcher s)) = od_pending (rt_dispatcher s)"
    using e by (auto simp: filter_empty_conv filter_id_conv)
  then have same: "od_erase f (rt_dispatcher s) = rt_dispatcher s" by (simp add: od_erase_def)
  have con: "od_connected env f (rt_dispatcher s) = (rt_dispatcher s, [], None)" for env
    by (simp add: od_connected_def e same)
  have cur: "by_current f (add_search (started_search to (f # fs)) m) = Some (started_search to (f # fs))"
    using m(2) by (simp add: by_current_def add_search_def find_snoc)
  have "SearchManager_connected env f (add_search (started_search to (f # fs)) m) =
      (sm_modify to (ModifyState_state LOOKUP_SENT) (add_search (started_search to (f # fs)) m),
       [Send_lookup f (DatabaseLookup_make to (env_self env) 0 [])], None)" for env
    by (simp add: SearchManager_connected_def cur)
  then show ?thesis
    using q c d l
    by (simp add: service_step_def on_dispatcher_def con on_search_def m(1) router_send_def sendMessage_def in_searches_def)
qed

text \<open>The answer is stored, then the search succeeds, then the router looked for is connected to.\<close>

lemma answer_handled:
  assumes q: "rt_queue s = [Task_handle from ans]" and b: "msg_body ans = DatabaseStore_body dsm" "dbs_type dsm = ROUTER_INFO"
    and z: "ne_gunzip (w_env w) (dbs_data dsm) = Inr raw" "RouterInfo_parse (length raw) raw 0 = Inr (ri, q')"
    and v: "RouterInfo_verifySignature (ne_sha1 (w_env w)) (ne_dsa_verify (w_env w)) ri" "to = info_hash (ne_sha256 (w_env w)) ri" "length to = 32"
  shows "\<exists>db. service_step w s = (s\<lparr>rt_queue := [Task_databaseStore from to True], rt_db := db\<rparr>, [], None) \<and>
    Database_getRouterInfo (ne_sha1 (w_env w)) (ne_dsa_verify (w_env w)) to db = Inr ri"
proof -
  have "signed_info (ne_sha1 (w_env w)) (ne_dsa_verify (w_env w)) ri"
    using v(1) RouterInfo_parse_wf [OF z(2)] by (simp add: signed_info_def)
  from setRouterInfo_readable [OF this v(2,3), of "rt_db s"] obtain db where
    db: "Database_setRouterInfo (ne_sha256 (w_env w)) ri (rt_db s) = Inr db"
      "Database_getRouterInfo (ne_sha1 (w_env w)) (ne_dsa_verify (w_env w)) to db = Inr ri" by blast
  then show ?thesis
    using q b z v
    by (intro exI [of _ db]) (simp add: service_step_def handleMessage_def handle_DatabaseStore_def post_def info_hash_def)
qed

lemma search_succeeds:
  assumes q: "rt_queue s = [Task_databaseStore from to True]" and m: "by_goal to (df_searchManager (rt_dht s)) = Some ss"
    and i: "Database_getRouterInfo (ne_sha1 (w_env w)) (ne_dsa_verify (w_env w)) to (rt_db s) = Inr ri" "to = info_hash (ne_sha256 (w_env w)) ri"
  shows "\<exists>m'. service_step w s = (in_searches (\<lambda>_. m') (s\<lparr>rt_queue := [Task_dhtSuccess to to]\<rparr>), [], None) \<and>
    sm_searches m' = filter (\<lambda>s. ss_goal s \<noteq> to) (sm_searches (df_searchManager (rt_dht s)))"
proof -
  let ?m = "df_searchManager (rt_dht s)"
  let ?m' = "?m\<lparr>sm_searches := filter (\<lambda>s. ss_goal s \<noteq> to) (sm_searches ?m), sm_timers := smap_erase to (sm_timers ?m)\<rparr>"
  have "ss_goal ss = to" using by_goal_Some [OF m] by simp
  then have "SearchManager_databaseStore (sm_env_of w (s\<lparr>rt_queue := []\<rparr>)) from to True ?m = (?m', [Post_success to to], None)"
    using m i by (simp add: SearchManager_databaseStore_def Let_def info_hash_def)
  then have "service_step w s = (in_searches (\<lambda>_. ?m') (s\<lparr>rt_queue := [Task_dhtSuccess to to]\<rparr>), [], None)"
    using q by (simp add: service_step_def on_search_def post_def in_searches_def)
  then show ?thesis by (intro exI [of _ ?m']) simp
qed

lemma found_connects:
  assumes "rt_queue s = [Task_dhtSuccess k to]" "queued to (rt_dispatcher s) \<noteq> []" "od_transport (rt_dispatcher s)"
    and "Database_getRouterInfo (ne_sha1 (w_env w)) (ne_dsa_verify (w_env w)) to (rt_db s) = Inr ri" "ne_connect (w_env w) ri = None"
  shows "service_step w s = (s\<lparr>rt_queue := []\<rparr>, [Out_node (Tr_connect ri)], None)"
proof -
  have "\<exists>(rh, m) \<in> set (od_pending (rt_dispatcher s)). rh = to"
    using assms(2) by (auto simp: queued_def filter_empty_conv)
  then show ?thesis using assms by (simp add: service_step_def on_dispatcher_def od_dhtSuccess_def)
qed

lemma found_delivers:
  assumes "rt_queue s = [Task_peerConnected to]" "od_transport (rt_dispatcher s)" "by_current to (df_searchManager (rt_dht s)) = None"
  shows "service_step w s = (s\<lparr>rt_queue := [], rt_dispatcher := od_erase to (rt_dispatcher s)\<rparr>,
     map (\<lambda>m. Out_node (Tr_send to (msg_id m) (short_bytes (w_env w) m))) (queued to (rt_dispatcher s)), None)"
proof -
  have "map (\<lambda>(k, m). Tr_send k (msg_id m) (short_bytes (w_env w) m)) (filter (\<lambda>(k, _). k = to) (od_pending (rt_dispatcher s))) =
      map (\<lambda>m. Tr_send to (msg_id m) (short_bytes (w_env w) m)) (queued to (rt_dispatcher s))"
    by (auto simp: queued_def)
  with assms show ?thesis
    by (simp add: service_step_def on_dispatcher_def od_connected_def Let_def on_search_def SearchManager_connected_def)
qed

lemma stopped_simps [simp]: "rt_stopped (post t s) = rt_stopped s" "rt_stopped (in_searches f s) = rt_stopped s"
  by (simp_all add: post_def in_searches_def)

lemma established_posts: "transport_established w rh False s = (post (Task_peerConnected rh) s, [], None)"
  by (simp add: transport_established_def connectionEstablished_def)

lemma received_posts:
  assumes "mid \<noteq> 0" "Message_fromBytes (ne_junkMessage (w_env w)) (ne_now (w_env w)) mid data False = Inr (Some m)"
    and "msg_body m = DatabaseStore_body dsm"
  shows "transport_received w from mid data s = (post (Task_handle from m) s, [], None)"
  using assms by (simp add: transport_received_def router_receive_def messageReceived_def)

definition same_crypto :: "node_env \<Rightarrow> node_env \<Rightarrow> bool" where
  "same_crypto a b \<longleftrightarrow> ne_sha1 b = ne_sha1 a \<and> ne_sha256 b = ne_sha256 a \<and> ne_dsa_verify b = ne_dsa_verify a \<and> my_hash b = my_hash a"

text \<open>The state a router may be in when a message for the unknown router \<open>to\<close> is submitted, the table of
  known routers leading to \<open>f\<close> first.\<close>

definition lookup_start :: "world \<Rightarrow> Router \<Rightarrow> bytes \<Rightarrow> bytes \<Rightarrow> bytes list \<Rightarrow> RouterInfo \<Rightarrow> bool" where
  "lookup_start w s to f fs rif \<longleftrightarrow>
     \<not> rt_stopped s \<and> rt_queue s = [] \<and> od_transport (rt_dispatcher s) \<and> queued to (rt_dispatcher s) = [] \<and> queued f (rt_dispatcher s) = [] \<and>
     to \<noteq> my_hash (w_env w) \<and> f \<noteq> my_hash (w_env w) \<and> to \<noteq> f \<and> \<not> ne_isConnected (w_env w) to \<and>
     \<not> Database_routerExists to (rt_db s) \<and>
     map snd (Kademlia_find (Kademlia_makeKey (ne_sha256 (w_env w)) (w_date w) to) (df_dht (rt_dht s))) = f # fs \<and>
     \<not> NegativeLookupCache_contains to (sm_nlc (df_searchManager (rt_dht s))) \<and>
     by_goal to (df_searchManager (rt_dht s)) = None \<and> by_current f (df_searchManager (rt_dht s)) = None \<and>
     by_current to (df_searchManager (rt_dht s)) = None \<and>
     Database_getRouterInfo (ne_sha1 (w_env w)) (ne_dsa_verify (w_env w)) f (rt_db s) = Inr rif"

definition answer_holds :: "world \<Rightarrow> world \<Rightarrow> u32 \<Rightarrow> bytes \<Rightarrow> RouterInfo \<Rightarrow> bool" where
  "answer_holds w w' mid data ri \<longleftrightarrow> mid \<noteq> 0 \<and>
     (\<exists>m dsm raw q. Message_fromBytes (ne_junkMessage (w_env w)) (ne_now (w_env w)) mid data False = Inr (Some m) \<and>
        msg_body m = DatabaseStore_body dsm \<and> dbs_type dsm = ROUTER_INFO \<and> ne_gunzip (w_env w') (dbs_data dsm) = Inr raw \<and>
        RouterInfo_parse (length raw) raw 0 = Inr (ri, q) \<and>
        RouterInfo_verifySignature (ne_sha1 (w_env w')) (ne_dsa_verify (w_env w')) ri)"

lemma first_half:
  fixes ws :: "nat \<Rightarrow> world"
  assumes st: "lookup_start (ws 0) s to f fs rif" and crypto: "\<forall>i. same_crypto (w_env (ws 0)) (w_env (ws i))"
    and con: "\<forall>i ri. ne_connect (w_env (ws i)) ri = None" and "w_lookup (ws 0)" and "ne_isConnected (w_env (ws 2)) f"
    and l: "lookup = ne_newMessage (w_env (ws 2)) (DatabaseLookup_body (DatabaseLookup_make to (my_hash (w_env (ws 2))) 0 []))"
  shows "\<exists>s'. router_run [(ws 0, Rt_send to msg), (ws 1, Rt_established f False), (ws 2, Rt_service)] s =
      (s', [Out_node (Tr_connect rif), Out_node (Tr_send f (msg_id lookup) (short_bytes (w_env (ws 2)) lookup))], None) \<and>
    \<not> rt_stopped s' \<and> rt_queue s' = [] \<and> od_transport (rt_dispatcher s') \<and> queued to (rt_dispatcher s') = [msg] \<and> rt_db s' = rt_db s \<and>
    (\<exists>ss. by_goal to (df_searchManager (rt_dht s')) = Some ss) \<and>
    (\<forall>s \<in> set (sm_searches (df_searchManager (rt_dht s'))). ss_goal s \<noteq> to \<longrightarrow> ss_current s \<noteq> to)"
proof -
  let ?m = "df_searchManager (rt_dht s)"
  let ?s1 = "in_searches (add_search (started_search to (f # fs))) (s\<lparr>rt_dispatcher := enqueue_for to msg (rt_dispatcher s)\<rparr>)"
  let ?s2 = "post (Task_peerConnected f) ?s1"
  let ?m3 = "sm_modify to (ModifyState_state LOOKUP_SENT) (add_search (started_search to (f # fs)) ?m)"
  have 1: "router_send (ws 0) False to msg s = (?s1, [Out_node (Tr_connect rif)], None)"
    using st con assms(4) by (intro send_unknown) (auto simp: lookup_start_def)
  have qf: "queued f (enqueue_for to msg (rt_dispatcher s)) = []" "queued to (enqueue_for to msg (rt_dispatcher s)) = [msg]"
    using st by (auto simp: lookup_start_def queued_def enqueue_for_def)
  have 2: "service_step (ws 2) ?s2 = (in_searches (\<lambda>_. ?m3) (?s2\<lparr>rt_queue := []\<rparr>),
      [Out_node (Tr_send f (msg_id lookup) (short_bytes (w_env (ws 2)) lookup))], None)"
    using st crypto assms(5) l qf
    by (intro asked_connects) (auto simp: lookup_start_def in_searches_def post_def same_crypto_def enqueue_for_def)
  have "router_run [(ws 0, Rt_send to msg), (ws 1, Rt_established f False), (ws 2, Rt_service)] s =
      (in_searches (\<lambda>_. ?m3) (?s2\<lparr>rt_queue := []\<rparr>),
       [Out_node (Tr_connect rif), Out_node (Tr_send f (msg_id lookup) (short_bytes (w_env (ws 2)) lookup))], None)"
    using 1 2 st by (simp add: established_posts on_service_def lookup_start_def)
  moreover have "to \<in> goals ?m3" by (simp add: goals_def sm_modify_def add_search_def ModifyState_state_def)
  then have "\<exists>ss. by_goal to ?m3 = Some ss" using by_goal_None [of to ?m3] by (cases "by_goal to ?m3") auto
  moreover have "\<forall>s \<in> set (sm_searches ?m3). ss_goal s \<noteq> to \<longrightarrow> ss_current s \<noteq> to"
    using st by (auto simp: lookup_start_def sm_modify_def add_search_def ModifyState_state_def by_current_def find_None_iff split: if_splits)
  ultimately show ?thesis
    using st qf by (intro exI [of _ "in_searches (\<lambda>_. ?m3) (?s2\<lparr>rt_queue := []\<rparr>)"])
      (simp add: in_searches_def post_def lookup_start_def enqueue_for_def del: router_run_simps)
qed

lemma second_half:
  fixes ws :: "nat \<Rightarrow> world"
  assumes ans: "answer_holds (ws 0) (ws 1) mid data ri" and crypto: "\<forall>i. same_crypto (w_env (ws 0)) (w_env (ws i))"
    and con: "\<forall>i ri. ne_connect (w_env (ws i)) ri = None"
    and to: "to = info_hash (ne_sha256 (w_env (ws 0))) ri" "length to = 32"
    and run: "\<not> rt_stopped s" and s: "rt_queue s = []" "od_transport (rt_dispatcher s)" "queued to (rt_dispatcher s) \<noteq> []"
      "by_goal to (df_searchManager (rt_dht s)) = Some ss"
      "\<forall>s \<in> set (sm_searches (df_searchManager (rt_dht s))). ss_goal s \<noteq> to \<longrightarrow> ss_current s \<noteq> to"
  shows "\<exists>s'. router_run [(ws 0, Rt_received f mid data), (ws 1, Rt_service), (ws 2, Rt_service), (ws 3, Rt_service),
        (ws 4, Rt_established to False), (ws 5, Rt_service)] s =
      (s', Out_node (Tr_connect ri) # map (\<lambda>m. Out_node (Tr_send to (msg_id m) (short_bytes (w_env (ws 5)) m))) (queued to (rt_dispatcher s)), None) \<and>
    rt_queue s' = [] \<and> queued to (rt_dispatcher s') = [] \<and> by_goal to (df_searchManager (rt_dht s')) = None \<and>
    Database_getRouterInfo (ne_sha1 (w_env (ws 0))) (ne_dsa_verify (w_env (ws 0))) to (rt_db s') = Inr ri"
proof -
  have c: "ne_sha1 (w_env (ws i)) = ne_sha1 (w_env (ws 0))" "ne_sha256 (w_env (ws i)) = ne_sha256 (w_env (ws 0))"
    "ne_dsa_verify (w_env (ws i)) = ne_dsa_verify (w_env (ws 0))" for i
    using crypto by (auto simp: same_crypto_def)
  obtain m dsm raw q where a: "mid \<noteq> 0" "Message_fromBytes (ne_junkMessage (w_env (ws 0))) (ne_now (w_env (ws 0))) mid data False = Inr (Some m)"
    "msg_body m = DatabaseStore_body dsm" "dbs_type dsm = ROUTER_INFO" "ne_gunzip (w_env (ws 1)) (dbs_data dsm) = Inr raw"
    "RouterInfo_parse (length raw) raw 0 = Inr (ri, q)" "RouterInfo_verifySignature (ne_sha1 (w_env (ws 1))) (ne_dsa_verify (w_env (ws 1))) ri"
    using ans by (auto simp: answer_holds_def)
  let ?s1 = "post (Task_handle f m) s"
  have 1: "transport_received (ws 0) f mid data s = (?s1, [], None)" by (rule received_posts [OF a(1-3)])
  have "rt_queue ?s1 = [Task_handle f m]" by (simp add: post_def s(1))
  from answer_handled [OF this a(3-7)] obtain db where
    2: "service_step (ws 1) ?s1 = (?s1\<lparr>rt_queue := [Task_databaseStore f to True], rt_db := db\<rparr>, [], None)"
      "Database_getRouterInfo (ne_sha1 (w_env (ws 0))) (ne_dsa_verify (w_env (ws 0))) to db = Inr ri"
    using to c [of 1] by auto
  let ?s2 = "?s1\<lparr>rt_queue := [Task_databaseStore f to True], rt_db := db\<rparr>"
  have "\<exists>m'. service_step (ws 2) ?s2 = (in_searches (\<lambda>_. m') (?s2\<lparr>rt_queue := [Task_dhtSuccess to to]\<rparr>), [], None) \<and>
      sm_searches m' = filter (\<lambda>s. ss_goal s \<noteq> to) (sm_searches (df_searchManager (rt_dht ?s2)))"
    using s(4) 2(2) to(1) c [of 2] by (intro search_succeeds) (simp_all add: post_def)
  then obtain m' where 3: "service_step (ws 2) ?s2 = (in_searches (\<lambda>_. m') (?s2\<lparr>rt_queue := [Task_dhtSuccess to to]\<rparr>), [], None)"
    "sm_searches m' = filter (\<lambda>s. ss_goal s \<noteq> to) (sm_searches (df_searchManager (rt_dht s)))" by (auto simp: post_def)
  let ?s3 = "in_searches (\<lambda>_. m') (?s2\<lparr>rt_queue := [Task_dhtSuccess to to]\<rparr>)"
  have 4: "service_step (ws 3) ?s3 = (?s3\<lparr>rt_queue := []\<rparr>, [Out_node (Tr_connect ri)], None)"
    using s(2,3) 2(2) c [of 3] con by (intro found_connects [of _ to]) (simp_all add: in_searches_def post_def)
  let ?s5 = "post (Task_peerConnected to) (?s3\<lparr>rt_queue := []\<rparr>)"
  have m': "by_goal to m' = None" "by_current to m' = None"
    using 3(2) s(5) by (auto simp: by_goal_None goals_def by_current_def find_None_iff)
  have 5: "service_step (ws 5) ?s5 = (?s5\<lparr>rt_queue := [], rt_dispatcher := od_erase to (rt_dispatcher ?s5)\<rparr>,
      map (\<lambda>m. Out_node (Tr_send to (msg_id m) (short_bytes (w_env (ws 5)) m))) (queued to (rt_dispatcher ?s5)), None)"
    using s(2) m' by (intro found_delivers) (simp_all add: in_searches_def post_def)
  show ?thesis
    using 1 2 3(1) 4 5 m' run by (simp add: established_posts on_service_def) (simp add: in_searches_def post_def queued_erase)
qed

subsection \<open>Properties\<close>

text \<open>C6. A message for a router nobody here knows. The dispatcher queues it and the DHT starts a search at the
  first router of the bucket; when that router connects it is asked; its answer, a compressed and
  signed router info of the router looked for, is decompressed, verified, stored in the database and
  signalled; the search succeeds and ends, the router looked for is connected to with exactly that info,
  and when it connects the message is sent to it. It takes these nine events and no other, whatever
  the transport, the clock and the generators answer otherwise, provided \<open>DHTFacade::lookup\<close>, which
  returns no value, happens to answer true.\<close>

theorem lookup_delivers:
  fixes ws :: "nat \<Rightarrow> world"
  assumes "lookup_start (ws 0) s to f fs rif" and "\<forall>i. same_crypto (w_env (ws 0)) (w_env (ws i))"
    and "\<forall>i ri. ne_connect (w_env (ws i)) ri = None" and "w_lookup (ws 0)" and "ne_isConnected (w_env (ws 2)) f"
    and "answer_holds (ws 3) (ws 4) mid data ri" and "to = info_hash (ne_sha256 (w_env (ws 0))) ri" and "length to = 32"
    and "lookup = ne_newMessage (w_env (ws 2)) (DatabaseLookup_body (DatabaseLookup_make to (my_hash (w_env (ws 2))) 0 []))"
  shows "\<exists>s'. router_run [(ws 0, Rt_send to msg), (ws 1, Rt_established f False), (ws 2, Rt_service),
        (ws 3, Rt_received f mid data), (ws 4, Rt_service), (ws 5, Rt_service), (ws 6, Rt_service),
        (ws 7, Rt_established to False), (ws 8, Rt_service)] s =
      (s', [Out_node (Tr_connect rif), Out_node (Tr_send f (msg_id lookup) (short_bytes (w_env (ws 2)) lookup)),
        Out_node (Tr_connect ri), Out_node (Tr_send to (msg_id msg) (short_bytes (w_env (ws 8)) msg))], None) \<and>
    rt_queue s' = [] \<and> queued to (rt_dispatcher s') = [] \<and> by_goal to (df_searchManager (rt_dht s')) = None \<and>
    Database_getRouterInfo (ne_sha1 (w_env (ws 0))) (ne_dsa_verify (w_env (ws 0))) to (rt_db s') = Inr ri"
proof -
  obtain s1 ss where 1: "router_run [(ws 0, Rt_send to msg), (ws 1, Rt_established f False), (ws 2, Rt_service)] s =
      (s1, [Out_node (Tr_connect rif), Out_node (Tr_send f (msg_id lookup) (short_bytes (w_env (ws 2)) lookup))], None)"
    "\<not> rt_stopped s1" "rt_queue s1 = []" "od_transport (rt_dispatcher s1)" "queued to (rt_dispatcher s1) = [msg]"
    "by_goal to (df_searchManager (rt_dht s1)) = Some ss"
    "\<forall>s \<in> set (sm_searches (df_searchManager (rt_dht s1))). ss_goal s \<noteq> to \<longrightarrow> ss_current s \<noteq> to"
    using first_half [OF assms(1-5,9), of msg] by blast
  let ?ws = "\<lambda>i. ws (i + 3)"
  have c: "\<forall>i. same_crypto (w_env (?ws 0)) (w_env (?ws i))" using assms(2) unfolding same_crypto_def by metis
  have h: "ne_sha1 (w_env (ws 3)) = ne_sha1 (w_env (ws 0))" "ne_sha256 (w_env (ws 3)) = ne_sha256 (w_env (ws 0))"
    "ne_dsa_verify (w_env (ws 3)) = ne_dsa_verify (w_env (ws 0))"
    using assms(2) by (auto simp: same_crypto_def)
  have a: "answer_holds (?ws 0) (?ws 1) mid data ri" "\<forall>i ri. ne_connect (w_env (?ws i)) ri = None"
    "to = info_hash (ne_sha256 (w_env (?ws 0))) ri" "queued to (rt_dispatcher s1) \<noteq> []"
    using assms(3,6,7) h 1(5) by simp_all
  note second = second_half [OF a(1) c a(2,3) assms(8) 1(2-4) a(4) 1(6,7), of f, simplified h 1(5), simplified]
  obtain s2 where 2: "router_run [(ws 3, Rt_received f mid data), (ws 4, Rt_service), (ws 5, Rt_service), (ws 6, Rt_service),
        (ws 7, Rt_established to False), (ws 8, Rt_service)] s1 =
      (s2, [Out_node (Tr_connect ri), Out_node (Tr_send to (msg_id msg) (short_bytes (w_env (ws 8)) msg))], None)"
    "rt_queue s2 = []" "queued to (rt_dispatcher s2) = []" "by_goal to (df_searchManager (rt_dht s2)) = None"
    "Database_getRouterInfo (ne_sha1 (w_env (ws 0))) (ne_dsa_verify (w_env (ws 0))) to (rt_db s2) = Inr ri"
    using second by (auto simp: h)
  have "router_run ([(ws 0, Rt_send to msg), (ws 1, Rt_established f False), (ws 2, Rt_service)] @
      [(ws 3, Rt_received f mid data), (ws 4, Rt_service), (ws 5, Rt_service), (ws 6, Rt_service),
        (ws 7, Rt_established to False), (ws 8, Rt_service)]) s =
      (s2, [Out_node (Tr_connect rif), Out_node (Tr_send f (msg_id lookup) (short_bytes (w_env (ws 2)) lookup)),
        Out_node (Tr_connect ri), Out_node (Tr_send to (msg_id msg) (short_bytes (w_env (ws 8)) msg))], None)"
    unfolding router_run_append 1(1) by (simp only: andThen_simps 2(1) Let_def prod.case append.simps)
  then show ?thesis using 2(2-5) by (intro exI [of _ s2]) (simp del: router_run_simps)
qed

text \<open>C7. A router started on any database it can have, whatever messages, connections, failures, timers and
  posted handlers follow: its database keeps the keys and references of the schema and holds only router
  infos signed by the router under whose hash they are stored, its searches stay consistent, and every
  router info it hands to the transport to connect to is within the format's limits and carries a
  valid signature.\<close>

theorem router_sound:
  assumes "db_reachable sha1 sha256 dsa_verify db" and "RouterContext_make w load_elg load_dsa junkE junkS junkR db = Inr (identity, s0)"
    and "list_all (\<lambda>(w, ev). world_of sha1 sha256 dsa_verify w) evs"
    and "router_run evs (fst (Router_start (Router_addTransport s0))) = (s, out, err)"
  shows "db_wf (rt_db s) \<and> stored_ok sha1 sha256 dsa_verify (rt_db s) \<and> sm_inv (df_searchManager (rt_dht s)) \<and>
    (\<forall>ri. Out_node (Tr_connect ri) \<in> set out \<longrightarrow> signed_info sha1 dsa_verify ri)"
  using sound.run_good [OF assms(3) made_ok [OF assms(1,2)]] assms(4)
  by (auto simp: router_consistent_def list_all_iff connects_signed_def)

subsection \<open>Instances\<close>

definition toy_info :: "byte \<Rightarrow> RouterInfo" where
  "toy_info b = \<lparr>ri_identity = toy_identity b, ri_published = Date_of 0, ri_addresses = [], ri_options = [], ri_signature = replicate 40 9\<rparr>"

definition toy_world :: world where
  "toy_world = \<lparr>w_env = (toy_node 1)\<lparr>ne_isConnected := (\<lambda>h. h = replicate 32 7)\<rparr>, w_tunnel = (\<lambda>_. sample_tunnel_env), w_date = [],
     w_time = 0, w_dangling = (\<lambda>g. g), w_lookup = True, w_pick = 0, w_junkHash = replicate 32 0\<rparr>"

definition toy_router :: "Database \<Rightarrow> Router" where
  "toy_router db = \<lparr>rt_db = db, rt_dispatcher = \<lparr>od_transport = True, od_pending = []\<rparr>,
     rt_dht = DHTFacade_make toy_hash [] (replicate 32 1) [replicate 32 7], rt_tunnels = Manager_make, rt_peers = PeerManager_make,
     rt_queue = [], rt_stopped = False, rt_running = True\<rparr>"

lemma toy_world_simps [simp]:
  "ne_sha1 (w_env toy_world) = (\<lambda>x. x)" "ne_sha256 (w_env toy_world) = toy_hash" "w_date toy_world = []" "w_lookup toy_world"
  "ne_dsa_verify (w_env toy_world) = (\<lambda>k h s. s = replicate 40 9)" "ne_isConnected (w_env toy_world) = (\<lambda>h. h = replicate 32 7)"
  "ne_connect (w_env toy_world) = (\<lambda>_. None)" "ne_gunzip (w_env toy_world) = Inr" "ne_junkMessage (w_env toy_world) = sample_junk"
  by (simp_all add: toy_world_def toy_node_def)

lemma toy_hash_identity: "fst (RouterIdentity_getHash toy_hash (toy_identity b)) = replicate 32 b"
  by (simp add: RouterIdentity_getHash_def toy_identity_def toy_hash_def RouterIdentity_serialize_def Let_def)

lemma toy_info_hash: "info_hash toy_hash (toy_info b) = replicate 32 b"
  by (simp add: info_hash_def toy_info_def toy_hash_identity)

lemma toy_my_hash: "my_hash (w_env toy_world) = replicate 32 1"
  by (simp add: my_hash_def toy_world_def toy_node_def toy_hash_identity)

lemma toy_info_wf: "RouterInfo_wf (toy_info b)"
  by (simp add: RouterInfo_wf_def toy_info_def toy_identity_def RouterIdentity_wf_def Certificate_default_def Certificate_wf_def
      Mapping_wf_def smap_ok_def)

lemma toy_info_signed: "signed_info (\<lambda>x. x) (\<lambda>k h s. s = replicate 40 9) (toy_info b)"
  by (simp add: signed_info_def toy_info_wf RouterInfo_verifySignature_def) (simp add: toy_info_def)

lemma toy_found: "map snd (Kademlia_find (Kademlia_makeKey toy_hash [] (replicate 32 6)) (df_dht (rt_dht (toy_router db)))) = [replicate 32 7]"
  by (simp add: toy_router_def) code_simp

lemma toy_start:
  assumes "Database_getRouterInfo (\<lambda>x. x) (\<lambda>k h s. s = replicate 40 9) (replicate 32 7) db = Inr (toy_info 7)"
    and "\<not> Database_routerExists (replicate 32 6) db"
  shows "lookup_start toy_world (toy_router db) (replicate 32 6) (replicate 32 7) [] (toy_info 7)"
  using assms toy_found [of db]
  by (simp add: lookup_start_def toy_my_hash)
    (simp add: toy_router_def queued_def DHTFacade_make_def SearchManager_make_def by_goal_def by_current_def NegativeLookupCache_make_def
      NegativeLookupCache_contains_def smap_find_def)

definition toy_answer :: Message where
  "toy_answer = Message_make 3 0 0 (DatabaseStore_body (DatabaseStore_make (mj_store sample_junk) (replicate 32 6) ROUTER_INFO 0
     (RouterInfo_serialize (toy_info 6))))"

lemma toy_answer_holds: "answer_holds toy_world toy_world 3 (short_bytes (w_env toy_world) toy_answer) (toy_info 6)"
proof -
  have len: "length (RouterInfo_serialize (toy_info 6)) < 65536"
    by (simp add: RouterInfo_serialize_def RouterInfo_getSignedBytes_def toy_info_def toy_identity_def RouterIdentity_serialize_def
        Certificate_default_def Certificate_serialize_def Mapping_serialize_def)
  have wf: "body_wf sample_junk (msg_body toy_answer)"
    using len by (simp add: toy_answer_def Message_make_def DatabaseStore_make_def)
  have b: "short_bytes (w_env toy_world) toy_answer = Message_toBytes (ne_sha256 (w_env toy_world)) (ne_now (w_env toy_world))
      (ne_secs (w_env toy_world)) False toy_answer"
    by (simp add: short_bytes_def)
  show ?thesis
    unfolding answer_holds_def toy_world_simps toBytes_short_parse [OF wf b]
    using RouterInfo_par_ser [OF toy_info_wf [of 6], of "RouterInfo_serialize (toy_info 6)" 0] toy_info_signed [of 6]
    by (auto simp: toy_answer_def Message_make_def DatabaseStore_make_def signed_info_def)
qed

theorem lookup_delivers_witness:
  "\<exists>db s'. let w = toy_world; msg = Message_make 9 0 0 Garlic_body; to = replicate 32 6; f = replicate 32 7;
       lookup = ne_newMessage (w_env w) (DatabaseLookup_body (DatabaseLookup_make to (my_hash (w_env w)) 0 [])) in
     router_run [(w, Rt_send to msg), (w, Rt_established f False), (w, Rt_service),
        (w, Rt_received f 3 (short_bytes (w_env w) toy_answer)), (w, Rt_service), (w, Rt_service), (w, Rt_service),
        (w, Rt_established to False), (w, Rt_service)] (toy_router db) =
      (s', [Out_node (Tr_connect (toy_info 7)), Out_node (Tr_send f (msg_id lookup) (short_bytes (w_env w) lookup)),
        Out_node (Tr_connect (toy_info 6)), Out_node (Tr_send to 9 (short_bytes (w_env w) msg))], None)"
proof -
  obtain db where db: "Database_getRouterInfo (\<lambda>x. x) (\<lambda>k h s. s = replicate 40 9) (replicate 32 7) db = Inr (toy_info 7)"
    "\<not> Database_routerExists (replicate 32 6) db"
    using setRouterInfo_readable [OF toy_info_signed refl, of toy_hash 7 empty_db "[]"]
    by (auto simp: toy_info_hash routerExists_iff) (simp add: empty_db_def)
  from lookup_delivers [where ws = "\<lambda>_. toy_world" and msg = "Message_make 9 0 0 Garlic_body", OF toy_start [OF db] _ _ _ _ toy_answer_holds _ _ refl]
  show ?thesis
    by (intro exI [of _ db]) (auto simp: same_crypto_def toy_info_hash Let_def Message_make_def simp del: router_run_simps)
qed

lemma get_set_config: "Database_getConfigValue k (set_config n v db) = (if k = n then Inr v else Database_getConfigValue k db)"
  by (simp add: Database_getConfigValue_def set_config_def map_of_replaced del: map_of_append)

lemma createDb_keys:
  "\<exists>db'. Database_createDb e d db = Inr db' \<and> Database_getConfigValue (ascii ''private_encryption_key'') db' = Inr e \<and>
    Database_getConfigValue (ascii ''private_signing_key'') db' = Inr d \<and> db_routers_raw db' = db_routers_raw db"
  by (simp add: Database_createDb_def run_def get_set_config ascii_def) (simp add: set_config_def)

lemma toy_router_made:
  "\<exists>db i s0. db_reachable (\<lambda>x. x) toy_hash (\<lambda>k h s. s = replicate 40 9) db \<and> Database_routerExists (replicate 32 7) db \<and>
    RouterContext_make toy_world Inr Inr (replicate 256 0) (replicate 128 0) True db = Inr (i, s0)"
proof -
  let ?reach = "db_reachable (\<lambda>x. x) toy_hash (\<lambda>k h s. s = replicate 40 9)"
  obtain db where db: "Database_setRouterInfo toy_hash (toy_info 7) empty_db = Inr db" "Database_routerExists (replicate 32 7) db"
    using setRouterInfo_readable [OF toy_info_signed refl, of toy_hash 7 empty_db "[]"] by (auto simp: toy_info_hash)
  obtain db' where db': "Database_createDb [] [] db = Inr db'" "Database_getConfigValue (ascii ''private_encryption_key'') db' = Inr []"
    "Database_getConfigValue (ascii ''private_signing_key'') db' = Inr []" "db_routers_raw db' = db_routers_raw db"
    using createDb_keys [of "[]" "[]" db] by auto
  have "?reach db" by (rule db_reachable.step [OF db_reachable.start, of _ _ "Db_store (toy_info 7)"]) (simp_all add: db(1) toy_info_signed)
  then have "?reach db'" by (rule db_reachable.step [of _ _ _ _ "Db_create [] []"]) (simp_all add: db'(1))
  moreover have "Database_routerExists (replicate 32 7) db'" using db(2) db'(4) by (simp add: routerExists_iff)
  ultimately show ?thesis
    using db'(2,3) by (auto simp: RouterContext_make_def RouterIdentity_make_def copy_into_def case_prod_beta Let_def)
qed

theorem router_sound_witness:
  "\<exists>db i s0 s out err. Database_routerExists (replicate 32 7) db \<and>
     RouterContext_make toy_world Inr Inr (replicate 256 0) (replicate 128 0) True db = Inr (i, s0) \<and>
     router_run [(toy_world, Rt_received (replicate 32 7) 3 (short_bytes (w_env toy_world) toy_answer)), (toy_world, Rt_service),
       (toy_world, Rt_send (replicate 32 6) toy_answer), (toy_world, Rt_peers_timer (\<lambda>_. 0)), (toy_world, Rt_service)]
       (fst (Router_start (Router_addTransport s0))) = (s, out, err) \<and>
     db_wf (rt_db s) \<and> stored_ok (\<lambda>x. x) toy_hash (\<lambda>k h s. s = replicate 40 9) (rt_db s) \<and> sm_inv (df_searchManager (rt_dht s)) \<and>
     (\<forall>ri. Out_node (Tr_connect ri) \<in> set out \<longrightarrow> signed_info (\<lambda>x. x) (\<lambda>k h s. s = replicate 40 9) ri)"
proof -
  obtain db i s0 where d: "db_reachable (\<lambda>x. x) toy_hash (\<lambda>k h s. s = replicate 40 9) db" "Database_routerExists (replicate 32 7) db"
    "RouterContext_make toy_world Inr Inr (replicate 256 0) (replicate 128 0) True db = Inr (i, s0)"
    using toy_router_made by blast
  let ?evs = "[(toy_world, Rt_received (replicate 32 7) 3 (short_bytes (w_env toy_world) toy_answer)), (toy_world, Rt_service),
       (toy_world, Rt_send (replicate 32 6) toy_answer), (toy_world, Rt_peers_timer (\<lambda>_. 0)), (toy_world, Rt_service)]"
  obtain s out err where r: "router_run ?evs (fst (Router_start (Router_addTransport s0))) = (s, out, err)" by (metis prod_cases3)
  have "list_all (\<lambda>(w, ev). world_of (\<lambda>x. x) toy_hash (\<lambda>k h s. s = replicate 40 9) w) ?evs" by (simp add: world_of_def)
  from router_sound [OF d(1,3) this r] d(2,3) r show ?thesis by blast
qed

end
