(* ===== verification/C_Interface.thy ===== *)
theory C_Interface
  imports Router
begin

text \<open>
  The C interface of \<open>lib/i2p/c_api\<close>. A \<open>char *\<close> is the memory from the pointer on, as far as it may be read;
  a function that reads past it has the error \<open>Out_of_bounds\<close>. An exception crosses the interface as it is.
\<close>

definition c_string :: "bytes \<Rightarrow> bytes result" where
  "c_string mem = (if 0 \<in> set mem then Inr (takeWhile (\<lambda>b. b \<noteq> 0) mem) else Inl Out_of_bounds)"

definition i2p_util_to_routerhash :: "bytes \<Rightarrow> bytes result" where
  "i2p_util_to_routerhash hash = (if length hash < 32 then Inl Out_of_bounds else Inr (take 32 hash))"

definition i2p_db_create :: "bytes \<Rightarrow> bytes \<Rightarrow> Database \<Rightarrow> Database result" where
  "i2p_db_create elg_string dsa_string db = Database_createDb elg_string dsa_string db"

definition i2p_db_config_set :: "bytes \<Rightarrow> bytes \<Rightarrow> Database \<Rightarrow> Database result" where
  "i2p_db_config_set name val db =
     ebind (c_string name) (\<lambda>name. ebind (c_string val) (\<lambda>val. Database_setConfigValue name val db))"

text \<open>The size copied is that of one character. \<open>junk\<close> is the memory \<open>new\<close> returned.\<close>

definition i2p_db_config_get :: "bytes \<Rightarrow> bytes \<Rightarrow> Database \<Rightarrow> bytes result" where
  "i2p_db_config_get junk name db =
     ebind (c_string name) (\<lambda>name. ebind (Database_getConfigValue name db) (\<lambda>res.
       Inr (take 1 (res @ [0]) @ drop 1 (take (length res + 1) junk))))"

definition i2p_db_router_exists :: "bytes \<Rightarrow> Database \<Rightarrow> bool result" where
  "i2p_db_router_exists hash db = ebind (i2p_util_to_routerhash hash) (\<lambda>rh. Inr (Database_routerExists rh db))"

definition i2p_db_get_ri_via_hash ::
  "(bytes \<Rightarrow> bytes) \<Rightarrow> (bytes \<Rightarrow> bytes \<Rightarrow> bytes \<Rightarrow> bool) \<Rightarrow> bytes \<Rightarrow> Database \<Rightarrow> RouterInfo option result" where
  "i2p_db_get_ri_via_hash sha1 dsa_verify c_hash_str db =
     ebind (i2p_db_router_exists c_hash_str db) (\<lambda>known.
       if \<not> known then Inr None
       else ebind (c_string c_hash_str) (\<lambda>hash.
            ebind (Database_getRouterInfo_string sha1 dsa_verify hash db) (\<lambda>info. Inr (Some info))))"

definition i2p_router_start :: "Router \<Rightarrow> rt_result" where
  "i2p_router_start r = Router_start r"

definition i2p_router_stop :: "Router \<Rightarrow> Router" where
  "i2p_router_stop r = Router_stop r"

subsection \<open>Properties\<close>

lemma stored_id_length:
  assumes "stored_ok sha1 sha256 dsa_verify db" "\<forall>x. length (sha256 x) = 32" "(i, raw) \<in> set (db_routers_raw db)"
  shows "length i = 44"
proof -
  obtain ri where "signed_info sha1 dsa_verify ri" "i = encode (info_hash sha256 ri)"
    using assms(1,3) by (auto simp: stored_ok_def)
  with info_hash_length [OF this(1) assms(2)] show ?thesis by (simp add: encode_spec length_b64_spec)
qed

lemma c_string_terminated: "\<exists>s. c_string (h @ 0 # rest) = Inr s \<and> length s \<le> length h"
proof -
  have "length (takeWhile (\<lambda>b. b \<noteq> 0) (h @ 0 # rest)) \<le> length h" by (induction h) auto
  then show ?thesis by (simp add: c_string_def)
qed

text \<open>What a client of the C interface gets, on every database the router can come to. For a router that is
  there, named by the bytes of its hash, \<open>i2p_db_router_exists\<close> answers true, yet \<open>i2p_db_get_ri_via_hash\<close> throws:
  it passes the raw hash on where the encoded one is expected. \<open>i2p_db_config_get\<close> returns the first
  character of the value, followed by whatever was in memory.\<close>

theorem c_interface_lookups:
  assumes "db_reachable sha1 sha256 dsa_verify db" and "\<forall>x. length (sha256 x) = 32" and "Database_routerExists h db"
    and "Database_getConfigValue name db = Inr (b # val)" and "0 \<notin> set name" and "length junk = Suc (length (b # val))"
  shows "i2p_db_router_exists (h @ 0 # rest) db = Inr True \<and>
    i2p_db_get_ri_via_hash sha1 dsa_verify (h @ 0 # rest) db = Inl (Runtime_error ''router not found'') \<and>
    i2p_db_config_get junk (name @ [0]) db = Inr (b # tl junk)"
proof -
  have ok: "db_wf db" "stored_ok sha1 sha256 dsa_verify db" using reachable_ok [OF assms(1)] by auto
  have "length h = 32" using known_router [OF ok assms(3)] info_hash_length [OF _ assms(2)] by metis
  then have ex: "i2p_db_router_exists (h @ 0 # rest) db = Inr True"
    using assms(3) by (simp add: i2p_db_router_exists_def i2p_util_to_routerhash_def)
  obtain s where s: "c_string (h @ 0 # rest) = Inr s" "length s \<le> 32"
    using c_string_terminated [of h rest] \<open>length h = 32\<close> by auto
  have "map_of (db_routers_raw db) s = None"
    using stored_id_length [OF ok(2) assms(2), of s] s(2) by (force simp: map_of_eq_None_iff)
  then have ri: "i2p_db_get_ri_via_hash sha1 dsa_verify (h @ 0 # rest) db = Inl (Runtime_error ''router not found'')"
    by (simp add: i2p_db_get_ri_via_hash_def ex s(1) Database_getRouterInfo_string_def)
  have "takeWhile (\<lambda>b. b \<noteq> 0) (name @ [0]) = name" using assms(5) by (subst takeWhile_append2) auto
  then have "c_string (name @ [0]) = Inr name" by (simp add: c_string_def)
  then have "i2p_db_config_get junk (name @ [0]) db = Inr (b # tl junk)"
    using assms(4,6) by (simp add: i2p_db_config_get_def drop_Suc)
  with ex ri show ?thesis by blast
qed

theorem c_interface_lookups_witness:
  "\<exists>db. i2p_db_router_exists (replicate 32 7 @ [0]) db = Inr True \<and>
     i2p_db_get_ri_via_hash (\<lambda>x. x) (\<lambda>k h s. s = replicate 40 9) (replicate 32 7 @ [0]) db = Inl (Runtime_error ''router not found'') \<and>
     i2p_db_config_get [1, 2, 3] ([110] @ [0]) db = Inr [65, 2, 3]"
proof -
  let ?reach = "db_reachable (\<lambda>x. x) toy_hash (\<lambda>k h s. s = replicate 40 9)"
  obtain db where db: "Database_setRouterInfo toy_hash (toy_info 7) empty_db = Inr db" "Database_routerExists (replicate 32 7) db"
    using setRouterInfo_readable [OF toy_info_signed refl, of toy_hash 7 empty_db "[]"] by (auto simp: toy_info_hash)
  let ?db = "set_config [110] [65, 66] db"
  have "?reach db" by (rule db_reachable.step [OF db_reachable.start, of _ _ "Db_store (toy_info 7)"]) (simp_all add: db(1) toy_info_signed)
  then have "?reach ?db"
    by (rule db_reachable.step [of _ _ _ _ "Db_config [110] [65, 66]"]) (simp_all add: Database_setConfigValue_def exec_def run_def)
  moreover have "Database_routerExists (replicate 32 7) ?db" using db(2) by (simp add: routerExists_iff set_config_def)
  moreover have "\<forall>x. length (toy_hash x) = 32" by (auto simp: toy_hash_def)
  ultimately show ?thesis
    using c_interface_lookups [of "\<lambda>x. x" toy_hash "\<lambda>k h s. s = replicate 40 9" ?db "replicate 32 7" "[110]" 65 "[66]" "[1, 2, 3]" "[]"]
    by (intro exI [of _ ?db]) (simp add: get_set_config)
qed

end
