(* ===== verification/Gzip.thy ===== *)
theory Gzip
  imports Prelude
begin

text \<open>
  The compression filters of \<open>lib/util/gzip.cpp\<close>. zlib is a parameter: a stream of it is a value of \<open>'z\<close>,
  and a call of \<open>deflate\<close> or \<open>inflate\<close> with some input and room for some output answers the stream, how
  much it consumed, what it wrote and the return code. The loops of the filters may run forever on a library
  that makes no progress, so they are partial functions into \<open>option\<close>; with a library that behaves as
  documented they return, which is part of each property. What a filter sends to the next one is a list.
\<close>

subsection \<open>zlib\<close>

definition Z_NO_FLUSH :: int where "Z_NO_FLUSH = 0"
definition Z_FULL_FLUSH :: int where "Z_FULL_FLUSH = 3"
definition Z_FINISH :: int where "Z_FINISH = 4"
definition Z_OK :: int where "Z_OK = 0"
definition Z_STREAM_END :: int where "Z_STREAM_END = 1"
definition Z_NEED_DICT :: int where "Z_NEED_DICT = 2"
definition Z_STREAM_ERROR :: int where "Z_STREAM_ERROR = -2"
definition Z_DATA_ERROR :: int where "Z_DATA_ERROR = -3"
definition Z_MEM_ERROR :: int where "Z_MEM_ERROR = -4"
definition Z_BUF_ERROR :: int where "Z_BUF_ERROR = -5"
definition MAX_WBITS :: int where "MAX_WBITS = 15"

lemmas z_codes = Z_NO_FLUSH_def Z_FULL_FLUSH_def Z_FINISH_def Z_OK_def Z_STREAM_END_def Z_NEED_DICT_def Z_STREAM_ERROR_def
  Z_DATA_ERROR_def Z_MEM_ERROR_def Z_BUF_ERROR_def

text \<open>\<open>zl_buffer\<close> is Botan's \<open>DEFAULT_BUFFERSIZE\<close>.\<close>

record 'z zlib =
  zl_deflateInit2 :: "nat \<Rightarrow> int \<Rightarrow> 'z \<times> int"
  zl_deflate :: "'z \<Rightarrow> int \<Rightarrow> bytes \<Rightarrow> nat \<Rightarrow> 'z \<times> nat \<times> bytes \<times> int"
  zl_inflateInit2 :: "int \<Rightarrow> 'z \<times> int"
  zl_inflate :: "'z \<Rightarrow> bytes \<Rightarrow> nat \<Rightarrow> 'z \<times> nat \<times> bytes \<times> int"
  zl_buffer :: nat

text \<open>\<open>avail_in\<close> has 32 bits.\<close>

definition avail_of :: "bytes \<Rightarrow> nat" where
  "avail_of input = length input mod 2 ^ 32"

subsection \<open>The allocator\<close>

type_synonym Gzip_Alloc_Info = "nat \<rightharpoonup> nat"

text \<open>\<open>ptr\<close> is what \<open>malloc\<close> returned; the product has the width of its factors.\<close>

definition gzip_malloc :: "nat \<Rightarrow> u32 \<Rightarrow> u32 \<Rightarrow> Gzip_Alloc_Info \<Rightarrow> Gzip_Alloc_Info" where
  "gzip_malloc ptr n sz current_allocs = current_allocs(ptr \<mapsto> unat (n * sz))"

text \<open>The memory is wiped before it is given back; the entry stays.\<close>

definition gzip_free :: "nat \<Rightarrow> Gzip_Alloc_Info \<Rightarrow> (nat \<Rightarrow> byte) \<Rightarrow> (nat \<Rightarrow> byte) result" where
  "gzip_free ptr current_allocs mem =
     (case current_allocs ptr of
        None \<Rightarrow> Inl (Invalid_argument ''gzip_free: Got pointer not allocated by us'')
      | Some sz \<Rightarrow> Inr (\<lambda>a. if ptr \<le> a \<and> a < ptr + sz then 0 else mem a))"

text \<open>What was allocated is wiped, unless the product wrapped around; a second release of the same pointer is
  not noticed.\<close>

lemma gzip_free_wipes:
  "\<exists>mem'. gzip_free ptr (gzip_malloc ptr n sz allocs) mem = Inr mem' \<and>
    (unat n * unat sz < 2 ^ 32 \<longrightarrow> (\<forall>a. mem' a = (if ptr \<le> a \<and> a < ptr + unat n * unat sz then 0 else mem a))) \<and>
    gzip_free ptr (gzip_malloc ptr n sz allocs) mem' = Inr mem'"
  by (intro exI [of _ "\<lambda>a. if ptr \<le> a \<and> a < ptr + unat (n * sz) then 0 else mem a"])
    (auto simp: gzip_free_def gzip_malloc_def fun_eq_iff unat_word_ariths)

subsection \<open>Gzip_Compression\<close>

record 'z Gzip_Compression =
  gc_level :: nat
  gc_raw_deflate :: bool
  gc_gzip :: "'z option"
  gc_sent :: bytes

definition Gzip_Compression_make :: "nat \<Rightarrow> bool \<Rightarrow> 'z Gzip_Compression" where
  "Gzip_Compression_make l raw_deflate =
     \<lparr>gc_level = (if l \<ge> 9 then 9 else l), gc_raw_deflate = raw_deflate, gc_gzip = None, gc_sent = []\<rparr>"

definition Gzip_Compression_clear :: "'z Gzip_Compression \<Rightarrow> 'z Gzip_Compression" where
  "Gzip_Compression_clear g = g\<lparr>gc_gzip := None\<rparr>"

definition Gzip_Compression_start_msg :: "'z zlib \<Rightarrow> 'z Gzip_Compression \<Rightarrow> 'z Gzip_Compression \<times> cpp_error option" where
  "Gzip_Compression_start_msg zl g =
     (let g = Gzip_Compression_clear g;
          (z, res) = zl_deflateInit2 zl (gc_level g) (if gc_raw_deflate g then - 15 else MAX_WBITS + 16);
          g = g\<lparr>gc_gzip := Some z\<rparr>
      in if res = Z_STREAM_ERROR then (g, Some (Invalid_argument ''Bad setting in deflateInit2''))
         else if res \<noteq> Z_OK then (g, Some Memory_exhaustion)
         else (g, None))"

partial_function (option) deflate_loop :: "'z zlib \<Rightarrow> 'z \<Rightarrow> bytes \<Rightarrow> bytes \<Rightarrow> ('z \<times> bytes) option" where
  "deflate_loop zl z input sent =
     (if input = [] then Some (z, sent)
      else case zl_deflate zl z Z_NO_FLUSH input (zl_buffer zl) of
        (z', c, out, _) \<Rightarrow> deflate_loop zl z' (drop c input) (sent @ out))"

definition Gzip_Compression_write :: "'z zlib \<Rightarrow> bytes \<Rightarrow> 'z Gzip_Compression \<Rightarrow> ('z Gzip_Compression \<times> cpp_error option) option" where
  "Gzip_Compression_write zl input g =
     (case gc_gzip g of
        None \<Rightarrow> Some (g, Some Null_dereference)
      | Some z \<Rightarrow> map_option (\<lambda>(z, sent). (g\<lparr>gc_gzip := Some z, gc_sent := sent\<rparr>, None))
          (deflate_loop zl z (take (avail_of input) input) (gc_sent g)))"

partial_function (option) finish_loop :: "'z zlib \<Rightarrow> 'z \<Rightarrow> bytes \<Rightarrow> ('z \<times> bytes) option" where
  "finish_loop zl z sent =
     (case zl_deflate zl z Z_FINISH [] (zl_buffer zl) of
        (z', _, out, rc) \<Rightarrow> if rc = Z_STREAM_END then Some (z', sent @ out) else finish_loop zl z' (sent @ out))"

definition Gzip_Compression_end_msg :: "'z zlib \<Rightarrow> 'z Gzip_Compression \<Rightarrow> ('z Gzip_Compression \<times> cpp_error option) option" where
  "Gzip_Compression_end_msg zl g =
     (case gc_gzip g of
        None \<Rightarrow> Some (g, Some Null_dereference)
      | Some z \<Rightarrow> map_option (\<lambda>(z, sent). (Gzip_Compression_clear (g\<lparr>gc_gzip := Some z, gc_sent := sent\<rparr>), None))
          (finish_loop zl z (gc_sent g)))"

partial_function (option) gzip_flush_loop :: "'z zlib \<Rightarrow> 'z \<Rightarrow> bytes \<Rightarrow> ('z \<times> bytes) option" where
  "gzip_flush_loop zl z sent =
     (case zl_deflate zl z Z_FULL_FLUSH [] (zl_buffer zl) of
        (z', _, out, _) \<Rightarrow> if out = [] then Some (z', sent) else gzip_flush_loop zl z' (sent @ out))"

definition Gzip_Compression_flush :: "'z zlib \<Rightarrow> 'z Gzip_Compression \<Rightarrow> ('z Gzip_Compression \<times> cpp_error option) option" where
  "Gzip_Compression_flush zl g =
     (case gc_gzip g of
        None \<Rightarrow> Some (g, Some Null_dereference)
      | Some z \<Rightarrow> map_option (\<lambda>(z, sent). (g\<lparr>gc_gzip := Some z, gc_sent := sent\<rparr>, None)) (gzip_flush_loop zl z (gc_sent g)))"

subsection \<open>Gzip_Decompression\<close>

record 'z Gzip_Decompression =
  gd_raw_deflate :: bool
  gd_gzip :: "'z option"
  gd_no_writes :: bool
  gd_sent :: bytes

definition Gzip_Decompression_make :: "bool \<Rightarrow> 'z Gzip_Decompression" where
  "Gzip_Decompression_make raw_deflate = \<lparr>gd_raw_deflate = raw_deflate, gd_gzip = None, gd_no_writes = True, gd_sent = []\<rparr>"

definition Gzip_Decompression_clear :: "'z Gzip_Decompression \<Rightarrow> 'z Gzip_Decompression" where
  "Gzip_Decompression_clear g = g\<lparr>gd_no_writes := True, gd_gzip := None\<rparr>"

definition new_inflate :: "'z zlib \<Rightarrow> 'z Gzip_Decompression \<Rightarrow> 'z Gzip_Decompression \<times> cpp_error option" where
  "new_inflate zl g =
     (let g = Gzip_Decompression_clear g;
          (z, res) = zl_inflateInit2 zl (if gd_raw_deflate g then - 15 else MAX_WBITS + 32)
      in (g\<lparr>gd_gzip := Some z\<rparr>, if res \<noteq> Z_OK then Some Memory_exhaustion else None))"

definition Gzip_Decompression_start_msg :: "'z zlib \<Rightarrow> 'z Gzip_Decompression \<Rightarrow> 'z Gzip_Decompression \<times> cpp_error option" where
  "Gzip_Decompression_start_msg zl g = new_inflate zl g"

definition inflate_error :: "int \<Rightarrow> cpp_error" where
  "inflate_error rc =
     (if rc = Z_DATA_ERROR then Decoding_error ''Gzip_Decompression: Data integrity error''
      else if rc = Z_NEED_DICT then Decoding_error ''Gzip_Decompression: Need preset dictionary''
      else if rc = Z_MEM_ERROR then Memory_exhaustion
      else Runtime_error ''Gzip decompression: Unknown error'')"

text \<open>\<open>input\<close> is the rest of the array from the pointer of that name on, \<open>next_in\<close> from the stream's.\<close>

partial_function (option) inflate_loop ::
  "'z zlib \<Rightarrow> bytes \<Rightarrow> bytes \<Rightarrow> nat \<Rightarrow> 'z Gzip_Decompression \<Rightarrow> ('z Gzip_Decompression \<times> cpp_error option) option" where
  "inflate_loop zl input next_in avail_in g =
     (if avail_in = 0 then Some (g, None)
      else case gd_gzip g of
        None \<Rightarrow> Some (g, Some Null_dereference)
      | Some z \<Rightarrow>
          (case zl_inflate zl z (take avail_in next_in) (zl_buffer zl) of
             (z', c, out, rc) \<Rightarrow>
               if rc \<noteq> Z_OK \<and> rc \<noteq> Z_STREAM_END then Some (Gzip_Decompression_clear g, Some (inflate_error rc))
               else if rc = Z_STREAM_END
               then let read_from_block = length input - (avail_in - c);
                        (g, err) = new_inflate zl (g\<lparr>gd_sent := gd_sent g @ out\<rparr>)
                    in case err of
                         Some err \<Rightarrow> Some (g, Some err)
                       | None \<Rightarrow> inflate_loop zl (drop read_from_block input) (drop read_from_block input)
                           ((length input - read_from_block) mod 2 ^ 32) g
               else inflate_loop zl input (drop c next_in) (avail_in - c) (g\<lparr>gd_gzip := Some z', gd_sent := gd_sent g @ out\<rparr>)))"

definition Gzip_Decompression_write ::
  "'z zlib \<Rightarrow> bytes \<Rightarrow> 'z Gzip_Decompression \<Rightarrow> ('z Gzip_Decompression \<times> cpp_error option) option" where
  "Gzip_Decompression_write zl input_arr g =
     (let g = (if input_arr \<noteq> [] then g\<lparr>gd_no_writes := False\<rparr> else g)
      in case gd_gzip g of
           None \<Rightarrow> Some (g, Some Null_dereference)
         | Some _ \<Rightarrow> inflate_loop zl input_arr input_arr (avail_of input_arr) g)"

partial_function (option) finalize_loop ::
  "'z zlib \<Rightarrow> 'z \<Rightarrow> 'z Gzip_Decompression \<Rightarrow> ('z Gzip_Decompression \<times> cpp_error option) option" where
  "finalize_loop zl z g =
     (case zl_inflate zl z [] (zl_buffer zl) of
        (z', c, out, rc) \<Rightarrow>
          if rc \<noteq> Z_OK \<and> rc \<noteq> Z_STREAM_END
          then Some (Gzip_Decompression_clear g, Some (Decoding_error ''Gzip_Decompression: Error finalizing''))
          else if rc = Z_STREAM_END then Some (Gzip_Decompression_clear (g\<lparr>gd_sent := gd_sent g @ out\<rparr>), None)
          else finalize_loop zl z' (g\<lparr>gd_gzip := Some z', gd_sent := gd_sent g @ out\<rparr>))"

definition Gzip_Decompression_end_msg ::
  "'z zlib \<Rightarrow> 'z Gzip_Decompression \<Rightarrow> ('z Gzip_Decompression \<times> cpp_error option) option" where
  "Gzip_Decompression_end_msg zl g =
     (if gd_no_writes g then Some (g, None)
      else case gd_gzip g of None \<Rightarrow> Some (g, Some Null_dereference) | Some z \<Rightarrow> finalize_loop zl z g)"

subsection \<open>What the handlers do with them\<close>

text \<open>A pipe of one filter: \<open>start_msg\<close>, \<open>write\<close>, \<open>end_msg\<close>, then everything is read.\<close>

definition gzip_step ::
  "('s \<times> cpp_error option) option \<Rightarrow> ('s \<Rightarrow> ('s \<times> cpp_error option) option) \<Rightarrow> ('s \<times> cpp_error option) option" where
  "gzip_step r f = (case r of Some (g, None) \<Rightarrow> f g | _ \<Rightarrow> r)"

definition gzip_result :: "('s \<Rightarrow> bytes) \<Rightarrow> ('s \<times> cpp_error option) option \<Rightarrow> bytes result option" where
  "gzip_result sent r = map_option (\<lambda>(g, err). case err of None \<Rightarrow> Inr (sent g) | Some err \<Rightarrow> Inl err) r"

definition gzip :: "'z zlib \<Rightarrow> bytes \<Rightarrow> bytes result option" where
  "gzip zl data =
     gzip_result gc_sent (gzip_step (gzip_step (Some (Gzip_Compression_start_msg zl (Gzip_Compression_make 6 False)))
       (Gzip_Compression_write zl data)) (Gzip_Compression_end_msg zl))"

definition gunzip :: "'z zlib \<Rightarrow> bytes \<Rightarrow> bytes result option" where
  "gunzip zl data =
     gzip_result gd_sent (gzip_step (gzip_step (Some (Gzip_Decompression_start_msg zl (Gzip_Decompression_make False)))
       (Gzip_Decompression_write zl data)) (Gzip_Decompression_end_msg zl))"

subsection \<open>What zlib documents\<close>

text \<open>\<open>todo z xs out\<close>: the inflating stream \<open>z\<close> still needs exactly the bytes \<open>xs\<close> to the end of the member it is in,
  and has still to write \<open>out\<close>. A call given bytes of the member, and perhaps more behind it, never takes
  more than the member, writes what is due in order, and makes progress; without input and without
  anything to write it answers \<open>Z_BUF_ERROR\<close>.\<close>

definition inflates :: "'z zlib \<Rightarrow> ('z \<Rightarrow> bytes \<Rightarrow> bytes \<Rightarrow> bool) \<Rightarrow> bool" where
  "inflates zl todo \<longleftrightarrow> (\<forall>z xs out inp z' c o1 rc. todo z xs out \<longrightarrow> prefix inp xs \<or> prefix xs inp \<longrightarrow>
     zl_inflate zl z inp (zl_buffer zl) = (z', c, o1, rc) \<longrightarrow>
     c \<le> length inp \<and> c \<le> length xs \<and> prefix o1 out \<and>
     (rc = Z_STREAM_END \<and> c = length xs \<and> o1 = out \<or>
      rc = Z_OK \<and> todo z' (drop c xs) (drop (length o1) out) \<and> (c > 0 \<or> o1 \<noteq> []) \<or>
      rc = Z_BUF_ERROR \<and> inp = [] \<and> xs \<noteq> []))"

text \<open>\<open>xs\<close> is a gzip member that holds \<open>out\<close>.\<close>

definition gzip_member :: "'z zlib \<Rightarrow> ('z \<Rightarrow> bytes \<Rightarrow> bytes \<Rightarrow> bool) \<Rightarrow> bytes \<Rightarrow> bytes \<Rightarrow> bool" where
  "gzip_member zl todo xs out \<longleftrightarrow> xs \<noteq> [] \<and> (case zl_inflateInit2 zl (MAX_WBITS + 32) of (z, res) \<Rightarrow> res = Z_OK \<and> todo z xs out)"

text \<open>\<open>made z d e\<close>: the deflating stream \<open>z\<close> was given \<open>d\<close> and has written \<open>e\<close>; \<open>closing\<close> is the same once it
  was told to finish. Every call makes progress, what is written is bounded in the length of what was
  given (\<open>deflateBound\<close>), and what is written when the stream ends is a member that holds what was given.\<close>

definition deflates ::
  "'z zlib \<Rightarrow> ('z \<Rightarrow> bytes \<Rightarrow> bytes \<Rightarrow> bool) \<Rightarrow> ('z \<Rightarrow> bytes \<Rightarrow> bytes \<Rightarrow> bool) \<Rightarrow> ('z \<Rightarrow> bytes \<Rightarrow> bytes \<Rightarrow> bool) \<Rightarrow> (nat \<Rightarrow> nat) \<Rightarrow> bool" where
  "deflates zl todo made closing deflateBound \<longleftrightarrow> mono deflateBound \<and>
     (case zl_deflateInit2 zl 6 (MAX_WBITS + 16) of (z, res) \<Rightarrow> res = Z_OK \<and> made z [] []) \<and>
     (\<forall>z d e. made z d e \<or> closing z d e \<longrightarrow> length e \<le> deflateBound (length d)) \<and>
     (\<forall>z d e inp z' c o1 rc. made z d e \<longrightarrow> inp \<noteq> [] \<longrightarrow> zl_deflate zl z Z_NO_FLUSH inp (zl_buffer zl) = (z', c, o1, rc) \<longrightarrow>
        c \<le> length inp \<and> (c > 0 \<or> o1 \<noteq> []) \<and> made z' (d @ take c inp) (e @ o1)) \<and>
     (\<forall>z d e z' c o1 rc. made z d e \<or> closing z d e \<longrightarrow> zl_deflate zl z Z_FINISH [] (zl_buffer zl) = (z', c, o1, rc) \<longrightarrow>
        (if rc = Z_STREAM_END then gzip_member zl todo (e @ o1) d \<and> length (e @ o1) \<le> deflateBound (length d)
         else o1 \<noteq> [] \<and> closing z' d (e @ o1)))"

subsection \<open>The decompression loops\<close>

lemma inflatesD:
  assumes "inflates zl todo" "todo z xs out" "prefix inp xs \<or> prefix xs inp"
  obtains z' c o1 o2 rc where "zl_inflate zl z inp (zl_buffer zl) = (z', c, o1, rc)" "out = o1 @ o2" "c \<le> length inp" "c \<le> length xs"
    "rc = Z_STREAM_END \<and> c = length xs \<and> o2 = [] \<or> rc = Z_OK \<and> todo z' (drop c xs) o2 \<and> length (drop c xs) + length o2 < length xs + length out \<or>
     rc = Z_BUF_ERROR \<and> inp = [] \<and> xs \<noteq> []"
proof -
  obtain z' c o1 rc where r: "zl_inflate zl z inp (zl_buffer zl) = (z', c, o1, rc)" by (metis prod_cases4)
  have l: "c \<le> length inp" "c \<le> length xs" "prefix o1 out"
    "rc = Z_STREAM_END \<and> c = length xs \<and> o1 = out \<or>
      rc = Z_OK \<and> todo z' (drop c xs) (drop (length o1) out) \<and> (c > 0 \<or> o1 \<noteq> []) \<or>
      rc = Z_BUF_ERROR \<and> inp = [] \<and> xs \<noteq> []"
    using assms r unfolding inflates_def by blast+
  then obtain o2 where o: "out = o1 @ o2" by (auto simp: prefix_def)
  have "length (drop c xs) + length o2 < length xs + length out" if "c > 0 \<or> o1 \<noteq> []"
    using that l(2) o by (cases o1) auto
  with l r o show thesis by (intro that [of z' c o1 rc o2]) auto
qed

text \<open>A proper beginning of a member is consumed, and more is expected.\<close>

lemma feed_prefix:
  assumes "inflates zl todo" "todo z (ts @ rest) out" "rest \<noteq> []" "gd_gzip g = Some z"
  shows "\<exists>z' o1 o2. inflate_loop zl input ts (length ts) g = Some (g\<lparr>gd_gzip := Some z', gd_sent := gd_sent g @ o1\<rparr>, None) \<and>
    out = o1 @ o2 \<and> todo z' rest o2"
  using assms(2,4)
proof (induction "length ts + length out" arbitrary: ts z out g rule: less_induct)
  case less
  show ?case
  proof (cases "ts = []")
    case True
    with less.prems show ?thesis
      by (intro exI [of _ z] exI [of _ "[]"] exI [of _ out]) (simp add: inflate_loop.simps)
  next
    case False
    have "prefix ts (ts @ rest) \<or> prefix (ts @ rest) ts" by simp
    with assms(1) less.prems(1) obtain z' c o1 o2 rc where r: "zl_inflate zl z ts (zl_buffer zl) = (z', c, o1, rc)"
      "out = o1 @ o2" "c \<le> length ts"
      "rc = Z_STREAM_END \<and> c = length (ts @ rest) \<or> rc = Z_OK \<and> todo z' (drop c (ts @ rest)) o2 \<and> length (drop c (ts @ rest)) + length o2 < length (ts @ rest) + length out \<or>
       rc = Z_BUF_ERROR \<and> ts = []"
      by (elim inflatesD) blast+
    have ok: "rc = Z_OK" "todo z' (drop c ts @ rest) o2" "length (drop c ts) + length o2 < length ts + length out"
      using r(3,4) False assms(3) by auto
    let ?g = "g\<lparr>gd_gzip := Some z', gd_sent := gd_sent g @ o1\<rparr>"
    have "inflate_loop zl input ts (length ts) g = inflate_loop zl input (drop c ts) (length (drop c ts)) ?g"
      using False less.prems(2) r(1) ok(1) by (subst inflate_loop.simps) (simp add: z_codes)
    moreover obtain z'' p1 p2 where
      "inflate_loop zl input (drop c ts) (length (drop c ts)) ?g = Some (?g\<lparr>gd_gzip := Some z'', gd_sent := gd_sent ?g @ p1\<rparr>, None)"
      "o2 = p1 @ p2" "todo z'' rest p2"
      using less.hyps [OF ok(3,2), of ?g] by auto
    ultimately show ?thesis using r(2)
      by (intro exI [of _ z''] exI [of _ "o1 @ p1"] exI [of _ p2]) simp
  qed
qed

text \<open>A member is consumed to its end, where a new stream is opened for what follows; if nothing follows, the
  end may still be due.\<close>

definition reopened :: "'z zlib \<Rightarrow> bytes \<Rightarrow> 'z Gzip_Decompression \<Rightarrow> 'z Gzip_Decompression" where
  "reopened zl sent g = g\<lparr>gd_sent := sent, gd_no_writes := True, gd_gzip := Some (fst (zl_inflateInit2 zl (MAX_WBITS + 32)))\<rparr>"

lemma feed_member:
  assumes "inflates zl todo" "snd (zl_inflateInit2 zl (MAX_WBITS + 32)) = Z_OK" "length input < 2 ^ 32"
    and "todo z xs out" "gd_gzip g = Some z" "\<not> gd_raw_deflate g" "suffix (xs @ ys) input"
  shows "inflate_loop zl input (xs @ ys) (length (xs @ ys)) g = inflate_loop zl ys ys (length ys) (reopened zl (gd_sent g @ out) g) \<or>
    ys = [] \<and> (\<exists>z' o1 o2. inflate_loop zl input (xs @ ys) (length (xs @ ys)) g =
        Some (g\<lparr>gd_gzip := Some z', gd_sent := gd_sent g @ o1\<rparr>, None) \<and> out = o1 @ o2 \<and> todo z' [] o2)"
  using assms(4-7)
proof (induction "length xs + length out" arbitrary: xs z out g rule: less_induct)
  case less
  show ?case
  proof (cases "xs @ ys = []")
    case True
    with less.prems show ?thesis
      by (intro disjI2 conjI exI [of _ z] exI [of _ "[]"] exI [of _ out]) (simp_all add: inflate_loop.simps)
  next
    case False
    have "prefix (xs @ ys) xs \<or> prefix xs (xs @ ys)" by simp
    with assms(1) less.prems(1) obtain z' c o1 o2 rc where r: "zl_inflate zl z (xs @ ys) (zl_buffer zl) = (z', c, o1, rc)"
      "out = o1 @ o2" "c \<le> length xs"
      "rc = Z_STREAM_END \<and> c = length xs \<and> o2 = [] \<or> rc = Z_OK \<and> todo z' (drop c xs) o2 \<and> length (drop c xs) + length o2 < length xs + length out"
      using False by (elim inflatesD) blast+
    from r(4) show ?thesis
    proof
      assume e: "rc = Z_STREAM_END \<and> c = length xs \<and> o2 = []"
      obtain pre where pre: "input = pre @ xs @ ys" using less.prems(4) by (auto simp: suffix_def)
      have "inflate_loop zl input (xs @ ys) (length (xs @ ys)) g = inflate_loop zl ys ys (length ys) (reopened zl (gd_sent g @ out) g)"
        using False less.prems(2,3) r(1,2) e assms(2,3)
        by (subst inflate_loop.simps) (auto simp: pre z_codes new_inflate_def Gzip_Decompression_clear_def case_prod_beta reopened_def)
      then show ?thesis ..
    next
      assume ok: "rc = Z_OK \<and> todo z' (drop c xs) o2 \<and> length (drop c xs) + length o2 < length xs + length out"
      let ?g = "g\<lparr>gd_gzip := Some z', gd_sent := gd_sent g @ o1\<rparr>"
      have step: "inflate_loop zl input (xs @ ys) (length (xs @ ys)) g =
          inflate_loop zl input (drop c xs @ ys) (length (drop c xs @ ys)) ?g"
        using False less.prems(2) r(1,3) ok by (subst inflate_loop.simps) (auto simp: z_codes)
      have "suffix (drop c xs @ ys) input"
        using less.prems(4) r(3) by (metis append_assoc append_take_drop_id suffix_def)
      then have "inflate_loop zl input (drop c xs @ ys) (length (drop c xs @ ys)) ?g =
          inflate_loop zl ys ys (length ys) (reopened zl (gd_sent ?g @ o2) ?g) \<or>
        ys = [] \<and> (\<exists>z'' p1 p2. inflate_loop zl input (drop c xs @ ys) (length (drop c xs @ ys)) ?g =
            Some (?g\<lparr>gd_gzip := Some z'', gd_sent := gd_sent ?g @ p1\<rparr>, None) \<and> o2 = p1 @ p2 \<and> todo z'' [] p2)"
        using ok less.prems by (intro less.hyps) auto
      moreover have "reopened zl (gd_sent ?g @ o2) ?g = reopened zl (gd_sent g @ out) g"
        by (simp add: reopened_def r(2))
      moreover have "?g\<lparr>gd_gzip := Some z'', gd_sent := gd_sent ?g @ p1\<rparr> = g\<lparr>gd_gzip := Some z'', gd_sent := gd_sent g @ o1 @ p1\<rparr>" for z'' p1
        by simp
      ultimately show ?thesis unfolding step r(2) by (metis append_assoc)
    qed
  qed
qed

lemma finalize_complete:
  assumes "inflates zl todo" "todo z [] out"
  shows "finalize_loop zl z g = Some (Gzip_Decompression_clear (g\<lparr>gd_sent := gd_sent g @ out\<rparr>), None)"
  using assms(2)
proof (induction "length out" arbitrary: z out g rule: less_induct)
  case less
  from assms(1) less.prems obtain z' c o1 o2 rc where r: "zl_inflate zl z [] (zl_buffer zl) = (z', c, o1, rc)" "out = o1 @ o2"
    "rc = Z_STREAM_END \<and> o2 = [] \<or> rc = Z_OK \<and> todo z' [] o2 \<and> length o2 < length out"
    by (elim inflatesD [of _ _ _ _ _ "[]"]) auto
  then show ?case
    using less.hyps [of o2 z'] by (subst finalize_loop.simps) (auto simp: z_codes Gzip_Decompression_clear_def)
qed

lemma finalize_truncated:
  assumes "inflates zl todo" "todo z xs out" "xs \<noteq> []"
  shows "\<exists>g'. finalize_loop zl z g = Some (g', Some (Decoding_error ''Gzip_Decompression: Error finalizing''))"
  using assms(2)
proof (induction "length out" arbitrary: z out g rule: less_induct)
  case less
  have "prefix [] xs \<or> prefix xs []" by simp
  with assms(1) less.prems obtain z' c o1 o2 rc where "zl_inflate zl z [] (zl_buffer zl) = (z', c, o1, rc)" "c \<le> length ([] :: bytes)"
    "rc = Z_STREAM_END \<and> c = length xs \<or> rc = Z_OK \<and> todo z' (drop c xs) o2 \<and> length (drop c xs) + length o2 < length xs + length out \<or> rc = Z_BUF_ERROR"
    by (elim inflatesD) blast+
  then have r: "zl_inflate zl z [] (zl_buffer zl) = (z', 0, o1, rc)" "rc = Z_BUF_ERROR \<or> rc = Z_OK \<and> todo z' xs o2 \<and> length o2 < length out"
    using assms(3) by auto
  then show ?case
    using less.hyps [of o2 z'] by (subst finalize_loop.simps) (auto simp: z_codes)
qed

subsection \<open>The compression loops\<close>

lemma deflate_loop_makes:
  assumes "deflates zl todo made closing bd" "made z d e"
  shows "\<exists>z' o1. deflate_loop zl z input sent = Some (z', sent @ o1) \<and> made z' (d @ input) (e @ o1)"
  using assms(2)
proof (induction "length input + (bd (length (d @ input)) - length e)" arbitrary: input z d e sent rule: less_induct)
  case less
  show ?case
  proof (cases "input = []")
    case True
    with less.prems show ?thesis by (intro exI [of _ z] exI [of _ "[]"]) (simp add: deflate_loop.simps)
  next
    case False
    obtain z' c o1 rc where r: "zl_deflate zl z Z_NO_FLUSH input (zl_buffer zl) = (z', c, o1, rc)" by (metis prod_cases4)
    have m: "c \<le> length input" "c > 0 \<or> o1 \<noteq> []" "made z' (d @ take c input) (e @ o1)"
      using assms(1) less.prems False r unfolding deflates_def by blast+
    have b: "length (e @ o1) \<le> bd (length (d @ take c input))" "mono bd"
      using assms(1) m(3) unfolding deflates_def by blast+
    have "bd (length (d @ take c input)) \<le> bd (length (d @ input))" by (intro monoD [OF b(2)]) simp
    with b(1) have "length (drop c input) + (bd (length ((d @ take c input) @ drop c input)) - length (e @ o1)) <
        length input + (bd (length (d @ input)) - length e)"
      using m(1,2) by (cases o1) auto
    from less.hyps [OF this m(3)] obtain z'' p1 where
      "deflate_loop zl z' (drop c input) (sent @ o1) = Some (z'', (sent @ o1) @ p1)" "made z'' (d @ input) ((e @ o1) @ p1)"
      by (metis append_assoc append_take_drop_id)
    then show ?thesis
      using False r by (intro exI [of _ z''] exI [of _ "o1 @ p1"]) (simp add: deflate_loop.simps)
  qed
qed

lemma finish_loop_ends:
  assumes "deflates zl todo made closing bd" "made z d e \<or> closing z d e"
  shows "\<exists>z' o1. finish_loop zl z sent = Some (z', sent @ o1) \<and> gzip_member zl todo (e @ o1) d \<and> length (e @ o1) \<le> bd (length d)"
  using assms(2)
proof (induction "bd (length d) - length e" arbitrary: z e sent rule: less_induct)
  case less
  obtain z' c o1 rc where r: "zl_deflate zl z Z_FINISH [] (zl_buffer zl) = (z', c, o1, rc)" by (metis prod_cases4)
  have m: "if rc = Z_STREAM_END then gzip_member zl todo (e @ o1) d \<and> length (e @ o1) \<le> bd (length d) else o1 \<noteq> [] \<and> closing z' d (e @ o1)"
    using assms(1) less.prems r unfolding deflates_def by blast
  show ?case
  proof (cases "rc = Z_STREAM_END")
    case True
    with m r show ?thesis by (subst finish_loop.simps) auto
  next
    case False
    with m have c: "o1 \<noteq> []" "closing z' d (e @ o1)" by auto
    then have "length (e @ o1) \<le> bd (length d)" using assms(1) unfolding deflates_def by blast
    then have "bd (length d) - length (e @ o1) < bd (length d) - length e" using c(1) by (cases o1) auto
    from less.hyps [OF this disjI2 [OF c(2)]] obtain z'' p1 where
      "finish_loop zl z' (sent @ o1) = Some (z'', (sent @ o1) @ p1)" "gzip_member zl todo ((e @ o1) @ p1) d" "length ((e @ o1) @ p1) \<le> bd (length d)"
      by blast
    with False r show ?thesis
      by (intro exI [of _ z''] exI [of _ "o1 @ p1"]) (simp add: finish_loop.simps)
  qed
qed

lemma avail_all: "length xs < 2 ^ 32 \<Longrightarrow> avail_of xs = length xs"
  by (simp add: avail_of_def)

lemma gzip_makes:
  assumes "deflates zl todo made closing bd" "length data < 2 ^ 32"
  shows "\<exists>ys. gzip zl data = Some (Inr ys) \<and> gzip_member zl todo ys data \<and> length ys \<le> bd (length data)"
proof -
  obtain z where z: "zl_deflateInit2 zl 6 (MAX_WBITS + 16) = (z, Z_OK)" "made z [] []"
    using assms(1) unfolding deflates_def by (auto split: prod.splits)
  obtain z1 o1 where w: "deflate_loop zl z data [] = Some (z1, o1)" "made z1 data o1"
    using deflate_loop_makes [OF assms(1) z(2), of data "[]"] by auto
  obtain z2 o2 where "finish_loop zl z1 o1 = Some (z2, o1 @ o2)" "gzip_member zl todo (o1 @ o2) data" "length (o1 @ o2) \<le> bd (length data)"
    using finish_loop_ends [OF assms(1) disjI1 [OF w(2)], of o1] by blast
  then show ?thesis
    using assms(2)
    by (intro exI [of _ "o1 @ o2"])
      (simp add: gzip_def gzip_step_def gzip_result_def Gzip_Compression_start_msg_def Gzip_Compression_clear_def Gzip_Compression_make_def
        z(1) z_codes Gzip_Compression_write_def Gzip_Compression_end_msg_def avail_all w(1))
qed

subsection \<open>Whole messages\<close>

lemma gzip_step_simps:
  "gzip_step (Some (g, None)) f = f g" "gzip_step (Some (g, Some err)) f = Some (g, Some err)" "gzip_step None f = None"
  by (simp_all add: gzip_step_def)

lemma gunzip_unfold:
  assumes "gzip_member zl todo xs out" "D \<noteq> []" "length D < 2 ^ 32"
  shows "gunzip zl D = gzip_result gd_sent (gzip_step (inflate_loop zl D D (length D)
      \<lparr>gd_raw_deflate = False, gd_gzip = Some (fst (zl_inflateInit2 zl (MAX_WBITS + 32))), gd_no_writes = False, gd_sent = []\<rparr>)
      (Gzip_Decompression_end_msg zl))"
  using assms
  by (auto simp: gzip_member_def gunzip_def gzip_step_simps Gzip_Decompression_start_msg_def new_inflate_def Gzip_Decompression_make_def
      Gzip_Decompression_clear_def Gzip_Decompression_write_def avail_all split: prod.splits)

lemma gzip_memberD:
  assumes "gzip_member zl todo xs out"
  shows "xs \<noteq> []" "snd (zl_inflateInit2 zl (MAX_WBITS + 32)) = Z_OK" "todo (fst (zl_inflateInit2 zl (MAX_WBITS + 32))) xs out"
  using assms by (auto simp: gzip_member_def split: prod.splits)

lemma gunzip_member:
  assumes "inflates zl todo" "gzip_member zl todo xs out" "length xs < 2 ^ 32"
  shows "gunzip zl xs = Some (Inr out)"
proof -
  note m = gzip_memberD [OF assms(2)]
  let ?g = "\<lparr>gd_raw_deflate = False, gd_gzip = Some (fst (zl_inflateInit2 zl (MAX_WBITS + 32))), gd_no_writes = False, gd_sent = []\<rparr>"
  have "inflate_loop zl xs xs (length xs) ?g = inflate_loop zl [] [] 0 (reopened zl out ?g) \<or>
      (\<exists>z' o1 o2. inflate_loop zl xs xs (length xs) ?g = Some (?g\<lparr>gd_gzip := Some z', gd_sent := o1\<rparr>, None) \<and> out = o1 @ o2 \<and> todo z' [] o2)"
    using feed_member [OF assms(1) m(2) assms(3) m(3), of ?g "[]"] by simp
  then show ?thesis
    unfolding gunzip_unfold [OF assms(2) m(1) assms(3)]
    by (auto simp: inflate_loop.simps [of _ "[]"] gzip_step_def gzip_result_def reopened_def Gzip_Decompression_end_msg_def
        finalize_complete [OF assms(1)] Gzip_Decompression_clear_def)
qed

lemma gunzip_truncated:
  assumes "inflates zl todo" "gzip_member zl todo (ts @ rest) out" "ts \<noteq> []" "rest \<noteq> []" "length ts < 2 ^ 32"
  shows "gunzip zl ts = Some (Inl (Decoding_error ''Gzip_Decompression: Error finalizing''))"
proof -
  note m = gzip_memberD [OF assms(2)]
  let ?g = "\<lparr>gd_raw_deflate = False, gd_gzip = Some (fst (zl_inflateInit2 zl (MAX_WBITS + 32))), gd_no_writes = False, gd_sent = []\<rparr>"
  obtain z' o1 o2 where r: "inflate_loop zl ts ts (length ts) ?g = Some (?g\<lparr>gd_gzip := Some z', gd_sent := o1\<rparr>, None)" "todo z' rest o2"
    using feed_prefix [OF assms(1) m(3) assms(4), of ?g ts] by auto
  from finalize_truncated [OF assms(1) r(2) assms(4), of "?g\<lparr>gd_gzip := Some z', gd_sent := o1\<rparr>"] r(1) show ?thesis
    unfolding gunzip_unfold [OF assms(2,3,5)]
    by (auto simp: gzip_step_def gzip_result_def Gzip_Decompression_end_msg_def)
qed

text \<open>Members one after the other, then \<open>ts\<close>: the stream is reopened after each of them, and the filter forgets that it
  was written to.\<close>

lemma feed_members:
  assumes "inflates zl todo" "\<forall>z out. \<not> todo z [] out" "\<forall>(xs, out) \<in> set ms. gzip_member zl todo xs out" "ms \<noteq> []"
    and "gd_gzip g = Some (fst (zl_inflateInit2 zl (MAX_WBITS + 32)))" "\<not> gd_raw_deflate g"
    and "D = concat (map fst ms) @ ts" "length D < 2 ^ 32"
  shows "inflate_loop zl D D (length D) g = inflate_loop zl ts ts (length ts) (reopened zl (gd_sent g @ concat (map snd ms)) g)"
  using assms(3-8)
proof (induction ms arbitrary: g D)
  case (Cons m ms)
  obtain xs out where m: "m = (xs, out)" "gzip_member zl todo xs out" using Cons.prems(1) by (cases m) auto
  note l = gzip_memberD [OF m(2)]
  let ?ys = "concat (map fst ms) @ ts"
  have "suffix (xs @ ?ys) D" using Cons.prems(5) m(1) by simp
  from feed_member [OF assms(1) l(2) Cons.prems(6) l(3) Cons.prems(3,4) this] assms(2)
  have *: "inflate_loop zl D D (length D) g = inflate_loop zl ?ys ?ys (length ?ys) (reopened zl (gd_sent g @ out) g)"
    using Cons.prems(5) m(1) by auto
  show ?case
  proof (cases "ms = []")
    case True
    with * m(1) show ?thesis by simp
  next
    case False
    have "inflate_loop zl ?ys ?ys (length ?ys) (reopened zl (gd_sent g @ out) g) =
        inflate_loop zl ts ts (length ts) (reopened zl (gd_sent (reopened zl (gd_sent g @ out) g) @ concat (map snd ms)) (reopened zl (gd_sent g @ out) g))"
      using False Cons.prems(1,4,5,6) m(1) by (intro Cons.IH) (auto simp: reopened_def)
    with * m(1) show ?thesis by (simp add: reopened_def)
  qed
qed simp

lemma gunzip_trailing:
  assumes "inflates zl todo" "\<forall>z out. \<not> todo z [] out" "\<forall>(xs, out) \<in> set ms. gzip_member zl todo xs out" "ms \<noteq> []"
    and "gzip_member zl todo (ts @ rest) out" "rest \<noteq> []" "length (concat (map fst ms) @ ts) < 2 ^ 32"
  shows "\<exists>o1. prefix o1 out \<and> gunzip zl (concat (map fst ms) @ ts) = Some (Inr (concat (map snd ms) @ o1))"
proof -
  note m = gzip_memberD [OF assms(5)]
  let ?D = "concat (map fst ms) @ ts"
  let ?g = "\<lparr>gd_raw_deflate = False, gd_gzip = Some (fst (zl_inflateInit2 zl (MAX_WBITS + 32))), gd_no_writes = False, gd_sent = []\<rparr>"
  have "fst (hd ms) \<noteq> []" using assms(3,4) by (cases ms) (auto dest: gzip_memberD(1))
  then have D: "?D \<noteq> []" using assms(4) by (cases ms) auto
  have "inflate_loop zl ?D ?D (length ?D) ?g = inflate_loop zl ts ts (length ts) (reopened zl (concat (map snd ms)) ?g)"
    using feed_members [OF assms(1-4) _ _ refl assms(7), of ?g] by simp
  moreover obtain z' o1 o2 where
    "inflate_loop zl ts ts (length ts) (reopened zl (concat (map snd ms)) ?g) =
      Some (reopened zl (concat (map snd ms)) ?g\<lparr>gd_gzip := Some z', gd_sent := concat (map snd ms) @ o1\<rparr>, None)" "out = o1 @ o2"
    using feed_prefix [OF assms(1) m(3) assms(6), of "reopened zl (concat (map snd ms)) ?g" ts] by (auto simp: reopened_def)
  ultimately show ?thesis
    unfolding gunzip_unfold [OF assms(5) D assms(7)]
    by (intro exI [of _ o1]) (simp add: gzip_step_def gzip_result_def Gzip_Decompression_end_msg_def reopened_def)
qed

lemma gunzip_members:
  assumes "inflates zl todo" "\<forall>z out. \<not> todo z [] out" "\<forall>(xs, out) \<in> set ms. gzip_member zl todo xs out" "ms \<noteq> []"
    and "length (concat (map fst ms)) < 2 ^ 32"
  shows "gunzip zl (concat (map fst ms)) = Some (Inr (concat (map snd ms)))"
proof -
  obtain xs out where m: "gzip_member zl todo xs out" "concat (map fst ms) \<noteq> []"
    using assms(3,4) gzip_memberD(1) by (cases ms) fastforce+
  let ?g = "\<lparr>gd_raw_deflate = False, gd_gzip = Some (fst (zl_inflateInit2 zl (MAX_WBITS + 32))), gd_no_writes = False, gd_sent = []\<rparr>"
  have "inflate_loop zl (concat (map fst ms)) (concat (map fst ms)) (length (concat (map fst ms))) ?g = Some (reopened zl (concat (map snd ms)) ?g, None)"
    using feed_members [OF assms(1-4) _ _ _ assms(5), of ?g "[]"] by (simp add: inflate_loop.simps [of _ "[]"])
  then show ?thesis
    unfolding gunzip_unfold [OF m assms(5)]
    by (simp add: gzip_step_def gzip_result_def Gzip_Decompression_end_msg_def reopened_def)
qed

subsection \<open>Properties\<close>

text \<open>C16. Over a zlib that behaves as documented the loops of both filters end, whatever sizes it works in, and
  what the handler of a database store decompresses is what the sender's handler compressed.\<close>

theorem gzip_roundtrip:
  assumes "deflates zl todo made closing deflateBound" and "inflates zl todo"
    and "length data < 2 ^ 32" and "deflateBound (length data) < 2 ^ 32"
  shows "\<exists>ys. gzip zl data = Some (Inr ys) \<and> gunzip zl ys = Some (Inr data)"
  using gzip_makes [OF assms(1,3)] gunzip_member [OF assms(2)] assms(4) by fastforce

text \<open>C37. A proper beginning of a compressed stream is refused, never taken for shorter data; streams one after
  the other give their contents in sequence; but behind a complete stream a truncated one is accepted
  silently, with however much of it could be decompressed, because the filter has by then forgotten that it was
  written to.\<close>

theorem gunzip_streams:
  assumes "inflates zl todo" and "\<forall>z out. \<not> todo z [] out" and "gzip_member zl todo (ts @ rest) out" and "rest \<noteq> []"
    and "ms \<noteq> []" and "\<forall>(xs, out) \<in> set ms. gzip_member zl todo xs out" and "length (concat (map fst ms) @ ts) < 2 ^ 32"
  shows "(ts \<noteq> [] \<longrightarrow> gunzip zl ts = Some (Inl (Decoding_error ''Gzip_Decompression: Error finalizing''))) \<and>
    gunzip zl (concat (map fst ms)) = Some (Inr (concat (map snd ms))) \<and>
    (\<exists>o1. prefix o1 out \<and> gunzip zl (concat (map fst ms) @ ts) = Some (Inr (concat (map snd ms) @ o1)))"
proof (intro conjI impI)
  show "gunzip zl ts = Some (Inl (Decoding_error ''Gzip_Decompression: Error finalizing''))" if "ts \<noteq> []"
    using assms that by (intro gunzip_truncated) auto
  show "\<exists>o1. prefix o1 out \<and> gunzip zl (concat (map fst ms) @ ts) = Some (Inr (concat (map snd ms) @ o1))"
    using assms by (intro gunzip_trailing) auto
  show "gunzip zl (concat (map fst ms)) = Some (Inr (concat (map snd ms)))"
    using assms by (intro gunzip_members) auto
qed

subsection \<open>An instance\<close>

text \<open>A format of its own: every byte is preceded by a one, and a zero ends the member.\<close>

datatype toy_z = Toy_deflate bytes | Toy_closing bytes | Toy_inflate bool

definition toy_code :: "bytes \<Rightarrow> bytes" where
  "toy_code d = concat (map (\<lambda>b. [1, b]) d)"

fun toy_deflate :: "toy_z \<Rightarrow> int \<Rightarrow> bytes \<Rightarrow> nat \<Rightarrow> toy_z \<times> nat \<times> bytes \<times> int" where
  "toy_deflate (Toy_deflate p) flush inp n =
     (let q = p @ toy_code inp @ (if flush = Z_FINISH then [0] else [])
      in (if flush = Z_FINISH then Toy_closing (drop n q) else Toy_deflate (drop n q), length inp, take n q,
          if flush = Z_FINISH \<and> length q \<le> n then Z_STREAM_END else Z_OK))"
| "toy_deflate (Toy_closing p) flush inp n = (Toy_closing (drop n p), 0, take n p, if length p \<le> n then Z_STREAM_END else Z_OK)"
| "toy_deflate z flush inp n = (z, 0, [], Z_STREAM_ERROR)"

fun toy_inflate :: "toy_z \<Rightarrow> bytes \<Rightarrow> nat \<Rightarrow> toy_z \<times> nat \<times> bytes \<times> int" where
  "toy_inflate (Toy_inflate True) (b # inp) n = (Toy_inflate False, 1, [b], Z_OK)"
| "toy_inflate (Toy_inflate False) (b # inp) n =
     (if b = 1 then (Toy_inflate True, 1, [], Z_OK) else if b = 0 then (Toy_inflate False, 1, [], Z_STREAM_END)
      else (Toy_inflate False, 0, [], Z_DATA_ERROR))"
| "toy_inflate z inp n = (z, 0, [], Z_BUF_ERROR)"

definition toy_zlib :: "toy_z zlib" where
  "toy_zlib = \<lparr>zl_deflateInit2 = (\<lambda>_ _. (Toy_deflate [], Z_OK)), zl_deflate = toy_deflate, zl_inflateInit2 = (\<lambda>_. (Toy_inflate False, Z_OK)),
     zl_inflate = toy_inflate, zl_buffer = 3\<rparr>"

fun toy_todo :: "toy_z \<Rightarrow> bytes \<Rightarrow> bytes \<Rightarrow> bool" where
  "toy_todo (Toy_inflate False) xs out \<longleftrightarrow> xs = toy_code out @ [0]"
| "toy_todo (Toy_inflate True) xs out \<longleftrightarrow> out \<noteq> [] \<and> xs = hd out # toy_code (tl out) @ [0]"
| "toy_todo z xs out \<longleftrightarrow> False"

fun toy_made :: "toy_z \<Rightarrow> bytes \<Rightarrow> bytes \<Rightarrow> bool" where
  "toy_made (Toy_deflate p) d e \<longleftrightarrow> e @ p = toy_code d"
| "toy_made z d e \<longleftrightarrow> False"

fun toy_closing :: "toy_z \<Rightarrow> bytes \<Rightarrow> bytes \<Rightarrow> bool" where
  "toy_closing (Toy_closing p) d e \<longleftrightarrow> p \<noteq> [] \<and> e @ p = toy_code d @ [0]"
| "toy_closing z d e \<longleftrightarrow> False"

lemma toy_code_simps [simp]: "toy_code [] = []" "toy_code (b # d) = 1 # b # toy_code d" "toy_code (d @ d') = toy_code d @ toy_code d'"
  "length (toy_code d) = 2 * length d"
  by (simp_all add: toy_code_def length_concat comp_def sum_list_triv)

lemma toy_not_due: "\<not> toy_todo z [] out"
  by (cases "(z, [] :: bytes, out)" rule: toy_todo.cases) auto

lemma toy_inflates: "inflates toy_zlib toy_todo"
proof -
  have "c \<le> length inp \<and> c \<le> length xs \<and> prefix o1 out \<and>
     (rc = Z_STREAM_END \<and> c = length xs \<and> o1 = out \<or>
      rc = Z_OK \<and> toy_todo z' (drop c xs) (drop (length o1) out) \<and> (c > 0 \<or> o1 \<noteq> []) \<or>
      rc = Z_BUF_ERROR \<and> inp = [] \<and> xs \<noteq> [])"
    if "toy_todo z xs out" "prefix inp xs \<or> prefix xs inp" "toy_inflate z inp 3 = (z', c, o1, rc)" for z xs out inp z' c o1 rc
    using that
    by (cases "(z, inp, 3 :: nat)" rule: toy_inflate.cases; cases out) (auto simp: toy_not_due split: if_splits)
  then show ?thesis by (simp add: inflates_def toy_zlib_def)
qed

lemma toy_made_step:
  assumes "toy_made z d e" "toy_deflate z Z_NO_FLUSH inp n = (z', c, o1, rc)"
  shows "c = length inp \<and> toy_made z' (d @ take c inp) (e @ o1)"
proof -
  obtain p where p: "z = Toy_deflate p" "e @ p = toy_code d" using assms(1) by (cases z) auto
  have "(e @ take n (p @ toy_code inp)) @ drop n (p @ toy_code inp) = toy_code d @ toy_code inp"
    using p(2) by (metis append_assoc append_take_drop_id)
  with assms(2) show ?thesis unfolding p(1) by (auto simp: z_codes Let_def simp del: take_append drop_append)
qed

lemma toy_closing_step:
  assumes "toy_made z d e \<or> toy_closing z d e" "toy_deflate z Z_FINISH [] n = (z', c, o1, rc)" "0 < n"
  shows "if rc = Z_STREAM_END then e @ o1 = toy_code d @ [0] else o1 \<noteq> [] \<and> toy_closing z' d (e @ o1)"
proof -
  obtain q where q: "q \<noteq> []" "e @ q = toy_code d @ [0]" "z' = Toy_closing (drop n q)" "o1 = take n q"
      "rc = (if length q \<le> n then Z_STREAM_END else Z_OK)"
  proof (cases z)
    case (Toy_deflate p)
    with assms(1,2) show thesis by (intro that [of "p @ [0]"]) (auto simp: Let_def simp del: take_append drop_append)
  qed (use assms(1,2) that in auto)
  have "(e @ take n q) @ drop n q = toy_code d @ [0]" using q(2) by simp
  then show ?thesis using q assms(3) by (auto simp: z_codes)
qed

lemma toy_deflates: "deflates toy_zlib toy_todo toy_made toy_closing (\<lambda>n. 2 * n + 1)"
  unfolding deflates_def
proof (intro conjI allI impI)
  show "length e \<le> 2 * length d + 1" if m: "toy_made z d e \<or> toy_closing z d e" for z d e
  proof -
    obtain p where "e @ p = toy_code d \<or> e @ p = toy_code d @ [0]" using m by (cases z) auto
    then have "length (e @ p) = length (toy_code d) \<or> length (e @ p) = length (toy_code d @ [0])" by metis
    then show ?thesis by auto
  qed
  show "c \<le> length inp" "c > 0 \<or> o1 \<noteq> []" "toy_made z' (d @ take c inp) (e @ o1)"
    if "toy_made z d e" "inp \<noteq> []" "zl_deflate toy_zlib z Z_NO_FLUSH inp (zl_buffer toy_zlib) = (z', c, o1, rc)" for z d e inp z' c o1 rc
    using toy_made_step [OF that(1), of inp 3] that(2,3) by (auto simp: toy_zlib_def)
  show "if rc = Z_STREAM_END then gzip_member toy_zlib toy_todo (e @ o1) d \<and> length (e @ o1) \<le> 2 * length d + 1
      else o1 \<noteq> [] \<and> toy_closing z' d (e @ o1)"
    if m: "toy_made z d e \<or> toy_closing z d e" "zl_deflate toy_zlib z Z_FINISH [] (zl_buffer toy_zlib) = (z', c, o1, rc)" for z d e z' c o1 rc
  proof -
    have *: "if rc = Z_STREAM_END then e @ o1 = toy_code d @ [0] else o1 \<noteq> [] \<and> toy_closing z' d (e @ o1)"
      using m(2) by (intro toy_closing_step [OF m(1), of 3]) (simp_all add: toy_zlib_def)
    moreover have "gzip_member toy_zlib toy_todo (toy_code d @ [0]) d" by (simp add: gzip_member_def toy_zlib_def)
    moreover have "length (toy_code d @ [0]) \<le> 2 * length d + 1" by simp
    ultimately show ?thesis by metis
  qed
qed (auto simp: toy_zlib_def mono_def)

theorem gzip_roundtrip_witness: "\<exists>ys. gzip toy_zlib [7, 0, 1] = Some (Inr ys) \<and> gunzip toy_zlib ys = Some (Inr [7, 0, 1])"
  using gzip_roundtrip [OF toy_deflates toy_inflates, of "[7, 0, 1]"] by simp

theorem gunzip_streams_witness:
  "gunzip toy_zlib [1, 5, 1] = Some (Inl (Decoding_error ''Gzip_Decompression: Error finalizing'')) \<and>
   gunzip toy_zlib [1, 9, 0, 1, 8, 0] = Some (Inr [9, 8]) \<and>
   (\<exists>o1. prefix o1 [5, 6] \<and> gunzip toy_zlib [1, 9, 0, 1, 8, 0, 1, 5, 1] = Some (Inr ([9, 8] @ o1)))"
  using gunzip_streams [OF toy_inflates, of "[1, 5, 1]" "[6, 0]" "[5, 6]" "[([1, 9, 0], [9]), ([1, 8, 0], [8])]"]
  by (simp add: toy_not_due gzip_member_def toy_zlib_def)

end
