(* ===== verification/Console.thy ===== *)
theory Console
  imports Router
begin

text \<open>
  The console front end, \<open>frontends/console\<close>: the statistics it collects from the log (\<open>StatsBackend.cpp\<close>), the server that
  broadcasts them (\<open>Server.cpp\<close>), and \<open>main.cpp\<close>. Parsed command lines, the file system and the outcome of a
  send on a web socket are arguments. \<open>main\<close> may never return: its result is \<open>None\<close> then.
\<close>

subsection \<open>StatsBackend\<close>

record stats_t =
  st_bytes_sent :: u64
  st_bytes_recv :: u64
  st_peer_count :: u32
  st_participating_tunnels :: u32
  st_i2np_ib :: "string \<rightharpoonup> u32"
  st_i2np_ob :: "string \<rightharpoonup> u32"

definition stats_make :: stats_t where
  "stats_make = \<lparr>st_bytes_sent = 0, st_bytes_recv = 0, st_peer_count = 0, st_participating_tunnels = 0,
     st_i2np_ib = Map.empty, st_i2np_ob = Map.empty\<rparr>"

text \<open>The attributes of a log record the backend looks at.\<close>

record log_record =
  lr_sent :: "u64 option"
  lr_received :: "u64 option"
  lr_peers :: "u32 option"
  lr_i2np_ib :: "string option"
  lr_i2np_ob :: "string option"
  lr_participating :: "u32 option"

definition count_type :: "string \<Rightarrow> (string \<rightharpoonup> u32) \<Rightarrow> (string \<rightharpoonup> u32)" where
  "count_type msg_type m =
     (let m = (if m msg_type = None then m(msg_type \<mapsto> 0) else m) in m(msg_type \<mapsto> the (m msg_type) + 1))"

definition StatsBackend_consume :: "log_record \<Rightarrow> stats_t \<Rightarrow> stats_t" where
  "StatsBackend_consume rec s =
     (case lr_sent rec of Some n \<Rightarrow> s\<lparr>st_bytes_sent := st_bytes_sent s + n\<rparr>
      | None \<Rightarrow> (case lr_received rec of Some n \<Rightarrow> s\<lparr>st_bytes_recv := st_bytes_recv s + n\<rparr>
      | None \<Rightarrow> (case lr_peers rec of Some n \<Rightarrow> s\<lparr>st_peer_count := n\<rparr>
      | None \<Rightarrow> (case lr_i2np_ib rec of Some t \<Rightarrow> s\<lparr>st_i2np_ib := count_type t (st_i2np_ib s)\<rparr>
      | None \<Rightarrow> (case lr_i2np_ob rec of Some t \<Rightarrow> s\<lparr>st_i2np_ob := count_type t (st_i2np_ob s)\<rparr>
      | None \<Rightarrow> (case lr_participating rec of Some n \<Rightarrow> s\<lparr>st_participating_tunnels := n\<rparr>
      | None \<Rightarrow> s))))))"

definition StatsBackend_getStats :: "stats_t \<Rightarrow> stats_t \<times> stats_t" where
  "StatsBackend_getStats s =
     (s, s\<lparr>st_bytes_sent := 0, st_bytes_recv := 0, st_i2np_ob := Map.empty, st_i2np_ib := Map.empty\<rparr>)"

fun to_string :: "nat \<Rightarrow> string" where
  "to_string n = (if n < 10 then [char_of (48 + n)] else to_string (n div 10) @ [char_of (48 + n mod 10)])"

declare to_string.simps [simp del]

text \<open>The keys of an unordered map come in some order \<open>ks\<close>.\<close>

definition json_items :: "(string \<rightharpoonup> u32) \<Rightarrow> string list \<Rightarrow> string" where
  "json_items m ks = concat (map (\<lambda>k. '' '' @ [CHR 0x22] @ k @ [CHR 0x22] @ '' : '' @ to_string (unat (the (m k))) @ '', '') ks)"

definition stats_json :: "string list \<Rightarrow> string list \<Rightarrow> stats_t \<Rightarrow> string" where
  "stats_json ks_ib ks_ob s =
     (let q = [CHR 0x22];
          i2np_msgs = ''[ {'' @ json_items (st_i2np_ib s) ks_ib @ q @ ''0'' @ q @ '' : 0 } , { '' @
            json_items (st_i2np_ob s) ks_ob @ q @ ''0'' @ q @ '' : 0 } ] ''
      in ''{ '' @ q @ ''bandwidth'' @ q @ '' : ['' @ to_string (unat (st_bytes_sent s)) @ '','' @ to_string (unat (st_bytes_recv s)) @
         ''], '' @ q @ ''peers'' @ q @ '' : '' @ to_string (unat (st_peer_count s)) @ '', '' @ q @ ''i2np'' @ q @ '' : '' @ i2np_msgs @
         '', '' @ q @ ''tunnels'' @ q @ '' : { '' @ q @ ''participating'' @ q @ '' : '' @
         to_string (unat (st_participating_tunnels s)) @ '' } }'')"

text \<open>Over any sequence of log records and reports nothing is lost and nothing counted twice: what was reported and
  what is still to be reported add up to what was logged, at the width of the counters.\<close>

datatype st_event = Logged log_record | Reported

fun stats_run :: "st_event list \<Rightarrow> stats_t \<Rightarrow> stats_t \<times> stats_t list" where
  "stats_run [] s = (s, [])"
| "stats_run (Logged rec # evs) s = stats_run evs (StatsBackend_consume rec s)"
| "stats_run (Reported # evs) s =
     (let (r, s) = StatsBackend_getStats s; (s, rs) = stats_run evs s in (s, r # rs))"

definition type_count :: "string \<Rightarrow> (string \<rightharpoonup> u32) \<Rightarrow> u32" where
  "type_count t m = (case m t of None \<Rightarrow> 0 | Some n \<Rightarrow> n)"

fun sent_in :: "st_event \<Rightarrow> u64" where
  "sent_in (Logged rec) = (case lr_sent rec of Some n \<Rightarrow> n | None \<Rightarrow> 0)"
| "sent_in Reported = 0"

fun inbound_in :: "string \<Rightarrow> st_event \<Rightarrow> u32" where
  "inbound_in t (Logged rec) = (if lr_sent rec = None \<and> lr_received rec = None \<and> lr_peers rec = None \<and> lr_i2np_ib rec = Some t then 1 else 0)"
| "inbound_in t Reported = 0"

lemma type_count_count: "type_count t (count_type u m) = type_count t m + (if u = t then 1 else 0)"
  by (simp add: type_count_def count_type_def Let_def split: option.split)

lemma type_count_empty: "type_count t Map.empty = 0"
  by (simp add: type_count_def)

lemma consume_counts:
  "st_bytes_sent (StatsBackend_consume rec s) = st_bytes_sent s + sent_in (Logged rec)"
  "type_count t (st_i2np_ib (StatsBackend_consume rec s)) = type_count t (st_i2np_ib s) + inbound_in t (Logged rec)"
  by (auto simp: StatsBackend_consume_def type_count_count split: option.split)

lemma stats_conserved:
  assumes "stats_run evs s0 = (s, reports)"
  shows "st_bytes_sent s + sum_list (map st_bytes_sent reports) = st_bytes_sent s0 + sum_list (map sent_in evs)"
    and "type_count t (st_i2np_ib s) + sum_list (map (\<lambda>r. type_count t (st_i2np_ib r)) reports) =
      type_count t (st_i2np_ib s0) + sum_list (map (inbound_in t) evs)"
  using assms
  by (induction evs s0 arbitrary: s reports rule: stats_run.induct)
    (auto simp: consume_counts StatsBackend_getStats_def type_count_empty ac_simps split: prod.splits simp del: sent_in.simps(1) inbound_in.simps(1))

subsection \<open>Server\<close>

text \<open>Connection handles are numbers in the order of their owners.\<close>

record Server =
  sv_controlClients :: "nat list"
  sv_statsClients :: "nat list"
  sv_stats :: stats_t

datatype sv_out = Sv_send nat string | Sv_arm_stats

definition Server_make :: "Server \<times> sv_out list" where
  "Server_make = (\<lparr>sv_controlClients = [], sv_statsClients = [], sv_stats = stats_make\<rparr>, [Sv_arm_stats])"

definition Server_on_open :: "string \<Rightarrow> nat \<Rightarrow> Server \<Rightarrow> Server" where
  "Server_on_open r handle s =
     (if r = ''/stats'' then s\<lparr>sv_statsClients := insort_insert handle (sv_statsClients s)\<rparr>
      else if r = ''/control'' then s\<lparr>sv_controlClients := insort_insert handle (sv_controlClients s)\<rparr>
      else s)"

definition Server_on_close :: "string \<Rightarrow> nat \<Rightarrow> Server \<Rightarrow> Server" where
  "Server_on_close r handle s =
     (if r = ''/stats'' then s\<lparr>sv_statsClients := filter (\<lambda>h. h \<noteq> handle) (sv_statsClients s)\<rparr>
      else if r = ''/control'' then s\<lparr>sv_controlClients := filter (\<lambda>h. h \<noteq> handle) (sv_controlClients s)\<rparr>
      else s)"

text \<open>\<open>send\<close> tells which sends throw.\<close>

fun broadcast_loop :: "(nat \<Rightarrow> cpp_error option) \<Rightarrow> string \<Rightarrow> nat list \<Rightarrow> sv_out list \<times> cpp_error option" where
  "broadcast_loop send msg [] = ([], None)"
| "broadcast_loop send msg (c # cs) =
     (case send c of
        Some err \<Rightarrow> ([], Some err)
      | None \<Rightarrow> (let (out, err) = broadcast_loop send msg cs in (Sv_send c msg # out, err)))"

definition Server_broadcastStats ::
  "(nat \<Rightarrow> cpp_error option) \<Rightarrow> string list \<Rightarrow> string list \<Rightarrow> stats_t \<Rightarrow> Server \<Rightarrow> sv_out list \<times> cpp_error option" where
  "Server_broadcastStats send ks_ib ks_ob stats s = broadcast_loop send (stats_json ks_ib ks_ob stats) (sv_statsClients s)"

text \<open>\<open>e\<close>: the wait failed or was cancelled.\<close>

definition Server_timerCallback ::
  "(nat \<Rightarrow> cpp_error option) \<Rightarrow> string list \<Rightarrow> string list \<Rightarrow> bool \<Rightarrow> Server \<Rightarrow> Server \<times> sv_out list \<times> cpp_error option" where
  "Server_timerCallback send ks_ib ks_ob e s =
     (if e then (s, [], None)
      else let (stats, rest) = StatsBackend_getStats (sv_stats s);
               s = s\<lparr>sv_stats := rest\<rparr>;
               (out, err) = Server_broadcastStats send ks_ib ks_ob stats s
           in case err of None \<Rightarrow> (s, out @ [Sv_arm_stats], None) | Some err \<Rightarrow> (s, out, Some err))"

text \<open>A send that throws ends the statistics: the clients behind it get nothing and the timer is not set again.\<close>

lemma broadcast_fails:
  assumes "sv_statsClients s = as @ c # bs" "\<forall>a \<in> set as. send a = None" "send c = Some err"
  shows "\<exists>s' out. Server_timerCallback send ks_ib ks_ob False s = (s', out, Some err) \<and> Sv_arm_stats \<notin> set out"
proof -
  have *: "broadcast_loop send msg (as @ c # bs) = (map (\<lambda>a. Sv_send a msg) as, Some err)" for msg
    using assms(2,3) by (induction as) auto
  show ?thesis
    using assms(1) by (auto simp: Server_timerCallback_def Server_broadcastStats_def StatsBackend_getStats_def *)
qed

subsection \<open>main\<close>

text \<open>The options found on the command line.\<close>

record variables_map =
  vm_help :: bool
  vm_version :: bool
  vm_init :: bool
  vm_import :: "bytes option"
  vm_export :: "bytes option"
  vm_importdir :: "bytes option"
  vm_wipe :: bool
  vm_get :: "bytes option"
  vm_set :: "bytes list option"

text \<open>An entry of the directory as the iterator comes to it: whether it is a regular file, and what is read from
  it if it can be opened.\<close>

record dir_entry =
  de_regular :: bool
  de_content :: "bytes option"

text \<open>\<open>ce_newElg\<close> and \<open>ce_newDsa\<close> are freshly generated keys, \<open>ce_fileKeys\<close> the public values of the keys in \<open>encryption.key\<close> and
  \<open>signing.key\<close>, \<open>ce_dir\<close> the entries a directory iterator visits or the exception of its constructor, \<open>ce_bind\<close> the exception of opening the socket, \<open>ce_events\<close> what happens until \<open>quit\<close> is set, and
  \<open>ce_graceful\<close> tells by which signal it is.\<close>

record console_env =
  ce_world :: world
  ce_load_elg :: "bytes \<Rightarrow> bytes result"
  ce_load_dsa :: "bytes \<Rightarrow> bytes result"
  ce_junkE :: bytes
  ce_junkS :: bytes
  ce_junkRunning :: bool
  ce_newElg :: bytes
  ce_newDsa :: bytes
  ce_read :: "bytes \<Rightarrow> bytes option"
  ce_writable :: "bytes \<Rightarrow> bool"
  ce_exists :: "bytes \<Rightarrow> bool"
  ce_dir :: "bytes \<Rightarrow> dir_entry list result"
  ce_fileKeys :: "(bytes \<times> bytes) result"
  ce_from_string :: "bytes \<Rightarrow> address result"
  ce_bind :: "Endpoint \<Rightarrow> cpp_error option"
  ce_events :: "(world \<times> rt_event) list"
  ce_graceful :: bool

datatype con_out =
    Con_help | Con_version
  | Con_value bytes
  | Con_open bytes
  | Con_write bytes bytes
  | Con_server Endpoint
  | Con_server_stop
  | Con_transport RouterIdentity
  | Con_listen Endpoint
  | Con_router rt_out

datatype exit_code = EXIT_SUCCESS | EXIT_FAILURE | Crash cpp_error

type_synonym con_result = "Database \<times> con_out list \<times> exit_code"

text \<open>The handlers at the end of \<open>main\<close>.\<close>

definition caught :: "cpp_error \<Rightarrow> exit_code" where
  "caught err = (if is_exception err then EXIT_FAILURE else Crash err)"

definition main_export :: "console_env \<Rightarrow> bytes \<Rightarrow> Database \<Rightarrow> con_result" where
  "main_export env file db =
     (let e = w_env (ce_world env) in
      if \<not> ce_writable env file then (db, [], EXIT_FAILURE)
      else case ebind (Database_getConfigValue (ascii ''private_encryption_key'') db) (\<lambda>encryptingKeyPEM.
                ebind (ce_load_elg env encryptingKeyPEM) (\<lambda>encryptionKeyBytes.
                ebind (Database_getConfigValue (ascii ''private_signing_key'') db) (\<lambda>signingKeyPEM.
                ebind (ce_load_dsa env signingKeyPEM) (\<lambda>signingKeyBytes.
                ebind (RouterIdentity_make (ce_junkE env) (ce_junkS env) encryptionKeyBytes signingKeyBytes Certificate_default) (\<lambda>ident.
                Database_getRouterInfo (ne_sha1 e) (ne_dsa_verify e) (fst (RouterIdentity_getHash (ne_sha256 e) ident)) db))))) of
             Inl err \<Rightarrow> (db, [Con_open file], caught err)
           | Inr ri \<Rightarrow> (db, [Con_open file, Con_write file (RouterInfo_serialize ri)], EXIT_SUCCESS))"

definition main_import :: "console_env \<Rightarrow> bytes \<Rightarrow> Database \<Rightarrow> con_result" where
  "main_import env file db =
     (case ce_read env file of
        None \<Rightarrow> (db, [], EXIT_FAILURE)
      | Some ribytes \<Rightarrow>
          (case ebind (RouterInfo_parse (length ribytes) ribytes 0) (\<lambda>(ri, _). Database_setRouterInfo (ne_sha256 (w_env (ce_world env))) ri db) of
             Inl err \<Rightarrow> (db, [], caught err)
           | Inr db \<Rightarrow> (db, [], EXIT_SUCCESS)))"

text \<open>A file that cannot be opened continues the loop without moving the iterator.\<close>

partial_function (option) import_loop ::
  "(bytes \<Rightarrow> bytes) \<Rightarrow> (bytes \<Rightarrow> bytes \<Rightarrow> bytes \<Rightarrow> bool) \<Rightarrow> dir_entry list \<Rightarrow> RouterInfo list \<Rightarrow> RouterInfo list result option" where
  "import_loop sha1 dsa_verify itr routers =
     (case itr of
        [] \<Rightarrow> Some (Inr routers)
      | e # es \<Rightarrow>
          if de_regular e
          then (case de_content e of
                  None \<Rightarrow> import_loop sha1 dsa_verify itr routers
                | Some info \<Rightarrow>
                    (case RouterInfo_parse (length info) info 0 of
                       Inl err \<Rightarrow> Some (Inl err)
                     | Inr (ri, _) \<Rightarrow>
                         import_loop sha1 dsa_verify es
                           (if RouterInfo_verifySignature sha1 dsa_verify ri then routers @ [ri] else routers)))
          else import_loop sha1 dsa_verify es routers)"

definition main_importdir :: "console_env \<Rightarrow> bytes \<Rightarrow> Database \<Rightarrow> con_result option" where
  "main_importdir env dir db =
     (let e = w_env (ce_world env) in
      if \<not> ce_exists env dir then Some (db, [], EXIT_FAILURE)
      else case ce_dir env dir of
             Inl err \<Rightarrow> Some (db, [], caught err)
           | Inr itr \<Rightarrow>
               map_option (\<lambda>r. case ebind r (\<lambda>routers. Database_setRouterInfos (ne_sha256 e) routers db) of
                   Inl err \<Rightarrow> (db, [], caught err) | Inr db \<Rightarrow> (db, [], EXIT_SUCCESS))
                 (import_loop (ne_sha1 e) (ne_dsa_verify e) itr []))"

text \<open>The threads of the transport and of the service catch exceptions and go on.\<close>

fun run_events :: "(world \<times> rt_event) list \<Rightarrow> Router \<Rightarrow> rt_result" where
  "run_events [] s = (s, [], None)"
| "run_events ((w, ev) # evs) s =
     (case router_event w ev s of
        (s, out, err) \<Rightarrow>
          if case err of None \<Rightarrow> True | Some err \<Rightarrow> is_exception err
          then (let (s, out', err) = run_events evs s in (s, out @ out', err))
          else (s, out, err))"

definition config_endpoint :: "console_env \<Rightarrow> string \<Rightarrow> string \<Rightarrow> Database \<Rightarrow> Endpoint result" where
  "config_endpoint env ip port db =
     ebind (Database_getConfigValue (ascii port) db) (\<lambda>p.
     ebind (stoi p) (\<lambda>port.
     ebind (Database_getConfigValue (ascii ip) db) (\<lambda>ip.
     ebind (ce_from_string env ip) (\<lambda>addr. Inr \<lparr>ep_addr = addr, ep_port = of_int port\<rparr>))))"

text \<open>After \<open>r.start\<close> an exception leads to \<open>~Router\<close>, which joins a thread nobody stops, and after \<open>s->run\<close> to \<open>~Server\<close>, which does
  the same. \<open>gracefulShutdown\<close> never comes back, so the wait for the tunnels behind it is left out. The order in which the two configuration values of an end point are read is the compiler's.\<close>

definition main_serve :: "console_env \<Rightarrow> bool \<Rightarrow> Router \<Rightarrow> con_result option" where
  "main_serve env server r =
     (let e = w_env (ce_world env);
          unwind = (\<lambda>err. if is_exception err \<and> server then None else Some (rt_db r, [], caught err))
      in case ebind (ce_fileKeys env) (\<lambda>(elg, dsa). RouterIdentity_make (ce_junkE env) (ce_junkS env) elg dsa Certificate_default) of
           Inl err \<Rightarrow> unwind err
         | Inr ri \<Rightarrow>
             (let (r, out, _) = Router_start (Router_addTransport r);
                  out = Con_transport ri # map Con_router out
              in case ebind (config_endpoint env ''ssu_bind_ip'' ''ssu_bind_port'' (rt_db r)) (\<lambda>ep.
                        case ce_bind env ep of None \<Rightarrow> Inr ep | Some err \<Rightarrow> Inl err) of
                   Inl err \<Rightarrow> if is_exception err then None else Some (rt_db r, out, Crash err)
                 | Inr ep \<Rightarrow>
                     (case run_events (ce_events env) r of
                        (r, out', Some err) \<Rightarrow> Some (rt_db r, out @ [Con_listen ep] @ map Con_router out', Crash err)
                      | (r, out', None) \<Rightarrow>
                          (let out = out @ [Con_listen ep] @ map Con_router out';
                               finish = (\<lambda>r. Some (rt_db (Router_stop r), out @ (if server then [Con_server_stop] else []), EXIT_SUCCESS))
                           in if ce_graceful env
                              then (case Router_gracefulShutdown r of
                                      (r, _, Some err) \<Rightarrow> Some (rt_db r, out, Crash err)
                                    | (r, _, None) \<Rightarrow> finish r)
                              else finish r))))"

definition main_run :: "console_env \<Rightarrow> Router \<Rightarrow> con_result option" where
  "main_run env r =
     (case Database_getConfigValue (ascii ''control_server'') (rt_db r) of
        Inl err \<Rightarrow> Some (rt_db r, [], caught err)
      | Inr v \<Rightarrow>
          if v = ascii ''1''
          then (case config_endpoint env ''control_server_ip'' ''control_server_port'' (rt_db r) of
                  Inl err \<Rightarrow> Some (rt_db r, [], caught err)
                | Inr ep \<Rightarrow> map_option (\<lambda>(db, out, x). (db, Con_server ep # out, x)) (main_serve env True r))
          else main_serve env False r)"

text \<open>The file is \<open>None\<close> when it does not have the tables.\<close>

definition console_main :: "console_env \<Rightarrow> variables_map \<Rightarrow> Database option \<Rightarrow> con_result option" where
  "console_main env vm dbFile =
     (let now = (case dbFile of None \<Rightarrow> empty_db | Some db \<Rightarrow> db) in
      if vm_help vm then Some (now, [Con_help], EXIT_SUCCESS)
      else if vm_version vm then Some (now, [Con_version], EXIT_SUCCESS)
      else if vm_init vm
      then (case Database_createDb (ce_newElg env) (ce_newDsa env) now of
              Inl err \<Rightarrow> Some (now, [], caught err) | Inr db \<Rightarrow> Some (db, [], EXIT_SUCCESS))
      else case dbFile of
        None \<Rightarrow> Some (now, [], EXIT_FAILURE)
      | Some db \<Rightarrow>
          (case RouterContext_make (ce_world env) (ce_load_elg env) (ce_load_dsa env) (ce_junkE env) (ce_junkS env) (ce_junkRunning env) db of
             Inl err \<Rightarrow> Some (db, [], caught err)
           | Inr (_, r) \<Rightarrow>
               (case vm_export vm of Some file \<Rightarrow> Some (main_export env file db)
                | None \<Rightarrow> (case vm_import vm of Some file \<Rightarrow> Some (main_import env file db)
                | None \<Rightarrow> (case vm_importdir vm of Some dir \<Rightarrow> main_importdir env dir db
                | None \<Rightarrow>
                    if vm_wipe vm
                    then (case Database_deleteAllRouters db of
                            Inl err \<Rightarrow> Some (db, [], caught err) | Inr db \<Rightarrow> Some (db, [], EXIT_SUCCESS))
                    else case vm_get vm of Some name \<Rightarrow>
                      (case Database_getConfigValue name db of
                         Inl err \<Rightarrow> Some (db, [], caught err) | Inr v \<Rightarrow> Some (db, [Con_value v], EXIT_SUCCESS))
                    | None \<Rightarrow> (case vm_set vm of Some tokens \<Rightarrow>
                      (case tokens of
                         [name, val] \<Rightarrow>
                           (case Database_setConfigValue name val db of
                              Inl err \<Rightarrow> Some (db, [], caught err) | Inr db \<Rightarrow> Some (db, [], EXIT_SUCCESS))
                       | _ \<Rightarrow> Some (db, [], EXIT_FAILURE))
                    | None \<Rightarrow> main_run env r))))))"

subsection \<open>Importing a directory\<close>

text \<open>The entries the loop gets past, and what it collects from them.\<close>

definition passable :: "dir_entry \<Rightarrow> bool" where
  "passable e \<longleftrightarrow> \<not> de_regular e \<or> (\<exists>info ri p. de_content e = Some info \<and> RouterInfo_parse (length info) info 0 = Inr (ri, p))"

definition info_of :: "dir_entry \<Rightarrow> RouterInfo" where
  "info_of e = (case RouterInfo_parse (length (the (de_content e))) (the (de_content e)) 0 of Inr (ri, _) \<Rightarrow> ri)"

definition signed_infos :: "(bytes \<Rightarrow> bytes) \<Rightarrow> (bytes \<Rightarrow> bytes \<Rightarrow> bytes \<Rightarrow> bool) \<Rightarrow> dir_entry list \<Rightarrow> RouterInfo list" where
  "signed_infos sha1 dsa_verify es = filter (RouterInfo_verifySignature sha1 dsa_verify) (map info_of (filter de_regular es))"

lemma import_loop_passes:
  "list_all passable as \<Longrightarrow> import_loop sha1 dsa_verify (as @ itr) routers = import_loop sha1 dsa_verify itr (routers @ signed_infos sha1 dsa_verify as)"
proof (induction as arbitrary: routers)
  case (Cons e as)
  then show ?case
    by (subst import_loop.simps) (auto simp: passable_def info_of_def signed_infos_def split: if_splits)
qed (simp add: signed_infos_def)

lemma import_loop_head:
  assumes "import_loop sha1 dsa_verify itr routers = Some y"
  shows "itr = [] \<or> \<not> de_regular (hd itr) \<or> de_content (hd itr) \<noteq> None"
proof (rule import_loop.raw_induct
    [where P = "\<lambda>_ _ itr _ _. itr = [] \<or> \<not> de_regular (hd itr) \<or> de_content (hd itr) \<noteq> None", OF _ assms], goal_cases)
  case (1 loop sha1 dsa_verify itr routers y)
  show ?case
  proof (rule ccontr)
    assume n: "\<not> ?case"
    then obtain e es where "itr = e # es" "de_regular e" "de_content e = None" by (cases itr) auto
    with 1(2) have "loop sha1 dsa_verify itr routers = Some y" by simp
    from 1(1) [OF this] n show False by blast
  qed
qed

lemma import_loop_stuck: "de_regular e \<Longrightarrow> de_content e = None \<Longrightarrow> import_loop sha1 dsa_verify (e # es) routers = None"
  using import_loop_head [of sha1 dsa_verify "e # es" routers] by (cases "import_loop sha1 dsa_verify (e # es) routers") auto

lemma dir_entry_split:
  "(\<exists>as e bs. itr = as @ e # bs \<and> list_all passable as \<and> \<not> passable e) \<or> list_all passable itr"
proof (induction itr)
  case (Cons e itr)
  show ?case
  proof (cases "passable e")
    case False
    then show ?thesis by (intro disjI1 exI [of _ "[]"] exI [of _ e] exI [of _ itr]) simp
  next
    case True
    from Cons show ?thesis
    proof
      assume "\<exists>as e' bs. itr = as @ e' # bs \<and> list_all passable as \<and> \<not> passable e'"
      then obtain as e' bs where "itr = as @ e' # bs" "list_all passable as" "\<not> passable e'" by blast
      with True show ?thesis by (intro disjI1 exI [of _ "e # as"] exI [of _ e'] exI [of _ bs]) simp
    qed (use True in simp)
  qed
qed simp

lemma import_loop_result:
  assumes "import_loop sha1 dsa_verify itr [] = Some (Inr routers)"
  shows "list_all passable itr \<and> routers = signed_infos sha1 dsa_verify itr"
proof -
  have "\<not> (\<exists>as e bs. itr = as @ e # bs \<and> list_all passable as \<and> \<not> passable e)"
  proof
    assume "\<exists>as e bs. itr = as @ e # bs \<and> list_all passable as \<and> \<not> passable e"
    then obtain as e bs where i: "itr = as @ e # bs" "list_all passable as" "\<not> passable e" by blast
    then have l: "import_loop sha1 dsa_verify (e # bs) (signed_infos sha1 dsa_verify as) = Some (Inr routers)"
      using assms import_loop_passes [OF i(2)] by simp
    from i(3) have r: "de_regular e" by (simp add: passable_def)
    then obtain info where info: "de_content e = Some info" using l import_loop_stuck by (cases "de_content e") auto
    then have "RouterInfo_parse (length info) info 0 \<noteq> Inr (ri, p)" for ri p using i(3) r by (auto simp: passable_def)
    then show False using l r info by (subst (asm) import_loop.simps) (auto split: sum.splits)
  qed
  then have p: "list_all passable itr" using dir_entry_split by blast
  from import_loop_passes [OF p, of sha1 dsa_verify "[]" "[]"] p assms show ?thesis by (simp add: import_loop.simps)
qed

lemma signed_infos_good:
  assumes "list_all passable es"
  shows "list_all (signed_info sha1 dsa_verify) (signed_infos sha1 dsa_verify es)"
proof -
  have "RouterInfo_wf (info_of e)" if m: "e \<in> set es" "de_regular e" for e
  proof -
    obtain info ri p where "de_content e = Some info" "RouterInfo_parse (length info) info 0 = Inr (ri, p)"
      using assms m by (auto simp: list_all_iff passable_def)
    then show ?thesis by (auto simp: info_of_def dest: RouterInfo_parse_wf)
  qed
  then show ?thesis by (auto simp: list_all_iff signed_infos_def signed_info_def)
qed

lemma import_loop_None:
  "import_loop sha1 dsa_verify es [] = None \<longleftrightarrow>
     (\<exists>as e bs. es = as @ e # bs \<and> list_all passable as \<and> de_regular e \<and> de_content e = None)"
proof
  assume n: "import_loop sha1 dsa_verify es [] = None"
  have "\<not> list_all passable es"
    using n import_loop_passes [of es sha1 dsa_verify "[]" "[]"] by (auto simp: import_loop.simps)
  then obtain as e bs where d: "es = as @ e # bs" "list_all passable as" "\<not> passable e" using dir_entry_split by blast
  then have "import_loop sha1 dsa_verify (e # bs) (signed_infos sha1 dsa_verify as) = None" using n by (simp add: import_loop_passes)
  then have "de_content e = None"
    using d(3) by (subst (asm) import_loop.simps) (auto simp: passable_def split: option.splits sum.splits)
  with d show "\<exists>as e bs. es = as @ e # bs \<and> list_all passable as \<and> de_regular e \<and> de_content e = None"
    by (auto simp: passable_def)
qed (auto simp: import_loop_passes import_loop_stuck)

subsection \<open>The database under every command line\<close>

lemma run_events_ok:
  assumes "list_all (\<lambda>(w, ev). world_of sha1 sha256 dsa_verify w) evs" "router_consistent sha1 sha256 dsa_verify s"
    and "run_events evs s = (s', out, err)"
  shows "router_consistent sha1 sha256 dsa_verify s'"
  using assms
proof (induction evs arbitrary: s out)
  case (Cons e evs)
  obtain w ev where e: "e = (w, ev)" by (cases e)
  obtain s1 o1 err1 where r: "router_event w ev s = (s1, o1, err1)" by (metis prod_cases3)
  have "router_consistent sha1 sha256 dsa_verify s1"
    using sound.event_good [of sha1 sha256 dsa_verify w s ev] Cons.prems(1,2) by (simp add: e r)
  with Cons.IH [of s1] Cons.prems(1,3) show ?case by (auto simp: e r split: if_splits prod.splits)
qed simp

lemma serve_ok:
  assumes "router_consistent sha1 sha256 dsa_verify (fst (Router_start (Router_addTransport r)))"
    and "list_all (\<lambda>(w, ev). world_of sha1 sha256 dsa_verify w) (ce_events env)"
    and "main_serve env server r = Some (db', out, x)"
  shows "db_wf db' \<and> stored_ok sha1 sha256 dsa_verify db'"
proof -
  obtain r1 o1 e1 where st: "Router_start (Router_addTransport r) = (r1, o1, e1)" by (metis prod_cases3)
  obtain r2 o2 e2 where run: "run_events (ce_events env) r1 = (r2, o2, e2)" by (metis prod_cases3)
  have c: "router_consistent sha1 sha256 dsa_verify r1" "router_consistent sha1 sha256 dsa_verify r2"
    using assms(1) run_events_ok [OF assms(2) _ run] by (simp_all add: st)
  have "rt_db r1 = rt_db r" using st by (auto simp: Router_start_def Router_addTransport_def)
  moreover have "db' = rt_db r \<or> db' = rt_db r1 \<or> db' = rt_db r2"
    using assms(3)
    by (auto simp: main_serve_def st run Let_def Router_gracefulShutdown_def RouterContext_gracefulShutdown_def Router_stop_def
        split: sum.splits if_splits option.splits)
  ultimately show ?thesis using c by (auto simp: router_consistent_def)
qed

lemma main_run_ok:
  assumes "router_consistent sha1 sha256 dsa_verify (fst (Router_start (Router_addTransport r)))"
    and "list_all (\<lambda>(w, ev). world_of sha1 sha256 dsa_verify w) (ce_events env)"
    and "main_run env r = Some (db', out, x)"
  shows "db_wf db' \<and> stored_ok sha1 sha256 dsa_verify db'"
proof -
  have "db_wf (rt_db r) \<and> stored_ok sha1 sha256 dsa_verify (rt_db r)"
    using assms(1) by (simp add: router_consistent_def Router_start_def Router_addTransport_def)
  then show ?thesis
    using assms(3) serve_ok [OF assms(1,2)] by (auto simp: main_run_def split: sum.splits if_splits)
qed

lemma importdir_ok:
  assumes "db_reachable sha1 sha256 dsa_verify db" "world_of sha1 sha256 dsa_verify (ce_world env)"
    and "main_importdir env dir db = Some (db', out, x)"
  shows "db_reachable sha1 sha256 dsa_verify db'"
proof (cases "db' = db")
  case False
  then obtain itr where "ce_exists env dir" "ce_dir env dir = Inr itr"
    using assms(3) by (auto simp: main_importdir_def Let_def split: if_splits sum.splits)
  then obtain r where r: "import_loop sha1 dsa_verify itr [] = Some r"
    "(case ebind r (\<lambda>routers. Database_setRouterInfos sha256 routers db) of Inl err \<Rightarrow> (db, [], caught err) | Inr db \<Rightarrow> (db, [], EXIT_SUCCESS)) = (db', out, x)"
    using assms(2,3) by (auto simp: main_importdir_def Let_def world_of_def)
  from r(2) False obtain routers where s: "r = Inr routers" "Database_setRouterInfos sha256 routers db = Inr db'"
    by (cases "ebind r (\<lambda>routers. Database_setRouterInfos sha256 routers db)") (auto simp: ebind_Inr_iff)
  have "list_all (signed_info sha1 dsa_verify) routers"
    using import_loop_result [of sha1 dsa_verify itr routers] signed_infos_good r(1) s(1) by blast
  with s(2) show ?thesis by (intro db_reachable.step [OF assms(1), of "Db_store_all routers"]) simp_all
qed (use assms(1) in simp)

lemma import_ok:
  assumes "db_reachable sha1 sha256 dsa_verify db" "world_of sha1 sha256 dsa_verify (ce_world env)"
    and "\<forall>b ri p. ce_read env file = Some b \<and> RouterInfo_parse (length b) b 0 = Inr (ri, p) \<longrightarrow> RouterInfo_verifySignature sha1 dsa_verify ri"
  shows "db_reachable sha1 sha256 dsa_verify (fst (main_import env file db))"
proof -
  have "db_reachable sha1 sha256 dsa_verify db'"
    if "ce_read env file = Some b" "RouterInfo_parse (length b) b 0 = Inr (ri, p)" "Database_setRouterInfo sha256 ri db = Inr db'" for b ri p db'
    using that assms(3) RouterInfo_parse_wf [OF that(2)]
    by (intro db_reachable.step [OF assms(1), of "Db_store ri"]) (auto simp: signed_info_def)
  then show ?thesis
    using assms(1,2) by (auto simp: main_import_def world_of_def ebind_Inr_iff split: option.split sum.split)
qed

subsection \<open>Properties\<close>

text \<open>C15. Whatever the command line, once \<open>main\<close> has returned or crashed the database satisfies its keys and
  references and holds only signed router infos under their own hashes: creating it, importing a directory,
  wiping, configuring and running the router with any events all keep this. Importing a single file is the one
  command that needs a condition, because it alone does not verify the signature.\<close>

theorem console_keeps_database:
  assumes "db_reachable sha1 sha256 dsa_verify db" and "world_of sha1 sha256 dsa_verify (ce_world env)"
    and "list_all (\<lambda>(w, ev). world_of sha1 sha256 dsa_verify w) (ce_events env)"
    and "\<forall>file b ri p. vm_import vm = Some file \<and> ce_read env file = Some b \<and> RouterInfo_parse (length b) b 0 = Inr (ri, p) \<longrightarrow>
      RouterInfo_verifySignature sha1 dsa_verify ri"
    and "console_main env vm (Some db) = Some (db', out, x)"
  shows "db_wf db' \<and> stored_ok sha1 sha256 dsa_verify db'"
proof (cases "db_reachable sha1 sha256 dsa_verify db'")
  case True
  then show ?thesis by (rule reachable_ok)
next
  case False
  have cmd: "db_reachable sha1 sha256 dsa_verify db1" if "db_run sha256 ev db = Inr db1" "event_signed sha1 dsa_verify ev" for ev db1
    using db_reachable.step [OF assms(1) that(2,1)] .
  have imp: "db_reachable sha1 sha256 dsa_verify db1" if "main_import env f db = (db1, o1, x1)" "vm_import vm = Some f" for f db1 o1 x1
    using assms(4) that import_ok [OF assms(1,2), of f] by fastforce
  have exp: "main_export env f db = (db1, o1, x1) \<Longrightarrow> db1 = db" for f db1 o1 x1
    by (auto simp: main_export_def Let_def split: sum.splits if_splits)
  note cmds = cmd [of "Db_create (ce_newElg env) (ce_newDsa env)", simplified] cmd [of Db_delete_all, simplified] cmd [of "Db_config _ _", simplified]
  obtain i r where r: "RouterContext_make (ce_world env) (ce_load_elg env) (ce_load_dsa env) (ce_junkE env) (ce_junkS env) (ce_junkRunning env) db = Inr (i, r)"
    "main_run env r = Some (db', out, x)"
    using assms(1,5) False
    by (auto simp: console_main_def Let_def split: if_splits sum.splits option.splits list.splits prod.splits
        dest: cmds imp exp importdir_ok [OF assms(1,2)])
  show ?thesis by (rule main_run_ok [OF made_ok [OF assms(1) r(1)] assms(3) r(2)])
qed

text \<open>C39. Importing a directory that can be listed does not return exactly when a regular file that cannot
  be opened comes before the first malformed one: that file is tried again for ever. When every regular file can be opened
  and parsed, the command succeeds and stores the infos with a valid signature, in the order of the directory, and no
  others. When the first file that cannot be imported is malformed, or the directory cannot be listed, the error ends the
  command and nothing is stored, not even the infos read before.\<close>

theorem directory_import_returns:
  assumes "ce_exists env dir" and "sha1 = ne_sha1 (w_env (ce_world env))" and "dsa_verify = ne_dsa_verify (w_env (ce_world env))"
  shows "(\<forall>err. ce_dir env dir = Inl err \<longrightarrow> main_importdir env dir db = Some (db, [], caught err)) \<and>
    (\<forall>es. ce_dir env dir = Inr es \<longrightarrow>
      (main_importdir env dir db = None \<longleftrightarrow>
        (\<exists>as e bs. es = as @ e # bs \<and> list_all passable as \<and> de_regular e \<and> de_content e = None)) \<and>
      (list_all passable es \<longrightarrow>
        (\<exists>db'. Database_setRouterInfos (ne_sha256 (w_env (ce_world env))) (signed_infos sha1 dsa_verify es) db = Inr db' \<and>
           main_importdir env dir db = Some (db', [], EXIT_SUCCESS))) \<and>
      (\<forall>as e bs info err. es = as @ e # bs \<and> list_all passable as \<and> de_regular e \<and> de_content e = Some info \<and>
         RouterInfo_parse (length info) info 0 = Inl err \<longrightarrow> main_importdir env dir db = Some (db, [], caught err)))"
proof (intro conjI allI impI)
  show "main_importdir env dir db = Some (db, [], caught err)" if "ce_dir env dir = Inl err" for err
    using that assms(1) by (simp add: main_importdir_def)
next
  fix es
  assume es: "ce_dir env dir = Inr es"
  show "main_importdir env dir db = None \<longleftrightarrow>
      (\<exists>as e bs. es = as @ e # bs \<and> list_all passable as \<and> de_regular e \<and> de_content e = None)"
    using assms es import_loop_None [of sha1 dsa_verify es] by (simp add: main_importdir_def Let_def)
next
  fix es
  assume es: "ce_dir env dir = Inr es" and p: "list_all passable es"
  have "import_loop sha1 dsa_verify es [] = Some (Inr (signed_infos sha1 dsa_verify es))"
    using import_loop_passes [OF p, of sha1 dsa_verify "[]" "[]"] by (simp add: import_loop.simps)
  moreover obtain db' where "Database_setRouterInfos (ne_sha256 (w_env (ce_world env))) (signed_infos sha1 dsa_verify es) db = Inr db'"
    using setRouterInfos_stores by blast
  ultimately show "\<exists>db'. Database_setRouterInfos (ne_sha256 (w_env (ce_world env))) (signed_infos sha1 dsa_verify es) db = Inr db' \<and>
      main_importdir env dir db = Some (db', [], EXIT_SUCCESS)"
    using assms es by (simp add: main_importdir_def Let_def)
next
  fix es as e bs info err
  assume es: "ce_dir env dir = Inr es" and d: "es = as @ e # bs \<and> list_all passable as \<and> de_regular e \<and> de_content e = Some info \<and>
    RouterInfo_parse (length info) info 0 = Inl err"
  then have "import_loop sha1 dsa_verify es [] = Some (Inl err)"
    using import_loop_passes [of as sha1 dsa_verify "e # bs" "[]"] by (simp add: import_loop.simps [of _ _ "e # bs"])
  then show "main_importdir env dir db = Some (db, [], caught err)" using assms es by (simp add: main_importdir_def Let_def)
qed

text \<open>C40. Importing a single file does not verify it: an info with a bad signature is stored and the command succeeds,
  but from then on the router is known and its info cannot be read.\<close>

theorem import_unverified:
  assumes "RouterContext_make (ce_world env) (ce_load_elg env) (ce_load_dsa env) (ce_junkE env) (ce_junkS env) (ce_junkRunning env) db = Inr (i, r)"
    and "\<not> vm_help vm" and "\<not> vm_version vm" and "\<not> vm_init vm" and "vm_export vm = None" and "vm_import vm = Some path"
    and "ce_read env path = Some b" and "RouterInfo_parse (length b) b 0 = Inr (ri, p)"
    and "\<not> RouterInfo_verifySignature (ne_sha1 (w_env (ce_world env))) (ne_dsa_verify (w_env (ce_world env))) ri"
    and "h = info_hash (ne_sha256 (w_env (ce_world env))) ri"
  shows "\<exists>db'. console_main env vm (Some db) = Some (db', [], EXIT_SUCCESS) \<and> Database_routerExists h db' \<and>
    Database_getRouterInfo (ne_sha1 (w_env (ce_world env))) (ne_dsa_verify (w_env (ce_world env))) h db' = Inl (Runtime_error ''router info corrupt'')"
proof -
  let ?e = "w_env (ce_world env)"
  obtain db' where db': "Database_setRouterInfo (ne_sha256 ?e) ri db = Inr db'"
    "db_routers_raw db' = filter (\<lambda>r. fst r \<noteq> encode h) (db_routers_raw db) @ [(encode h, encode (RouterInfo_serialize ri))]"
    using setRouterInfo_stored [OF refl, of "ne_sha256 ?e" ri db] assms(10) by (auto simp: info_hash_def)
  have m: "map_of (db_routers_raw db') (encode h) = Some (encode (RouterInfo_serialize ri))"
    unfolding db'(2) by (simp only: map_of_replaced) simp
  have "RouterInfo_parse (length (RouterInfo_serialize ri)) (RouterInfo_serialize ri) 0 = Inr (ri, length (RouterInfo_getSignedBytes ri))"
    using RouterInfo_par_ser [OF RouterInfo_parse_wf [OF assms(8)], of "RouterInfo_serialize ri" 0] by simp
  then have "Database_getRouterInfo (ne_sha1 ?e) (ne_dsa_verify ?e) h db' = Inl (Runtime_error ''router info corrupt'')"
    using m assms(9) by (simp add: Database_getRouterInfo_def Database_getRouterInfo_string_def)
  moreover have "Database_routerExists h db'" using m by (simp add: routerExists_iff)
  moreover have "console_main env vm (Some db) = Some (db', [], EXIT_SUCCESS)"
    using assms(1-8) db'(1) by (simp add: console_main_def main_import_def)
  ultimately show ?thesis by blast
qed

subsection \<open>Instances\<close>

definition toy_console :: console_env where
  "toy_console = \<lparr>ce_world = toy_world, ce_load_elg = Inr, ce_load_dsa = Inr, ce_junkE = replicate 256 0, ce_junkS = replicate 128 0,
     ce_junkRunning = True, ce_newElg = [], ce_newDsa = [],
     ce_read = (\<lambda>f. if f = [1] then Some (RouterInfo_serialize (toy_info 6))
        else if f = [2] then Some (RouterInfo_serialize (toy_info 5\<lparr>ri_signature := replicate 40 0\<rparr>)) else None),
     ce_writable = (\<lambda>_. False), ce_exists = (\<lambda>_. True),
     ce_dir = (\<lambda>d. Inr [\<lparr>de_regular = False, de_content = None\<rparr>, \<lparr>de_regular = True, de_content = Some (RouterInfo_serialize (toy_info 6))\<rparr>]),
     ce_fileKeys = Inr ([], []), ce_from_string = (\<lambda>_. Inl (Runtime_error [])), ce_bind = (\<lambda>_. None),
     ce_events = [(toy_world, Rt_service)], ce_graceful = False\<rparr>"

definition toy_command :: variables_map where
  "toy_command = \<lparr>vm_help = False, vm_version = False, vm_init = False, vm_import = None, vm_export = None, vm_importdir = None,
     vm_wipe = False, vm_get = None, vm_set = None\<rparr>"

lemma toy_info_parses:
  "RouterInfo_parse (length (RouterInfo_serialize (toy_info b))) (RouterInfo_serialize (toy_info b)) 0 =
    Inr (toy_info b, length (RouterInfo_getSignedBytes (toy_info b)))"
  using RouterInfo_par_ser [OF toy_info_wf [of b], of "RouterInfo_serialize (toy_info b)" 0] by simp

theorem console_keeps_database_witness:
  "\<exists>db db' out x. Database_routerExists (replicate 32 7) db \<and>
     console_main toy_console (toy_command\<lparr>vm_import := Some [1]\<rparr>) (Some db) = Some (db', out, x) \<and> db_wf db' \<and>
     stored_ok (\<lambda>x. x) toy_hash (\<lambda>k h s. s = replicate 40 9) db'"
proof -
  obtain db i r where d: "db_reachable (\<lambda>x. x) toy_hash (\<lambda>k h s. s = replicate 40 9) db" "Database_routerExists (replicate 32 7) db"
    "RouterContext_make toy_world Inr Inr (replicate 256 0) (replicate 128 0) True db = Inr (i, r)"
    using toy_router_made by blast
  let ?vm = "toy_command\<lparr>vm_import := Some [1]\<rparr>"
  obtain db' out x where m: "console_main toy_console ?vm (Some db) = Some (db', out, x)"
    using d(3) by (cases "main_import toy_console [1] db") (auto simp: console_main_def toy_command_def toy_console_def)
  have "db_wf db' \<and> stored_ok (\<lambda>x. x) toy_hash (\<lambda>k h s. s = replicate 40 9) db'"
    using toy_info_signed [of 6]
    by (intro console_keeps_database [OF d(1) _ _ _ m])
      (auto simp: toy_console_def toy_command_def world_of_def toy_info_parses signed_info_def)
  with d(2) m show ?thesis by blast
qed

theorem directory_import_returns_witness:
  "\<exists>db'. main_importdir toy_console [] empty_db = Some (db', [], EXIT_SUCCESS)"
proof -
  obtain es where es: "ce_dir toy_console [] = Inr es" "list_all passable es"
    by (simp add: toy_console_def passable_def toy_info_parses)
  have "ce_exists toy_console []" by (simp add: toy_console_def)
  from directory_import_returns [OF this refl refl, of empty_db] es show ?thesis by blast
qed

theorem import_unverified_witness:
  "\<exists>db db'. console_main toy_console (toy_command\<lparr>vm_import := Some [2]\<rparr>) (Some db) = Some (db', [], EXIT_SUCCESS) \<and>
     Database_routerExists (replicate 32 5) db' \<and>
     Database_getRouterInfo (\<lambda>x. x) (\<lambda>k h s. s = replicate 40 9) (replicate 32 5) db' = Inl (Runtime_error ''router info corrupt'')"
proof -
  obtain db i r where d: "RouterContext_make toy_world Inr Inr (replicate 256 0) (replicate 128 0) True db = Inr (i, r)"
    using toy_router_made by blast
  let ?ri = "toy_info 5\<lparr>ri_signature := replicate 40 0\<rparr>"
  have "RouterInfo_wf ?ri" using toy_info_wf [of 5] by (simp add: RouterInfo_wf_def toy_info_def)
  then have p: "RouterInfo_parse (length (RouterInfo_serialize ?ri)) (RouterInfo_serialize ?ri) 0 = Inr (?ri, length (RouterInfo_getSignedBytes ?ri))"
    using RouterInfo_par_ser [of ?ri "RouterInfo_serialize ?ri" 0] by simp
  have v: "\<not> RouterInfo_verifySignature (\<lambda>x. x) (\<lambda>k h s. s = replicate 40 9) ?ri" by (simp add: RouterInfo_verifySignature_def)
  have h: "replicate 32 5 = info_hash toy_hash ?ri" using toy_info_hash [of 5] by (simp add: info_hash_def toy_info_def)
  have "\<exists>db'. console_main toy_console (toy_command\<lparr>vm_import := Some [2]\<rparr>) (Some db) = Some (db', [], EXIT_SUCCESS) \<and>
     Database_routerExists (replicate 32 5) db' \<and>
     Database_getRouterInfo (ne_sha1 (w_env (ce_world toy_console))) (ne_dsa_verify (w_env (ce_world toy_console))) (replicate 32 5) db' =
       Inl (Runtime_error ''router info corrupt'')"
    using d p v h
    by (intro import_unverified [of _ db i r _ "[2]" "RouterInfo_serialize ?ri" ?ri]) (simp_all add: toy_console_def toy_command_def)
  then show ?thesis by (auto simp: toy_console_def)
qed

end
