(* ===== verification/SSU_Sessions.thy ===== *)
theory SSU_Sessions
  imports SSU_Context
begin

text \<open>
  What the transport promises its users, as an event system over the sessions alone, and the refinement:
  every handler of \<open>SSU::Context\<close>, \<open>PacketHandler\<close>, \<open>EstablishmentManager\<close> and \<open>PeerStateList\<close> is one
  event of it. The phases of an establishment are those of \<open>EstablishmentState::State\<close>.
\<close>

subsection \<open>The abstract sessions\<close>

text \<open>What the transport is about, without packets, keys and timers: whether it accepts establishments, the
  establishments it made with the endpoint and the phase of each, the one that is current for an
  endpoint, and the open sessions, one endpoint per router.\<close>

record sessions =
  se_accepting :: bool
  se_states :: "(Endpoint \<times> State) list"
  se_pending :: "Endpoint \<rightharpoonup> nat"
  se_connected :: "bytes \<rightharpoonup> Endpoint"

definition sess_open :: "Endpoint \<Rightarrow> State \<Rightarrow> sessions \<Rightarrow> sessions" where
  "sess_open ep st s =
     s\<lparr>se_states := se_states s @ [(ep, st)], se_pending := (se_pending s)(ep \<mapsto> length (se_states s))\<rparr>"

definition sess_phase :: "nat \<Rightarrow> State \<Rightarrow> sessions \<Rightarrow> sessions" where
  "sess_phase i st s = s\<lparr>se_states := (se_states s)[i := (fst (se_states s ! i), st)]\<rparr>"

definition sess_close :: "Endpoint \<Rightarrow> sessions \<Rightarrow> sessions" where
  "sess_close ep s = s\<lparr>se_pending := (se_pending s)(ep := None)\<rparr>"

text \<open>A router takes an endpoint, leaving the one it had, unless another router holds it.\<close>

definition sess_join :: "bytes \<Rightarrow> Endpoint \<Rightarrow> sessions \<Rightarrow> sessions" where
  "sess_join rh ep s =
     (if \<exists>rh'. rh' \<noteq> rh \<and> se_connected s rh' = Some ep then s
      else s\<lparr>se_connected := (se_connected s)(rh \<mapsto> ep)\<rparr>)"

definition sess_leave :: "bytes \<Rightarrow> sessions \<Rightarrow> sessions" where
  "sess_leave rh s = s\<lparr>se_connected := (se_connected s)(rh := None)\<rparr>"

definition sess_leave_at :: "Endpoint \<Rightarrow> sessions \<Rightarrow> sessions" where
  "sess_leave_at ep s =
     s\<lparr>se_connected := (\<lambda>rh. if se_connected s rh = Some ep then None else se_connected s rh)\<rparr>"

text \<open>The events: a packet from an endpoint, with its payload type if it opens under the keys in use
  there; the posted change of an establishment whose router is, if known, the given one; its timeout;
  a request to connect to an endpoint; the end of a session, which may fail; the shutdown; and whatever
  only moves messages. A boolean of a timer says that it was cancelled.\<close>

datatype sess_event =
    Sess_packet Endpoint "byte option"
  | Sess_changed nat "bytes option"
  | Sess_timeout bool nat
  | Sess_connect "Endpoint option"
  | Sess_disconnect bytes bool
  | Sess_graceful
  | Sess_data

text \<open>What a change of an establishment may do, phase by phase.\<close>

fun sess_progress :: "nat \<Rightarrow> Endpoint \<Rightarrow> State \<Rightarrow> bytes option \<Rightarrow> sessions \<Rightarrow> sessions \<Rightarrow> bool" where
  "sess_progress i ep REQUEST_SENT who s s' \<longleftrightarrow> s' = s"
| "sess_progress i ep REQUEST_RECEIVED who s s' \<longleftrightarrow> s' = s \<or> s' = sess_phase i CREATED_SENT s"
| "sess_progress i ep CREATED_SENT who s s' \<longleftrightarrow> s' = s"
| "sess_progress i ep CREATED_RECEIVED who s s' \<longleftrightarrow> s' = s \<or> s' = sess_phase i FAILURE s \<or>
     (\<exists>rh. who = Some rh \<and> (s' = sess_join rh ep s \<or> s' = sess_join rh ep (sess_phase i CONFIRMED_SENT s)))"
| "sess_progress i ep CONFIRMED_RECEIVED who s s' \<longleftrightarrow> s' = s \<or> s' = sess_phase i FAILURE s \<or>
     (\<exists>rh. who = Some rh \<and> s' = sess_close ep (sess_join rh ep s))"
| "sess_progress i ep CONFIRMED_SENT who s s' \<longleftrightarrow> s' = (if who = None then s else sess_close ep s)"
| "sess_progress i ep _ who s s' \<longleftrightarrow> s' = sess_close ep s \<or> (who = None \<and> s' = s)"

text \<open>What a packet may do to an establishment, and to an endpoint that has none.\<close>

definition sess_advance :: "nat \<Rightarrow> byte \<Rightarrow> sessions \<Rightarrow> sessions \<Rightarrow> bool" where
  "sess_advance i k s s' \<longleftrightarrow>
     (if k = payload_code SESSION_CREATED
      then s' = s \<or> (snd (se_states s ! i) = REQUEST_SENT \<and> s' = sess_phase i CREATED_RECEIVED s)
      else if k = payload_code SESSION_CONFIRMED
      then s' = s \<or> (snd (se_states s ! i) = CREATED_SENT \<and> s' = sess_phase i CONFIRMED_RECEIVED s)
      else s' = (if k = payload_code SESSION_DESTROY then sess_phase i FAILURE s else s))"

fun sess_trans :: "sess_event \<Rightarrow> sessions \<Rightarrow> sessions \<Rightarrow> bool" where
  "sess_trans (Sess_packet ep None) s s' \<longleftrightarrow> s' = s"
| "sess_trans (Sess_packet ep (Some k)) s s' \<longleftrightarrow>
     (if ep \<in> ran (se_connected s) then s' = (if k = payload_code SESSION_DESTROY then sess_leave_at ep s else s)
      else if \<not> se_accepting s then s' = s
      else case se_pending s ep of
             Some i \<Rightarrow> sess_advance i k s s'
           | None \<Rightarrow> if k = payload_code SESSION_REQUEST
                    then s' = sess_open ep UNKNOWN s \<or> s' = sess_open ep REQUEST_RECEIVED s
                    else s' = s)"
| "sess_trans (Sess_changed i who) s s' \<longleftrightarrow>
     (if i < length (se_states s) then sess_progress i (fst (se_states s ! i)) (snd (se_states s ! i)) who s s'
      else s' = s)"
| "sess_trans (Sess_timeout e i) s s' \<longleftrightarrow>
     s' = (if \<not> e \<and> i < length (se_states s) then sess_phase i FAILURE s else s)"
| "sess_trans (Sess_connect None) s s' \<longleftrightarrow> s' = s"
| "sess_trans (Sess_connect (Some ep)) s s' \<longleftrightarrow>
     (if ep \<in> dom (se_pending s) \<or> ep \<in> ran (se_connected s) then s' = s
      else s' = sess_open ep REQUEST_SENT s \<or> s' = sess_open ep UNKNOWN s)"
| "sess_trans (Sess_disconnect rh failed) s s' \<longleftrightarrow> s' = (if failed then s else sess_leave rh s)"
| "sess_trans Sess_graceful s s' \<longleftrightarrow> s' = s\<lparr>se_accepting := False\<rparr>"
| "sess_trans Sess_data s s' \<longleftrightarrow> s' = s"

text \<open>The sessions of a transport, the payload type of a packet under the keys the transport would open it
  with, and the endpoint of the first SSU address of a router.\<close>

definition connected_of :: "PeerStateList \<Rightarrow> bytes \<rightharpoonup> Endpoint" where
  "connected_of l rh = map_option pc_endpoint (by_hash rh l)"

definition sessions_of :: "Context \<Rightarrow> sessions" where
  "sessions_of cx =
     \<lparr>se_accepting = cx_accepting cx, se_states = map (\<lambda>es. (es_theirEndpoint es, es_state es)) (cx_states cx),
      se_pending = cx_stateTable cx, se_connected = connected_of (cx_peers cx)\<rparr>"

definition keys_at :: "Endpoint \<Rightarrow> Context \<Rightarrow> bytes \<times> bytes" where
  "keys_at ep cx =
     (case by_endpoint ep (cx_peers cx) of
        Some c \<Rightarrow> (ps_macKey (pc_state c), ps_sessionKey (pc_state c))
      | None \<Rightarrow>
          (case cx_stateTable cx ep of
             Some i \<Rightarrow> (es_macKey (cx_states cx ! i), es_sessionKey (cx_states cx ! i))
           | None \<Rightarrow> (cx_inboundKey cx, cx_inboundKey cx)))"

definition kind_under :: "crypto \<Rightarrow> bytes \<times> bytes \<Rightarrow> Packet \<Rightarrow> byte option" where
  "kind_under cr = (\<lambda>(mk, sk) p.
     case ebind (Packet_verify (cr_md5 cr) mk p) (\<lambda>ok.
          ebind (require ok Out_of_bounds) (\<lambda>_.
          ebind (Packet_decrypt (cr_aes_decrypt cr) sk p) (\<lambda>q. read_header (pk_data q)))) of
       Inl err \<Rightarrow> None
     | Inr (k, pos) \<Rightarrow> Some k)"

definition packet_kind :: "crypto \<Rightarrow> Packet \<Rightarrow> Context \<Rightarrow> byte option" where
  "packet_kind cr p cx = kind_under cr (keys_at (pk_endpoint p) cx) p"

definition router_of :: "crypto \<Rightarrow> nat \<Rightarrow> Context \<Rightarrow> bytes option" where
  "router_of cr i cx = map_option (identity_hash cr) (es_theirIdentity (cx_states cx ! i))"

definition is_ssu_address :: "RouterAddress \<Rightarrow> bool" where
  "is_ssu_address a \<longleftrightarrow> ra_transport a = SSU_name \<and> Mapping_getValue (ra_options a) host_name \<noteq> [] \<and>
     Mapping_getValue (ra_options a) port_name \<noteq> []"

definition connect_target :: "(bytes \<Rightarrow> address result) \<Rightarrow> RouterInfo \<Rightarrow> Endpoint option" where
  "connect_target from_string ri =
     (case find is_ssu_address (ri_addresses ri) of
        None \<Rightarrow> None
      | Some a \<Rightarrow>
          (case (stoi (Mapping_getValue (ra_options a) port_name), from_string (Mapping_getValue (ra_options a) host_name)) of
             (Inr port, Inr addr) \<Rightarrow> Some \<lparr>ep_addr = addr, ep_port = of_int port\<rparr>
           | _ \<Rightarrow> None))"

lemmas sess_defs = sess_open_def sess_phase_def sess_close_def sess_join_def sess_leave_def sess_leave_at_def

lemma sessions_of_sel [simp]:
  "se_accepting (sessions_of cx) = cx_accepting cx"
  "length (se_states (sessions_of cx)) = length (cx_states cx)"
  "i < length (cx_states cx) \<Longrightarrow> se_states (sessions_of cx) ! i = (es_theirEndpoint (cx_states cx ! i), es_state (cx_states cx ! i))"
  "se_pending (sessions_of cx) = cx_stateTable cx" "se_connected (sessions_of cx) = connected_of (cx_peers cx)"
  by (simp_all add: sessions_of_def)

lemma sess_phase_same: "i < length (se_states s) \<Longrightarrow> snd (se_states s ! i) = st \<Longrightarrow> sess_phase i st s = s"
  by (cases s) (auto simp: sess_phase_def list_update_same_conv)

lemma connected_of_addPeer:
  assumes "peers_ok l"
  shows "connected_of (PeerStateList_addPeer now ps l) =
    (if endpoint_taken ps l then connected_of l else (connected_of l)(ps_routerHash ps \<mapsto> ps_endpoint ps))"
proof (cases "endpoint_taken ps l")
  case True
  then show ?thesis by (simp add: addPeer_cases [OF assms])
next
  case False
  have "by_hash (ps_routerHash ps) (PeerStateList_addPeer now ps l) = Some (peer_container now ps)"
    using addPeer_in [OF assms False, of now] addPeer_ok [OF assms, of now ps] by (simp add: by_hash_Some)
  then show ?thesis
    using False by (auto simp: connected_of_def fun_eq_iff by_hash_addPeer_other [OF assms])
qed

lemma endpoint_taken_connected:
  "peers_ok l \<Longrightarrow> endpoint_taken ps l \<longleftrightarrow> (\<exists>rh. rh \<noteq> ps_routerHash ps \<and> connected_of l rh = Some (ps_endpoint ps))"
  by (auto simp: endpoint_taken_def connected_of_def by_hash_Some)

lemma connected_of_delPeer_hash: "connected_of (PeerStateList_delPeer_hash rh l) = (connected_of l)(rh := None)"
  by (auto simp: connected_of_def fun_eq_iff by_hash_delPeer)

lemma connected_of_delPeer:
  assumes "peers_ok l" and "c \<in> set l"
  shows "connected_of (PeerStateList_delPeer (pc_endpoint c) l) =
    (\<lambda>rh. if connected_of l rh = Some (pc_endpoint c) then None else connected_of l rh)"
proof -
  have "pc_endpoint d = pc_endpoint c \<Longrightarrow> d = c" if "d \<in> set l" for d
    using assms that by (auto simp: peers_ok_def distinct_map inj_on_def)
  then have "connected_of l rh = Some (pc_endpoint c) \<longleftrightarrow> rh = pc_hash c" for rh
    unfolding connected_of_def map_option_eq_Some by_hash_Some [OF assms(1)] using assms(2) by blast
  then show ?thesis by (simp add: delPeer_as_hash [OF assms] connected_of_delPeer_hash fun_eq_iff)
qed

lemma connected_of_map:
  assumes "\<And>c. pc_state (f c) = pc_state c"
  shows "connected_of (map f l) = connected_of l"
proof
  fix rh
  have "pc_hash (f c) = pc_hash c" "pc_endpoint (f c) = pc_endpoint c" for c
    by (simp_all add: pc_hash_def pc_endpoint_def assms)
  then show "connected_of (map f l) rh = connected_of l rh"
    by (induction l) (auto simp: connected_of_def by_hash_def)
qed

lemma connected_of_free: "peers_ok l \<Longrightarrow> ep \<in> ran (connected_of l) \<longleftrightarrow> by_endpoint ep l \<noteq> None"
  by (auto simp: connected_of_def ran_def by_hash_Some by_endpoint_None image_iff)

text \<open>The effects of one step of an establishment, on the sessions.\<close>

fun sess_effect :: "es_effect \<Rightarrow> sessions \<Rightarrow> sessions" where
  "sess_effect (Es_add_peer ps) = sess_join (ps_routerHash ps) (ps_endpoint ps)"
| "sess_effect (Es_del_state ep) = sess_close ep"
| "sess_effect _ = id"

lemma sessions_of_effect:
  assumes "peers_ok (cx_peers cx)"
  shows "sessions_of (fst (apply_effect now i e cx)) = sess_effect e (sessions_of cx) \<and>
    peers_ok (cx_peers (fst (apply_effect now i e cx)))"
proof (cases e)
  case (Es_add_peer ps)
  then show ?thesis
    using assms addPeer_ok [OF assms, of now ps]
    by (auto simp: sessions_of_def sess_join_def connected_of_addPeer endpoint_taken_connected)
qed (use assms in \<open>auto simp: sessions_of_def sess_close_def em_delState_def split: option.splits\<close>)

lemma sessions_of_effects:
  "peers_ok (cx_peers cx) \<Longrightarrow> sessions_of (fst (apply_effects now i effs cx)) = fold sess_effect effs (sessions_of cx)"
proof (induction effs arbitrary: cx)
  case (Cons e effs)
  then show ?case
    using sessions_of_effect [OF Cons.prems, of now i e] by (simp add: case_prod_unfold Let_def)
qed simp

lemma sessions_of_on_state:
  assumes "on_state now i f cx = (cx', out, err)" and "i < length (cx_states cx)" and "peers_ok (cx_peers cx)"
    and "f (cx_states cx ! i) = (es, effs, e)" and "es_theirEndpoint es = es_theirEndpoint (cx_states cx ! i)"
  shows "sessions_of cx' = fold sess_effect effs (sess_phase i (es_state es) (sessions_of cx))"
proof -
  let ?cx = "cx\<lparr>cx_states := (cx_states cx)[i := es]\<rparr>"
  have "cx' = fst (apply_effects now i effs ?cx)"
    using assms(1,2,4) by (auto simp: on_state_def split: prod.splits)
  moreover have "sessions_of ?cx = sess_phase i (es_state es) (sessions_of cx)"
    using assms(2,5) by (simp add: sess_phase_def sessions_of_def map_update)
  ultimately show ?thesis using sessions_of_effects [of ?cx now i effs] assms(3) by simp
qed

lemma sess_phase_now:
  "i < length (cx_states cx) \<Longrightarrow> es_state (cx_states cx ! i) = st \<Longrightarrow> sess_phase i st (sessions_of cx) = sessions_of cx"
  by (rule sess_phase_same) simp_all

lemma on_state_outside: "on_state now i f cx = (cx', out, err) \<Longrightarrow> \<not> i < length (cx_states cx) \<Longrightarrow> cx' = cx"
  by (simp add: on_state_def)

subsection \<open>The handlers as events of the sessions\<close>

text \<open>The results a handler of one establishment can have: the phase it leaves and its effects.\<close>

lemma processRequest_result:
  assumes "processRequest cr rn es = (es', effs, err)"
  shows "(es_state es' = es_state es \<or> es_state es' = CREATED_SENT) \<and> fold sess_effect effs = id"
  using assms
  by (auto simp: processRequest_def inr_iff split: sum.splits dest!: buildSessionCreated_keeps)

lemma processCreated_result:
  assumes "processCreated cr rn es = (es', effs, err)"
  shows "((es_state es' = es_state es \<or> es_state es' = FAILURE) \<and> effs = []) \<or>
    (\<exists>i. es_theirIdentity es = Some i \<and> (es_state es' = es_state es \<or> es_state es' = CONFIRMED_SENT) \<and>
       fold sess_effect effs = sess_join (identity_hash cr i) (es_theirEndpoint es))"
  using assms
  by (auto simp: processCreated_def inr_iff fun_eq_iff split: sum.splits bool.splits)

lemma processConfirmed_result:
  assumes "processConfirmed cr rn es = (es', effs, err)"
  shows "(es_state es' = es_state es \<or> es_state es' = FAILURE) \<and> fold sess_effect effs = id \<or>
    (\<exists>i. es_theirIdentity es = Some i \<and> es' = es \<and>
       fold sess_effect effs = sess_close (es_theirEndpoint es) \<circ> sess_join (identity_hash cr i) (es_theirEndpoint es))"
  using assms
  by (auto simp: processConfirmed_def inr_iff fun_eq_iff split: sum.splits bool.splits)

lemma handleSessionCreated_result:
  assumes "handleSessionCreated buf p es = (es', effs, err)"
  shows "(es_state es' = es_state es \<or> es_state es = REQUEST_SENT \<and> es_state es' = CREATED_RECEIVED) \<and>
    fold sess_effect effs = id"
  using assms by (auto simp: handleSessionCreated_def Let_def split: if_splits sum.splits prod.splits)

lemma handleSessionConfirmed_result:
  assumes "handleSessionConfirmed buf p es = (es', effs, err)"
  shows "(es_state es' = es_state es \<or> es_state es = CREATED_SENT \<and> es_state es' = CONFIRMED_RECEIVED) \<and>
    fold sess_effect effs = id"
  using assms by (auto simp: handleSessionConfirmed_def Let_def split: if_splits sum.splits prod.splits)

lemma handleSessionRequest_result:
  assumes "handleSessionRequest buf p es = (es', effs, err)"
  shows "(es_state es' = es_state es \<or> es_state es' = REQUEST_RECEIVED) \<and> fold sess_effect effs = id"
  using assms by (auto simp: handleSessionRequest_def Let_def split: if_splits sum.splits prod.splits)

lemma kind_under_Some:
  "kind_under cr (mk, sk) p = Some k \<longleftrightarrow> Packet_verify (cr_md5 cr) mk p = Inr True \<and>
     (\<exists>q pos. Packet_decrypt (cr_aes_decrypt cr) sk p = Inr q \<and> read_header (pk_data q) = Inr (k, pos))"
  by (auto simp: kind_under_def inr_iff split: sum.splits prod.splits)

lemma changed_event:
  assumes inv: "ctx_inv cr cx" and r: "em_stateChanged cr en i cx = (cx', out, err)"
  shows "sess_trans (Sess_changed i (router_of cr i cx)) (sessions_of cx) (sessions_of cx')"
proof (cases "i < length (cx_states cx)")
  case True
  let ?es = "cx_states cx ! i"
  obtain es effs e where s: "stateChanged cr (en_rn en) ?es = (es, effs, e)" by (metis prod_cases3)
  have "es_inv cr ?es" using inv True by (simp add: ctx_inv_def states_ok_def)
  then have "es_theirEndpoint es = es_theirEndpoint ?es"
    using stateChanged_good [of cr ?es "en_rn en"] s by (simp add: good_result_def)
  then have new: "sessions_of cx' = fold sess_effect effs (sess_phase i (es_state es) (sessions_of cx))"
    using inv by (intro sessions_of_on_state [OF r [unfolded em_stateChanged_def] True _ s]) (auto simp: ctx_inv_def peers_proven_def)
  note phase = sess_phase_now [OF True]
  show ?thesis
  proof (cases "es_state ?es")
    case REQUEST_RECEIVED
    then show ?thesis
      using processRequest_result [of cr "en_rn en" ?es] s True new by (auto simp: stateChanged_def phase)
  next
    case CREATED_RECEIVED
    then show ?thesis
      using processCreated_result [of cr "en_rn en" ?es es effs e] s True new
      by (auto simp: stateChanged_def phase router_of_def)
  next
    case CONFIRMED_RECEIVED
    then show ?thesis
      using processConfirmed_result [of cr "en_rn en" ?es es effs e] s True new
      by (auto simp: stateChanged_def phase router_of_def)
  qed (use s True new in \<open>auto simp: stateChanged_def phase router_of_def split: option.splits if_splits\<close>)
qed (use r in \<open>simp add: em_stateChanged_def on_state_def\<close>)

lemma timeout_event:
  assumes inv: "ctx_inv cr cx" and r: "em_timeoutCallback en e i cx = (cx', out, err)"
  shows "sess_trans (Sess_timeout e i) (sessions_of cx) (sessions_of cx')"
proof (cases "i < length (cx_states cx)")
  case True
  let ?es = "cx_states cx ! i"
  obtain es effs e' where s: "timeoutCallback e ?es = (es, effs, e')" by (metis prod_cases3)
  have "sessions_of cx' = fold sess_effect effs (sess_phase i (es_state es) (sessions_of cx))"
    using inv s
    by (intro sessions_of_on_state [OF r [unfolded em_timeoutCallback_def] True _ s])
      (auto simp: ctx_inv_def peers_proven_def timeoutCallback_def split: if_splits)
  then show ?thesis using s True sess_phase_now [OF True] by (auto simp: timeoutCallback_def split: if_splits)
qed (use r in \<open>simp add: em_timeoutCallback_def on_state_def\<close>)

lemma disconnect_event:
  "SSU_disconnect env rh cx = (cx', out, err) \<Longrightarrow>
     sess_trans (Sess_disconnect rh (err \<noteq> None)) (sessions_of cx) (sessions_of cx')"
  by (auto simp: connected_of_def fun_eq_iff by_hash_delPeer SSU_disconnect_def PeerStateList_peerExists_hash_def PeerStateList_getPeer_hash_def sess_leave_def
      sessions_of_def split: if_splits sum.splits option.splits)

lemma sessions_of_data:
  "cx_peers cx' = cx_peers cx \<Longrightarrow> cx_states cx' = cx_states cx \<Longrightarrow> cx_stateTable cx' = cx_stateTable cx \<Longrightarrow>
     cx_accepting cx' = cx_accepting cx \<Longrightarrow> sessions_of cx' = sessions_of cx"
  by (simp add: sessions_of_def)

lemma send_event: "SSU_send rh msgId data cx = (cx', out, err) \<Longrightarrow> sessions_of cx' = sessions_of cx"
  by (auto simp: SSU_send_def split: if_splits sum.splits prod.splits intro: sessions_of_data)

lemma sessions_of_setTimer [simp]: "sessions_of (fst (em_setTimer ep i cx)) = sessions_of cx"
  by (simp add: em_setTimer_def sessions_of_def)

lemma sessions_of_new_state:
  "sess_phase (length (cx_states cx)) st (sessions_of (em_addState (es_theirEndpoint es) es cx)) =
     sess_open (es_theirEndpoint es) st (sessions_of cx)"
  by (simp add: sess_phase_def sess_open_def sessions_of_def em_addState_def nth_append list_update_append)

text \<open>A new establishment, whose first handler \<open>f\<close> has no effect on the sessions.\<close>

lemma open_on_state:
  assumes "on_state now (length (cx_states cx)) f c = (cx', out, err)" and "peers_ok (cx_peers cx)"
    and "sessions_of c = sessions_of (em_addState (es_theirEndpoint es) es cx)"
    and "cx_peers c = cx_peers cx" "cx_states c = cx_states cx @ [es]"
    and "f es = (es', effs, e)" "fold sess_effect effs = id" "es_theirEndpoint es' = es_theirEndpoint es"
  shows "sessions_of cx' = sess_open (es_theirEndpoint es) (es_state es') (sessions_of cx)"
proof -
  have "sessions_of cx' = fold sess_effect effs (sess_phase (length (cx_states cx)) (es_state es') (sessions_of c))"
    using assms by (intro sessions_of_on_state [OF assms(1)]) simp_all
  then show ?thesis using assms(3,7) by (simp add: sessions_of_new_state)
qed

lemma createState_event:
  assumes "em_createState_outbound cr en ep ri cx = (cx', out, err)" and "peers_ok (cx_peers cx)"
  shows "sessions_of cx' = sess_open ep REQUEST_SENT (sessions_of cx) \<or>
    sessions_of cx' = sess_open ep UNKNOWN (sessions_of cx)"
proof -
  let ?es = "EstablishmentState_outbound cr (en_junk32 en) (en_dhKey en) (cx_privKey cx) (cx_identity cx) ep ri"
  obtain c o1 e where s: "on_state (en_now en) (length (cx_states cx)) (sendRequest cr (en_rn en)) (em_addState ep ?es cx) = (c, o1, e)"
    by (metis prod_cases3)
  obtain es effs e' where f: "sendRequest cr (en_rn en) ?es = (es, effs, e')" by (metis prod_cases3)
  then have es: "es_state es = REQUEST_SENT \<or> es_state es = UNKNOWN" "fold sess_effect effs = id" "es_theirEndpoint es = ep"
    by (auto simp: sendRequest_def new_state_good split: sum.splits)
  have "sessions_of c = sess_open ep (es_state es) (sessions_of cx)"
    using open_on_state [OF s assms(2) _ _ _ f] es by (simp add: new_state_good em_addState_def)
  moreover have "sessions_of cx' = sessions_of c"
    using assms(1) s sessions_of_setTimer [of ep "length (cx_states cx)" c]
    by (auto simp del: sessions_of_setTimer simp: em_createState_outbound_def Let_def split: option.splits prod.splits)
  ultimately show ?thesis using es by auto
qed

lemma connect_event:
  assumes "SSU_connect from_string cr en ri cx = (cx', out)" and ok: "peers_ok (cx_peers cx)"
  shows "sess_trans (Sess_connect (connect_target from_string ri)) (sessions_of cx) (sessions_of cx')"
proof -
  have "connect_loop from_string cr en ident as cx = (cx', out) \<Longrightarrow>
      sess_trans (Sess_connect (connect_target from_string (ri\<lparr>ri_addresses := as\<rparr>))) (sessions_of cx) (sessions_of cx')" for ident as
  proof (induction as)
    case (Cons a as)
    show ?case
    proof (cases "is_ssu_address a")
      case True
      then show ?thesis
        using Cons.prems
        by (auto simp: is_ssu_address_def connect_target_def em_stateExists_def PeerStateList_peerExists_def
            connected_of_free [OF ok] domIff split: sum.splits if_splits prod.splits
            dest!: createState_event [OF _ ok])
    next
      case False
      then have "connect_loop from_string cr en ident as cx = (cx', out)"
        using Cons.prems by (auto simp: is_ssu_address_def)
      from Cons.IH [OF this] show ?thesis using False by (simp add: connect_target_def)
    qed
  qed (simp add: connect_target_def)
  from this [of "ri_identity ri" "ri_addresses ri"] show ?thesis using assms(1) by (simp add: SSU_connect_def)
qed

text \<open>A packet from a peer: only a session destroyed packet that opens has an effect.\<close>

lemma peer_packet_event:
  assumes ok: "peers_ok (cx_peers cx)" and c: "by_endpoint (pk_endpoint p) (cx_peers cx) = Some c"
    and r: "handlePacket_peer cr en p (pc_state c) cx = (cx', out, err)"
  shows "sess_trans (Sess_packet (pk_endpoint p) (packet_kind cr p cx)) (sessions_of cx) (sessions_of cx')"
proof -
  let ?ps = "pc_state c"
  have in_l: "c \<in> set (cx_peers cx)" "pc_endpoint c = pk_endpoint p" using c ok by (simp_all add: by_endpoint_Some)
  then obtain l where l: "PeerStateList_resetPeerTimer (ps_routerHash ?ps) (cx_peers cx) = Inr l"
    by (cases "by_hash (ps_routerHash ?ps) (cx_peers cx)")
      (auto simp: PeerStateList_resetPeerTimer_def by_hash_None pc_hash_def image_iff)
  obtain f where f: "l = map f (cx_peers cx)" "\<And>d. pc_state (f d) = pc_state d" using reset_as_map [OF l] by blast
  have conn: "connected_of l = connected_of (cx_peers cx)" unfolding f(1) by (rule connected_of_map [OF f(2)])
  have "peers_ok l" by (rule resetPeerTimer_ok [OF ok l])
  moreover have "f c \<in> set l" "pc_endpoint (f c) = pk_endpoint p" using in_l f by (auto simp: pc_endpoint_def)
  ultimately have del: "connected_of (PeerStateList_delPeer (pk_endpoint p) l) =
      (\<lambda>rh. if connected_of (cx_peers cx) rh = Some (pk_endpoint p) then None else connected_of (cx_peers cx) rh)"
    using connected_of_delPeer [of l "f c"] unfolding conn by simp
  have ep: "ps_endpoint ?ps = pk_endpoint p" using in_l(2) by (simp add: pc_endpoint_def)
  have kind: "packet_kind cr p cx = kind_under cr (ps_macKey ?ps, ps_sessionKey ?ps) p"
    by (simp add: packet_kind_def keys_at_def c)
  have ran: "pk_endpoint p \<in> ran (connected_of (cx_peers cx))" using c by (simp add: connected_of_free [OF ok])
  show ?thesis
  proof (cases "packet_kind cr p cx")
    case None
    then have "sessions_of cx' = sessions_of cx"
      using r l conn unfolding kind
      by (auto simp: handlePacket_peer_def kind_under_def sessions_of_def Let_def split: sum.splits bool.splits prod.splits if_splits)
    then show ?thesis using None by simp
  next
    case (Some k)
    then obtain q pos where "Packet_verify (cr_md5 cr) (ps_macKey ?ps) p = Inr True"
      "Packet_decrypt (cr_aes_decrypt cr) (ps_sessionKey ?ps) p = Inr q" "read_header (pk_data q) = Inr (k, pos)"
      unfolding kind kind_under_Some by blast
    then have "sessions_of cx' =
        (if k = payload_code SESSION_DESTROY then sess_leave_at (pk_endpoint p) (sessions_of cx) else sessions_of cx)"
      using r l conn del ep
      by (auto simp: handlePacket_peer_def sessions_of_def sess_leave_at_def Let_def split: if_splits prod.splits)
    then show ?thesis using Some ran by simp
  qed
qed

lemma establishing_packet_event:
  assumes inv: "ctx_inv cr cx" and c: "by_endpoint (pk_endpoint p) (cx_peers cx) = None"
    and i: "cx_stateTable cx (pk_endpoint p) = Some i" and acc: "cx_accepting cx"
    and r: "on_state now i (handlePacket_establishing cr p) cx = (cx', out, err)"
  shows "sess_trans (Sess_packet (pk_endpoint p) (packet_kind cr p cx)) (sessions_of cx) (sessions_of cx')"
proof -
  let ?es = "cx_states cx ! i"
  have ok: "peers_ok (cx_peers cx)" and less: "i < length (cx_states cx)" and "es_inv cr ?es"
    using inv i by (auto simp: ctx_inv_def peers_proven_def states_ok_def)
  obtain es effs e where s: "handlePacket_establishing cr p ?es = (es, effs, e)" by (metis prod_cases3)
  then have "es_theirEndpoint es = es_theirEndpoint ?es"
    using handlePacket_good [OF \<open>es_inv cr ?es\<close>, of p] by (simp add: good_result_def)
  then have new: "sessions_of cx' = fold sess_effect effs (sess_phase i (es_state es) (sessions_of cx))"
    by (rule sessions_of_on_state [OF r less ok s])
  define e0 where "e0 = (if es_direction ?es = OUTBOUND then ?es\<lparr>es_iv := take 16 (drop 16 (pk_data p))\<rparr> else ?es)"
  have e0: "es_state e0 = es_state ?es" "es_sessionKey e0 = es_sessionKey ?es" by (simp_all add: e0_def)
  have kind: "packet_kind cr p cx = kind_under cr (es_macKey ?es, es_sessionKey ?es) p"
    by (simp add: packet_kind_def keys_at_def c i)
  have free: "pk_endpoint p \<notin> ran (connected_of (cx_peers cx))" using c by (simp add: connected_of_free [OF ok])
  note phase = sess_phase_now [OF less]
  show ?thesis
  proof (cases "packet_kind cr p cx")
    case None
    then have "es_state es = es_state ?es \<and> effs = []"
      using s e0 unfolding kind handlePacket_establishing_def e0_def [symmetric] Let_def
      by (auto simp: kind_under_def split: sum.splits bool.splits prod.splits)
    then show ?thesis using None new by (simp add: phase)
  next
    case (Some k)
    then obtain q pos where "Packet_verify (cr_md5 cr) (es_macKey ?es) p = Inr True"
      "Packet_decrypt (cr_aes_decrypt cr) (es_sessionKey e0) p = Inr q" "read_header (pk_data q) = Inr (k, pos)"
      unfolding kind kind_under_Some e0(2) by blast
    then have run: "(if k = payload_code SESSION_CREATED then handleSessionCreated (pk_data q) pos e0
        else if k = payload_code SESSION_CONFIRMED then handleSessionConfirmed (pk_data q) pos e0
        else if k = payload_code SESSION_DESTROY then (e0\<lparr>es_state := FAILURE\<rparr>, [Es_post], None)
        else (e0, [], None)) = (es, effs, e)"
      using s unfolding handlePacket_establishing_def e0_def [symmetric] Let_def by simp
    have "sess_advance i k (sessions_of cx) (sessions_of cx')"
      using run new handleSessionCreated_result [of "pk_data q" pos e0 es effs e]
        handleSessionConfirmed_result [of "pk_data q" pos e0 es effs e] less
      by (auto simp: sess_advance_def phase [unfolded e0(1) [symmetric]] e0(1) [symmetric] split: if_splits)
    then show ?thesis using Some free acc i by simp
  qed
qed

lemma new_packet_event:
  assumes ok: "peers_ok (cx_peers cx)" and c: "by_endpoint (pk_endpoint p) (cx_peers cx) = None"
    and i: "cx_stateTable cx (pk_endpoint p) = None" and acc: "cx_accepting cx"
    and r: "handlePacket_new cr en p cx = (cx', out, err)"
  shows "sess_trans (Sess_packet (pk_endpoint p) (packet_kind cr p cx)) (sessions_of cx) (sessions_of cx')"
proof -
  have kind: "packet_kind cr p cx = kind_under cr (cx_inboundKey cx, cx_inboundKey cx) p"
    by (simp add: packet_kind_def keys_at_def c i)
  have free: "pk_endpoint p \<notin> ran (connected_of (cx_peers cx))" using c by (simp add: connected_of_free [OF ok])
  show ?thesis
  proof (cases "\<exists>data pos. open_request cr (cx_inboundKey cx) p = Inr (Some (data, pos))")
    case True
    then obtain data pos where o: "open_request cr (cx_inboundKey cx) p = Inr (Some (data, pos))" by blast
    then have k: "packet_kind cr p cx = Some (payload_code SESSION_REQUEST)"
      unfolding kind kind_under_Some by (auto simp: open_request_def inr_iff split: if_splits)
    let ?es = "EstablishmentState_inbound cr (en_junk32 en) (en_dhKey en) (cx_privKey cx) (cx_identity cx) (pk_endpoint p)"
    let ?n = "length (cx_states cx)" and ?d = "fst (em_setTimer (pk_endpoint p) (length (cx_states cx)) (em_addState (pk_endpoint p) ?es cx))"
    obtain o1 where s: "on_state (en_now en) ?n (handleSessionRequest data pos) ?d = (cx', o1, err)"
      using r o by (auto simp: handlePacket_new_def em_createState_inbound_def Let_def split: prod.splits)
    obtain es effs e where f: "handleSessionRequest data pos ?es = (es, effs, e)" by (metis prod_cases3)
    have "es_theirEndpoint es = es_theirEndpoint ?es"
      using handleSessionRequest_good [of ?es cr data pos] f by (simp add: good_result_def new_state_good)
    then have "sessions_of cx' = sess_open (pk_endpoint p) (es_state es) (sessions_of cx)"
      using open_on_state [OF s ok _ _ _ f] handleSessionRequest_result [OF f]
      by (simp add: new_state_good em_setTimer_def em_addState_def sessions_of_def)
    then show ?thesis using handleSessionRequest_result [OF f] k free acc i by (auto simp: new_state_good)
  next
    case False
    then have "cx' = cx" using r by (auto simp: handlePacket_new_def split: sum.splits option.splits)
    moreover have "packet_kind cr p cx \<noteq> Some (payload_code SESSION_REQUEST)"
      using False unfolding kind kind_under_Some by (auto simp: open_request_def)
    ultimately show ?thesis using free acc i by (cases "packet_kind cr p cx") auto
  qed
qed

lemma packet_event:
  assumes inv: "ctx_inv cr cx" and r: "packetReceived cr en p cx = (cx', out, err)"
  shows "sess_trans (Sess_packet (pk_endpoint p) (packet_kind cr p cx)) (sessions_of cx) (sessions_of cx')"
proof (cases "by_endpoint (pk_endpoint p) (cx_peers cx)")
  case None
  have ok: "peers_ok (cx_peers cx)" using inv by (simp add: ctx_inv_def peers_proven_def)
  have "cx' = cx" if "\<not> cx_accepting cx"
    using r None that by (simp add: packetReceived_def PeerStateList_peerExists_def Let_def)
  moreover have "sess_trans (Sess_packet (pk_endpoint p) kind) (sessions_of cx) (sessions_of cx)" if "\<not> cx_accepting cx" for kind
    using None that connected_of_free [OF ok] by (cases kind) auto
  ultimately show ?thesis
    using r None establishing_packet_event [OF inv None] new_packet_event [OF ok None]
    by (cases "cx_accepting cx"; cases "cx_stateTable cx (pk_endpoint p)")
      (auto simp: packetReceived_def PeerStateList_peerExists_def em_getState_def Let_def simp del: sess_trans.simps)
next
  case (Some c)
  then have "handlePacket_peer cr en p (pc_state c) cx = (cx', out, err)"
    using r by (simp add: packetReceived_def PeerStateList_peerExists_def PeerStateList_getPeer_def Let_def)
  then show ?thesis using inv by (intro peer_packet_event [OF _ Some]) (simp_all add: ctx_inv_def peers_proven_def)
qed

subsection \<open>Properties\<close>

text \<open>C4. In every state the transport can reach, each of its handlers does to the sessions what the
  event it stands for may do, in one step. A packet that does not open under the keys in use at its
  endpoint changes nothing. One that opens ends the session at its endpoint exactly when it is a session
  destroyed packet; while establishments are accepted it moves one that waits for it to its next phase,
  and a session request begins one where there is none. The posted change of an establishment moves it
  from phase to phase, enters the session of its router unless another router holds the endpoint, and
  closes it when it is confirmed or has failed. A timeout fails it. A request to connect begins an
  establishment at the endpoint of the first SSU address, and only if there is neither an establishment
  nor a session. Disconnecting removes the session of that router and no other, unless it raises an
  exception; sending and the message tables change nothing.\<close>

theorem ssu_refines_sessions:
  assumes "ssu_reachable cr privKey ri cx"
  shows "(\<forall>en p cx' out err. packetReceived cr en p cx = (cx', out, err) \<longrightarrow>
      sess_trans (Sess_packet (pk_endpoint p) (packet_kind cr p cx)) (sessions_of cx) (sessions_of cx')) \<and>
    (\<forall>en i cx' out err. em_stateChanged cr en i cx = (cx', out, err) \<longrightarrow>
      sess_trans (Sess_changed i (router_of cr i cx)) (sessions_of cx) (sessions_of cx')) \<and>
    (\<forall>en e i cx' out err. em_timeoutCallback en e i cx = (cx', out, err) \<longrightarrow>
      sess_trans (Sess_timeout e i) (sessions_of cx) (sessions_of cx')) \<and>
    (\<forall>from_string en ri' cx' out. SSU_connect from_string cr en ri' cx = (cx', out) \<longrightarrow>
      sess_trans (Sess_connect (connect_target from_string ri')) (sessions_of cx) (sessions_of cx')) \<and>
    (\<forall>env rh cx' out err. SSU_disconnect env rh cx = (cx', out, err) \<longrightarrow>
      sess_trans (Sess_disconnect rh (err \<noteq> None)) (sessions_of cx) (sessions_of cx')) \<and>
    (\<forall>env e rh cx' out err. PeerStateList_timerCallback env e rh cx = (cx', out, err) \<longrightarrow>
      sess_trans (if e then Sess_data else Sess_disconnect rh (err \<noteq> None)) (sessions_of cx) (sessions_of cx')) \<and>
    (\<forall>rh msgId data cx' out err. SSU_send rh msgId data cx = (cx', out, err) \<longrightarrow>
      sess_trans Sess_data (sessions_of cx) (sessions_of cx')) \<and>
    sess_trans Sess_graceful (sessions_of cx) (sessions_of (SSU_gracefulShutdown cx)) \<and>
    (\<forall>t. sess_trans Sess_data (sessions_of cx) (sessions_of (cx\<lparr>cx_tables := t\<rparr>)))"
proof -
  have inv: "ctx_inv cr cx" by (rule reachable_inv [OF assms])
  then have ok: "peers_ok (cx_peers cx)" by (simp add: ctx_inv_def peers_proven_def)
  have timer: "sess_trans (if e then Sess_data else Sess_disconnect rh (err \<noteq> None)) (sessions_of cx) (sessions_of cx')"
    if "PeerStateList_timerCallback env e rh cx = (cx', out, err)" for env e rh cx' out err
    using that disconnect_event [of env rh cx cx' out err] by (cases e) (simp_all add: PeerStateList_timerCallback_def)
  have "sess_trans Sess_graceful (sessions_of cx) (sessions_of (SSU_gracefulShutdown cx))"
    "sess_trans Sess_data (sessions_of cx) (sessions_of (cx\<lparr>cx_tables := t\<rparr>))" for t
    by (simp_all add: sessions_of_def SSU_gracefulShutdown_def)
  then show ?thesis
    using packet_event [OF inv] changed_event [OF inv] timeout_event [OF inv] connect_event [OF _ ok]
      disconnect_event timer send_event
    by (intro conjI allI impI) (blast | simp only: sess_trans.simps)+
qed

subsection \<open>Instances\<close>

theorem ssu_refines_sessions_witness:
  "\<exists>cx out cx'. SSU_isConnected (identity_hash toy_crypto (toy_identity 7)) cx \<and>
     SSU_disconnect sample_ssu_env (identity_hash toy_crypto (toy_identity 7)) cx = (cx', out, None) \<and>
     sessions_of cx' = sess_leave (identity_hash toy_crypto (toy_identity 7)) (sessions_of cx)"
proof -
  let ?rh = "identity_hash toy_crypto (toy_identity 7)"
  obtain cx where cx: "ssu_reachable toy_crypto [9] (toy_identity 9) cx" "SSU_isConnected ?rh cx" using sample_reachable by blast
  then obtain c where c: "by_hash ?rh (cx_peers cx) = Some c"
    by (auto simp: SSU_isConnected_def PeerStateList_peerExists_hash_def)
  then have "proven toy_crypto (pc_state c)"
    using reachable_inv [OF cx(1)] by (auto simp: ctx_inv_def peers_proven_def by_hash_Some)
  then have "keys_ok (pc_state c)" by (auto simp: proven_def keyed_def keys_ok_def)
  then obtain q where "destroy_packet sample_ssu_env 0 (pc_state c) = Inr q"
    using seal_ok [OF sample_ssu_env_ok] unfolding destroy_packet_def by blast
  then have d: "SSU_disconnect sample_ssu_env ?rh cx =
      (cx\<lparr>cx_peers := PeerStateList_delPeer_hash ?rh (cx_peers cx)\<rparr>, [Cx_send q], None)" (is "_ = (?cx, ?out, None)")
    using c by (simp add: SSU_disconnect_def PeerStateList_peerExists_hash_def PeerStateList_getPeer_hash_def)
  have "\<forall>env rh cx' out err. SSU_disconnect env rh cx = (cx', out, err) \<longrightarrow>
      sess_trans (Sess_disconnect rh (err \<noteq> None)) (sessions_of cx) (sessions_of cx')"
    using ssu_refines_sessions [OF cx(1)] by (elim conjE)
  from this [rule_format, OF d] have "sessions_of ?cx = sess_leave ?rh (sessions_of cx)" by simp
  with d cx(2) show ?thesis by blast
qed

end
