(* ===== verification/Spec2Isabelle.thy ===== *)
theory Spec2Isabelle
  imports C_Interface Gzip Console SSU_Sessions
begin

text \<open>
  A verification of i2pcpp, an I2P router in C++.

  \<^bold>\<open>The program.\<close> A router keeps a database of the routers it knows, talks to them over the SSU transport (UDP),
  takes part in tunnels, and finds unknown routers through a distributed hash table. Bytes from the
  network come through \<open>lib/ssu\<close> (packet, session, fragments), are parsed as I2NP messages
  (\<open>lib/i2p/i2np\<close>), handed to a handler (\<open>lib/i2p/handlers\<close>) by the inbound dispatcher, and reach the
  database, the search manager (\<open>lib/i2p/dht\<close>) or the tunnel manager (\<open>lib/i2p/tunnel\<close>) through signals that
  one service thread runs. What these send goes through the outbound dispatcher, which queues messages
  for routers that are not connected, back to the transport.

  \<^bold>\<open>The model.\<close> Each class with state is a record, each message or enumeration a datatype, each member a
  function of the same name (a class name in front where members share a name) that takes the state and
  returns it updated, with the calls it makes on other components, the signals it raises and the timers it
  arms as a list of outputs in their order. Exceptions and undefined behaviour (reading out of
  bounds, a null pointer, locking a mutex twice) are values of \<open>cpp_error\<close>. Machine integers are words.
  Code outside the repository is a parameter: hashes and ciphers (Botan), zlib, the clock, random numbers,
  the file system, and the content of uninitialised memory; what is relied on is a hypothesis of the property.

  \<^bold>\<open>The theories.\<close>
  \<^item> \<open>Prelude\<close>, \<open>Codec\<close>, \<open>Std_Map\<close>: errors, reading a buffer through iterators, the generic round trip of a parser and
    a serializer as a locale, \<open>std::map\<close> as a sorted association list.
  \<^item> \<open>Byte_Array\<close>, \<open>Basic_Types\<close>, \<open>Router_Types\<close>, \<open>Crypto_Util\<close>, \<open>Build_Records\<close>: \<open>lib/datatypes\<close>, \<open>lib/util\<close>. What is
    serialized is parsed back; signatures verify after the wire; Base64 and the MAC are what they should be;
    a tunnel build request reaches the hop it is encrypted for.
  \<^item> \<open>Gzip\<close>: \<open>lib/util/gzip.cpp\<close>. The filters' loops end and invert each other over a zlib that makes progress.
  \<^item> \<open>I2NP\<close>: \<open>lib/i2p/i2np\<close>. Every message is read back from what was written, with either header; malformed ones
    are refused.
  \<^item> \<open>Fragments\<close>, \<open>Tunnel_Message\<close>, \<open>Fragment_Handler\<close>, \<open>Tunnels\<close>: \<open>lib/i2p/tunnel\<close>. Messages are cut, packed, layered and
    reassembled in any order; build records travel through all hops; participation is stable.
  \<^item> \<open>Kademlia\<close>, \<open>Search\<close>: \<open>lib/i2p/dht\<close>. A bucket is the logarithm of the distance minus one; searches keep their invariant under
    all events, and end by the right events with the right verdict.
  \<^item> \<open>SSU_Packet\<close>, \<open>SSU_Messages\<close>, \<open>SSU_Peers\<close>, \<open>SSU_Data\<close>, \<open>SSU_Acks\<close>, \<open>SSU_Establishment\<close>, \<open>SSU_Context\<close>, \<open>SSU_Sessions\<close>: \<open>lib/ssu\<close>. Two
    transports establish a session; only authenticated peers enter the peer list; a message arrives whole;
    retransmission is bounded; each handler is one event of an abstract machine of sessions, whose guards say
    when an establishment may begin, move on and end, and when a session is joined or left.
  \<^item> \<open>Dispatch\<close>: the dispatchers, \<open>lib/i2p/handlers\<close>, \<open>PeerManager\<close>, \<open>ProfileManager\<close>. Queued messages are sent exactly once;
    router infos are exchanged.
  \<^item> \<open>Database\<close>: \<open>lib/i2p/Database.cpp\<close> over the tables of \<open>share/schema.sql\<close>. Every reachable database satisfies the keys and
    references of the schema and holds only signed infos, as long as only signed infos are stored.
  \<^item> \<open>Router\<close>: \<open>Router.cpp\<close>, \<open>RouterContext.cpp\<close>, \<open>Signals.cpp\<close>. The components on one state with the queue of the service: a
    locale says what an invariant needs per kind of change, and its interpretation gives the soundness of
    every run; a message for an unknown router is delivered.
  \<^item> \<open>C_Interface\<close>: \<open>lib/i2p/c_api\<close>. What a C client gets from the database.
  \<^item> \<open>Console\<close>: \<open>frontends/console\<close>. Every command of the command line keeps the database sound; when an import of a directory
    returns and what it stores; statistics neither lose nor repeat what was logged.
  \<^item> This theory: tunnel data over several routers, through tunnel manager, dispatchers, wire format and handlers of each.

  \<^bold>\<open>Bounds, fuel and loops.\<close> Loops over data are structural or have a measure. The acknowledgement run of SSU, the
  loops over zlib and the import of a directory may not end and are partial functions into \<open>option\<close>: their properties say when they return.
  Sizes the code keeps in 8, 16 or 32 bits are kept at that width, so properties that need it bound the length of
  the data; the \<open>int\<close> counters of the Base64 loops are unbounded, which is right below 2 GiB.

  \<^bold>\<open>Concurrency.\<close> Handlers run one after the other: the SSU context and the service each have one thread for theirs, and members
  called from another thread take a mutex. A run is a sequence of events in any order, timers included.
  In \<open>Router\<close> a component's part of a handler runs before the calls it makes are carried out, in their
  order, so an exception inside such a call does not undo what the caller does after it; locking the mutex of the
  searches again inside such a call is the error \<open>Deadlock\<close>.

  \<^bold>\<open>Not modelled.\<close> \<open>frontends/console/websocketpp\<close> (a vendored library, most of the lines of the repository) and
  \<open>lib/i2p/sqlite3cc\<close> (a wrapper of SQLite's C interface): third-party code, of which the model of the database
  writes out what its statements do. Logging and its sinks, version strings and the registration members of \<open>Transport\<close>, which forward to boost.
  \<open>LeaseSet\<close> and \<open>RoutingTable\<close>, whose bodies are empty. Sockets, threads and files as such.
\<close>

section \<open>Tunnel data from router to router\<close>

text \<open>A router on the way: the dispatchers' environment, the tunnel manager's environment and its state.
  \<open>relay_data\<close> is what the transport is given when the manager receives tunnel data and passes its
  messages to \<open>sendMessage\<close>; \<open>receive_data\<close> what the handlers signal for bytes the transport received.\<close>

record hop_node =
  hn_node :: node_env
  hn_tunnel :: tunnel_env
  hn_manager :: Manager
  hn_dispatcher :: OutboundDispatcher

definition relay_data :: "hop_node \<Rightarrow> u32 \<Rightarrow> bytes \<Rightarrow> node_out list" where
  "relay_data n tid data =
     concat (map (\<lambda>out. case out of Mg_send to m \<Rightarrow> fst (snd (sendMessage (hn_node n) to m (hn_dispatcher n))) | _ \<Rightarrow> [])
       (fst (snd (tunnel_receiveData (hn_tunnel n) tid data (hn_manager n)))))"

definition handle_posted :: "node_env \<Rightarrow> node_out \<Rightarrow> node_out list" where
  "handle_posted env out =
     (case out of No_post from m \<Rightarrow> (case handleMessage env from m of Inl err \<Rightarrow> [] | Inr outs \<Rightarrow> outs) | _ \<Rightarrow> [])"

definition receive_data :: "hop_node \<Rightarrow> bytes \<Rightarrow> u32 \<Rightarrow> bytes \<Rightarrow> node_out list" where
  "receive_data n from mid b =
     (case messageReceived (hn_node n) from mid b of
        Inl err \<Rightarrow> []
      | Inr outs \<Rightarrow> concat (map (handle_posted (hn_node n)) outs))"

fun along :: "hop_node list \<Rightarrow> u32 \<Rightarrow> bytes \<Rightarrow> mg_result option" where
  "along [] tid data = None"
| "along [n] tid data = Some (tunnel_receiveData (hn_tunnel n) tid data (hn_manager n))"
| "along (n # n' # ns) tid data =
     (case relay_data n tid data of
        [Tr_send to mid b] \<Rightarrow>
          if to = my_hash (hn_node n')
          then case receive_data n' (my_hash (hn_node n)) mid b of
                 [Sig_tunnelData from tid' data'] \<Rightarrow> along (n' # ns) tid' data'
               | _ \<Rightarrow> None
          else None
      | _ \<Rightarrow> None)"

text \<open>Each hop's entry in its manager leads to the next router, which is connected; the last is the endpoint.\<close>

definition new_message_ok :: "(msg_body \<Rightarrow> Message) \<Rightarrow> bool" where
  "new_message_ok new \<longleftrightarrow> (\<forall>b. msg_body (new b) = b \<and> msg_id (new b) \<noteq> 0)"

fun path_ok :: "(bytes \<Rightarrow> bytes \<Rightarrow> bytes) \<Rightarrow> (bytes \<Rightarrow> bytes \<Rightarrow> bytes \<Rightarrow> bytes) \<Rightarrow> hop_node list \<Rightarrow> BuildRequestRecord list \<Rightarrow> u32 \<Rightarrow> bool" where
  "path_ok ecb_d cbc_d [n] [h] tid \<longleftrightarrow> message_cipher (hn_tunnel n) ecb_d cbc_d \<and>
     smap_find (mg_participating (hn_manager n)) tid = Some h \<and> BuildRequestRecord_getType h = ENDPOINT"
| "path_ok ecb_d cbc_d (n # n' # ns) (h # hs) tid \<longleftrightarrow> message_cipher (hn_tunnel n) ecb_d cbc_d \<and>
     smap_find (mg_participating (hn_manager n)) tid = Some h \<and> BuildRequestRecord_getType h = PARTICIPANT \<and>
     brq_nextHash h = my_hash (hn_node n') \<and> my_hash (hn_node n') \<noteq> my_hash (hn_node n) \<and>
     od_transport (hn_dispatcher n) \<and> ne_isConnected (hn_node n) (my_hash (hn_node n')) \<and>
     new_message_ok (te_newMessage (hn_tunnel n)) \<and> path_ok ecb_d cbc_d (n' # ns) hs (brq_nextTunnelId h)"
| "path_ok ecb_d cbc_d _ _ tid \<longleftrightarrow> False"

lemma receive_tunnel_data:
  assumes "msg_body m = TunnelData_body (TunnelData_make tid data)" "msg_id m \<noteq> 0" "length data = 1024"
  shows "receive_data n from (msg_id m) (short_bytes env m) = [Sig_tunnelData from tid data]"
proof -
  have wf: "body_wf (ne_junkMessage (hn_node n)) (msg_body m)" using assms by (simp add: TunnelData_make_def)
  have b: "short_bytes env m = Message_toBytes (ne_sha256 env) (ne_now env) (ne_secs env) False m" by (simp add: short_bytes_def)
  show ?thesis
    using assms
    by (simp add: receive_data_def messageReceived_def toBytes_short_parse [OF wf b] handle_posted_def handleMessage_def
        simple_handlers TunnelData_make_def)
qed

lemma relay_step:
  assumes ok: "path_ok ecb_d cbc_d (n # n' # ns) (h # hs) tid" and len: "length data = 1024"
  shows "along (n # n' # ns) tid (peel_message ecb_d cbc_d h data) = along (n' # ns) (brq_nextTunnelId h) data"
proof -
  let ?m = "te_newMessage (hn_tunnel n) (TunnelData_body (TunnelData_make (brq_nextTunnelId h) data))"
  have "relay_data n tid (peel_message ecb_d cbc_d h data) =
      [Tr_send (my_hash (hn_node n')) (msg_id ?m) (short_bytes (hn_node n) ?m)]"
    using ok participant_relays [of "hn_tunnel n" ecb_d cbc_d "hn_manager n" tid h data] len
    by (simp add: relay_data_def sendMessage_def)
  moreover have "receive_data n' (my_hash (hn_node n)) (msg_id ?m) (short_bytes (hn_node n) ?m) =
      [Sig_tunnelData (my_hash (hn_node n)) (brq_nextTunnelId h) data]"
    using ok len by (intro receive_tunnel_data) (auto simp: new_message_ok_def)
  ultimately show ?thesis by simp
qed

lemma path_ok_nonempty: "path_ok ecb_d cbc_d ns hs tid \<Longrightarrow> ns \<noteq> [] \<and> hs \<noteq> [] \<and> message_cipher (hn_tunnel (hd ns)) ecb_d cbc_d"
  by (cases "(ecb_d, cbc_d, ns, hs, tid)" rule: path_ok.cases) auto

lemma peeled_length:
  "path_ok ecb_d cbc_d ns hs tid \<Longrightarrow> length data = 1024 \<Longrightarrow> length (foldr (peel_message ecb_d cbc_d) hs data) = 1024"
  by (induction ecb_d cbc_d ns hs tid rule: path_ok.induct) (auto intro: peel_message_length)

lemma along_path:
  "path_ok ecb_d cbc_d ns hs tid \<Longrightarrow> length data = 1024 \<Longrightarrow> \<exists>tid'. path_ok ecb_d cbc_d [last ns] [last hs] tid' \<and>
     along ns tid (foldr (peel_message ecb_d cbc_d) hs data) =
       Some (tunnel_receiveData (hn_tunnel (last ns)) tid' (peel_message ecb_d cbc_d (last hs) data) (hn_manager (last ns)))"
proof (induction ecb_d cbc_d ns hs tid rule: path_ok.induct)
  case (2 ecb_d cbc_d n n' ns h hs tid)
  have rest: "path_ok ecb_d cbc_d (n' # ns) hs (brq_nextTunnelId h)" and "hs \<noteq> []"
    using 2(2) path_ok_nonempty [of ecb_d cbc_d "n' # ns" hs] by auto
  then show ?case
    using 2(1) [OF rest 2(3)] relay_step [OF 2(2) peeled_length [OF rest 2(3)]] by auto
qed auto

text \<open>C5. Through a whole tunnel: data from which the creator removed the layers of all hops in advance
  passes from router to router, through the tunnel manager, the outbound dispatcher, the wire format,
  the inbound dispatcher and the handler of each, and the endpoint, which the last of these messages
  reaches, hands exactly the fragments the creator put in to its fragment handler.\<close>

theorem tunnel_end_to_end:
  assumes path: "path_ok ecb_d cbc_d ns hs tid" and wf: "list_all AnyFragment_wf fs"
    and size: "length (concat (map Fragment_compile fs)) \<le> 1003" "length padding = 1003 - length (concat (map Fragment_compile fs))"
    and len: "length junkE = 1008" "length iv = 16" and e: "e = hn_tunnel (last ns)" and mg: "mg = hn_manager (last ns)"
    and m: "ebind (TunnelMessage_make (te_sha256 e) junkC junkE iv fs) (TunnelMessage_compile padding) = Inr m"
  shows "along ns tid (foldr (peel_message ecb_d cbc_d) hs (TunnelMessage_getEncryptedData m)) =
    Some (let (h, sent, err) = receiveFragments (te_newMessage e) (te_junkMessage e) (te_now e) fs (mg_fragments mg)
          in (mg\<lparr>mg_fragments := h\<rparr>, map (\<lambda>(to, m). Mg_send to m) sent, err))"
proof -
  have "message_cipher e ecb_d cbc_d" if "path_ok ecb_d cbc_d [last ns] [last hs] tid'" for tid' using that e by simp
  moreover obtain tid' where "path_ok ecb_d cbc_d [last ns] [last hs] tid'"
    using along_path [OF path, of "replicate 1024 0"] by auto
  ultimately have sha: "\<And>x. length (te_sha256 e x) = 32" by (auto simp: message_cipher_def)
  have d: "length (TunnelMessage_getEncryptedData m) = 1024"
    using message_compile_parse [where ?sha256.0 = "te_sha256 e" and junkC = junkC and junkT = 0 and junk = 0,
        OF wf size(1) sha size(2) len] m by auto
  obtain tid' where final: "path_ok ecb_d cbc_d [last ns] [last hs] tid'"
    "along ns tid (foldr (peel_message ecb_d cbc_d) hs (TunnelMessage_getEncryptedData m)) =
       Some (tunnel_receiveData e tid' (peel_message ecb_d cbc_d (last hs) (TunnelMessage_getEncryptedData m)) mg)"
    using along_path [OF path d] e mg by auto
  show ?thesis
    unfolding final(2) using final(1) e mg
    by (intro arg_cong [of _ _ Some] endpoint_fragments [OF _ _ _ wf size len m]) auto
qed

definition toy_hop :: "byte \<Rightarrow> u32 \<Rightarrow> BuildRequestRecord \<Rightarrow> hop_node" where
  "toy_hop b tid h = \<lparr>hn_node = toy_node b, hn_tunnel = sample_tunnel_env,
     hn_manager = Manager_make\<lparr>mg_participating := [(tid, h)]\<rparr>, hn_dispatcher = \<lparr>od_transport = True, od_pending = []\<rparr>\<rparr>"

definition toy_participant :: BuildRequestRecord where
  "toy_participant = (BuildRequestRecord_setType PARTICIPANT sample_request)\<lparr>brq_nextHash := my_hash (toy_node 2), brq_nextTunnelId := 8\<rparr>"

definition toy_endpoint :: BuildRequestRecord where
  "toy_endpoint = BuildRequestRecord_setType ENDPOINT sample_request"

theorem tunnel_end_to_end_witness:
  "\<exists>m. ebind (TunnelMessage_make toy_hash 1 (replicate 1008 2) (replicate 16 3) sample_fragments)
      (TunnelMessage_compile (replicate 950 0)) = Inr m \<and>
    along [toy_hop 1 7 toy_participant, toy_hop 2 8 toy_endpoint] 7
      (foldr (peel_message (\<lambda>k. rev) (\<lambda>k iv. rev)) [toy_participant, toy_endpoint] (TunnelMessage_getEncryptedData m)) =
    Some (let mg = Manager_make\<lparr>mg_participating := [(8, toy_endpoint)]\<rparr>;
              (h, sent, err) = receiveFragments (Message_make 1 0 0) sample_junk 0 sample_fragments (mg_fragments mg)
          in (mg\<lparr>mg_fragments := h\<rparr>, map (\<lambda>(to, m). Mg_send to m) sent, err))"
proof -
  have c: "message_cipher sample_tunnel_env (\<lambda>k. rev) (\<lambda>k iv. rev)"
    by (simp add: message_cipher_def sample_tunnel_env_def length_toy_hash)
  have hashes: "my_hash (toy_node 2) \<noteq> my_hash (toy_node 1)" by code_simp
  have new: "new_message_ok (te_newMessage sample_tunnel_env)"
    by (simp add: new_message_ok_def sample_tunnel_env_def Message_make_def)
  have ty: "BuildRequestRecord_getType toy_participant = PARTICIPANT" "BuildRequestRecord_getType toy_endpoint = ENDPOINT"
    by (simp_all add: BuildRequestRecord_getType_def toy_participant_def toy_endpoint_def) code_simp
  have path: "path_ok (\<lambda>k. rev) (\<lambda>k iv. rev) [toy_hop 1 7 toy_participant, toy_hop 2 8 toy_endpoint] [toy_participant, toy_endpoint] 7"
    using c hashes new ty by (simp add: toy_hop_def smap_find_def) (simp add: toy_participant_def toy_node_def)
  have size: "length (concat (map Fragment_compile sample_fragments)) = 53"
    by (simp add: sample_fragments_def FirstFragment_compile_def FollowOnFragment_compile_def)
  obtain m where m: "ebind (TunnelMessage_make toy_hash 1 (replicate 1008 2) (replicate 16 3) sample_fragments)
      (TunnelMessage_compile (replicate 950 0)) = Inr m"
    using message_compile_parse [OF sample_fragments_wf, where ?sha256.0 = toy_hash and padding = "replicate 950 0"
        and junkE = "replicate 1008 2" and iv = "replicate 16 3" and junkC = 1 and junkT = 0 and junk = 5] size
    by (auto simp: length_toy_hash)
  show ?thesis
    using tunnel_end_to_end [OF path sample_fragments_wf, of "replicate 950 0" "replicate 1008 2" "replicate 16 3"
        sample_tunnel_env "hn_manager (toy_hop 2 8 toy_endpoint)" 1 m] size m
    by (intro exI [of _ m]) (simp add: toy_hop_def sample_tunnel_env_def)
qed

end
